(* ===== verification/Prelude.thy ===== *)
theory Prelude
  imports Main "HOL-Library.Word" "HOL-Library.Monad_Syntax"
begin

text \<open>
  Shared vocabulary of the development: machine words, C memory objects, C strings and the
  little-endian layout of integers.

  A C object that the code touches bytewise (a block, a buffer, the disk, a \<open>char\<close> array) is a
  function from byte offsets to bytes, the type \<open>mem\<close>; \<open>memcpy\<close>, \<open>memset\<close> and \<open>strncpy\<close> are
  functions on it. An access outside of the object is undefined behaviour in C: the operations
  that can make one return an \<open>option\<close>, with \<open>None\<close> for the undefined access.
\<close>

unbundle bit_operations_syntax

named_theorems mem_simps \<open>reads of memory objects after writes\<close>
named_theorems layout_simps \<open>sizes, offsets and numeric constants of the sources\<close>
named_theorems enc_defs \<open>field-by-field encodings of the packed structs\<close>

type_synonym u8 = "8 word"
type_synonym u16 = "16 word"
type_synonym u32 = "32 word"
type_synonym u64 = "64 word"
type_synonym mem = "nat \<Rightarrow> u8"
type_synonym cstr = "u8 list"

section \<open>Memory objects\<close>

definition memcpy :: "mem \<Rightarrow> nat \<Rightarrow> mem \<Rightarrow> nat \<Rightarrow> nat \<Rightarrow> mem" where
  "memcpy d doff s soff n = (\<lambda>i. if doff \<le> i \<and> i < doff + n then s (soff + (i - doff)) else d i)"

definition memset :: "mem \<Rightarrow> nat \<Rightarrow> u8 \<Rightarrow> nat \<Rightarrow> mem" where
  "memset d off v n = (\<lambda>i. if off \<le> i \<and> i < off + n then v else d i)"

definition zeros :: mem where
  "zeros = (\<lambda>_. 0)"

text \<open>The bytes of an object of \<open>n\<close> bytes; what lies outside of it is not part of the object.\<close>

definition trim :: "nat \<Rightarrow> mem \<Rightarrow> mem" where
  "trim n m = (\<lambda>i. if i < n then m i else 0)"

definition mem_of :: "u8 list \<Rightarrow> mem" where
  "mem_of bs = (\<lambda>i. if i < length bs then bs ! i else 0)"

definition bytes_of :: "mem \<Rightarrow> nat \<Rightarrow> nat \<Rightarrow> u8 list" where
  "bytes_of m off n = map (\<lambda>i. m (off + i)) [0..<n]"

lemma memcpy_in [mem_simps]: "doff \<le> i \<Longrightarrow> i < doff + n \<Longrightarrow> memcpy d doff s soff n i = s (soff + (i - doff))"
  by (simp add: memcpy_def)

lemma memcpy_out [mem_simps]: "i < doff \<or> doff + n \<le> i \<Longrightarrow> memcpy d doff s soff n i = d i"
  by (auto simp: memcpy_def)

lemma memset_in [mem_simps]: "off \<le> i \<Longrightarrow> i < off + n \<Longrightarrow> memset d off v n i = v"
  by (simp add: memset_def)

lemma memset_out [mem_simps]: "i < off \<or> off + n \<le> i \<Longrightarrow> memset d off v n i = d i"
  by (auto simp: memset_def)

lemma zeros_apply [simp]: "zeros i = 0"
  by (simp add: zeros_def)

lemma trim_in [simp]: "i < n \<Longrightarrow> trim n m i = m i"
  by (simp add: trim_def)

lemma trim_trim [simp]: "trim n (trim n m) = trim n m"
  by (simp add: trim_def fun_eq_iff)

lemma trim_zeros [simp]: "trim n zeros = zeros"
  by (simp add: trim_def zeros_def)

lemma trim_cong: "(\<And>i. i < n \<Longrightarrow> m i = m' i) \<Longrightarrow> trim n m = trim n m'"
  by (auto simp: trim_def)

lemma length_bytes_of [simp]: "length (bytes_of m off n) = n"
  by (simp add: bytes_of_def)

lemma nth_bytes_of [simp]: "i < n \<Longrightarrow> bytes_of m off n ! i = m (off + i)"
  by (simp add: bytes_of_def)

section \<open>Little-endian integers\<close>

definition le16 :: "u16 \<Rightarrow> u8 list" where
  "le16 w = [ucast w, ucast (drop_bit 8 w)]"

definition le32 :: "u32 \<Rightarrow> u8 list" where
  "le32 w = [ucast w, ucast (drop_bit 8 w), ucast (drop_bit 16 w), ucast (drop_bit 24 w)]"

definition le64 :: "u64 \<Rightarrow> u8 list" where
  "le64 w = le32 (ucast w) @ le32 (ucast (drop_bit 32 w))"

definition rd16 :: "mem \<Rightarrow> nat \<Rightarrow> u16" where
  "rd16 m a = ucast (m a) OR push_bit 8 (ucast (m (a + 1)))"

definition rd32 :: "mem \<Rightarrow> nat \<Rightarrow> u32" where
  "rd32 m a = ucast (m a) OR push_bit 8 (ucast (m (a + 1)))
     OR push_bit 16 (ucast (m (a + 2))) OR push_bit 24 (ucast (m (a + 3)))"

definition rd64 :: "mem \<Rightarrow> nat \<Rightarrow> u64" where
  "rd64 m a = ucast (rd32 m a) OR push_bit 32 (ucast (rd32 m (a + 4)))"

definition wr32 :: "mem \<Rightarrow> nat \<Rightarrow> u32 \<Rightarrow> mem" where
  "wr32 m a w = memcpy m a (mem_of (le32 w)) 0 4"

definition wr64 :: "mem \<Rightarrow> nat \<Rightarrow> u64 \<Rightarrow> mem" where
  "wr64 m a w = memcpy m a (mem_of (le64 w)) 0 8"

lemma length_le [simp]: "length (le16 a) = 2" "length (le32 b) = 4" "length (le64 c) = 8"
  by (simp_all add: le16_def le32_def le64_def)

lemma word16_of_bytes: "ucast (ucast (w :: u16) :: u8) OR push_bit 8 (ucast (ucast (drop_bit 8 w) :: u8)) = w"
  by (rule bit_word_eqI) (auto simp: bit_simps)

lemma word32_of_bytes:
  "ucast (ucast (w :: u32) :: u8) OR push_bit 8 (ucast (ucast (drop_bit 8 w) :: u8))
     OR push_bit 16 (ucast (ucast (drop_bit 16 w) :: u8)) OR push_bit 24 (ucast (ucast (drop_bit 24 w) :: u8)) = w"
proof (rule bit_word_eqI)
  fix n assume "n < LENGTH(32)"
  then consider "n < 8" | "8 \<le> n" "n < 16" | "16 \<le> n" "n < 24" | "24 \<le> n" "n < 32"
    by fastforce
  then show "bit (ucast (ucast w :: u8) OR push_bit 8 (ucast (ucast (drop_bit 8 w) :: u8) :: u32)
     OR push_bit 16 (ucast (ucast (drop_bit 16 w) :: u8))
     OR push_bit 24 (ucast (ucast (drop_bit 24 w) :: u8))) n = bit w n"
    by cases (auto simp: bit_simps)
qed

lemma word64_of_words:
  "ucast (ucast (w :: u64) :: u32) OR push_bit 32 (ucast (ucast (drop_bit 32 w) :: u32)) = w"
  by (rule bit_word_eqI) (auto simp: bit_simps)

lemma rd16_le16: "m a = le16 w ! 0 \<Longrightarrow> m (a + 1) = le16 w ! 1 \<Longrightarrow> rd16 m a = w"
  by (simp add: rd16_def le16_def word16_of_bytes)

lemma rd32_le32:
  "m a = le32 w ! 0 \<Longrightarrow> m (a + 1) = le32 w ! 1 \<Longrightarrow> m (a + 2) = le32 w ! 2 \<Longrightarrow> m (a + 3) = le32 w ! 3
     \<Longrightarrow> rd32 m a = w"
  by (simp add: rd32_def le32_def word32_of_bytes)

lemma rd32_wr32_same [mem_simps]: "rd32 (wr32 m a w) a = w"
  by (rule rd32_le32) (simp_all add: wr32_def memcpy_def mem_of_def le32_def)

lemma rd16_eq: "rd16 m a = rd16 m' b" if "\<And>i. i < 2 \<Longrightarrow> m (a + i) = m' (b + i)"
  using that[of 0] that[of 1] by (simp add: rd16_def)

lemma rd32_eq: "rd32 m a = rd32 m' b" if "\<And>i. i < 4 \<Longrightarrow> m (a + i) = m' (b + i)"
  using that[of 0] that[of 1] that[of 2] that[of 3] by (simp add: rd32_def)

lemma rd64_eq: "rd64 m a = rd64 m' b" if "\<And>i. i < 8 \<Longrightarrow> m (a + i) = m' (b + i)"
  unfolding rd64_def using that by (intro arg_cong2[where f = "\<lambda>x y. ucast x OR push_bit 32 (ucast y)"] rd32_eq)
    (simp_all add: add.assoc)

lemma rd32_cong: "(\<And>i. a \<le> i \<Longrightarrow> i < a + 4 \<Longrightarrow> m i = m' i) \<Longrightarrow> rd32 m a = rd32 m' a"
  by (simp add: rd32_def)

lemma rd32_wr32_other [mem_simps]: "b + 4 \<le> a \<or> a + 4 \<le> b \<Longrightarrow> rd32 (wr32 m a w) b = rd32 m b"
  by (rule rd32_cong) (auto simp: wr32_def memcpy_def)

lemma rd_memcpy_other [mem_simps]:
  "a + 4 \<le> b \<or> b + n \<le> a \<Longrightarrow> rd32 (memcpy m b s so n) a = rd32 m a"
  "a + 8 \<le> b \<or> b + n \<le> a \<Longrightarrow> rd64 (memcpy m b s so n) a = rd64 m a"
  by (rule rd32_eq rd64_eq; auto simp: memcpy_def)+

lemma rd_wr_other [mem_simps]:
  "b + 4 \<le> a \<or> a + 8 \<le> b \<Longrightarrow> rd32 (wr64 m a w) b = rd32 m b"
  "b + 8 \<le> a \<or> a + 8 \<le> b \<Longrightarrow> rd64 (wr64 m a w) b = rd64 m b"
  "b + 8 \<le> a \<or> a + 4 \<le> b \<Longrightarrow> rd64 (wr32 m a v) b = rd64 m b"
  by (simp_all add: wr32_def wr64_def rd_memcpy_other)

lemma rd32_shift: "rd32 (\<lambda>i. m (k + i)) a = rd32 m (k + a)"
  by (simp add: rd32_def add.assoc)

lemma sint_small: "unat (w :: u64) < 2 ^ 63 \<Longrightarrow> sint w = int (unat w)"
proof -
  assume "unat w < 2 ^ 63"
  then have "uint w < 2 ^ 63"
    using uint_nat[of w] by (metis of_nat_less_iff of_nat_numeral of_nat_power)
  then have "sint w = uint w"
    unfolding sint_uint by (intro signed_take_bit_int_eq_self) (simp_all add: order.trans[OF _ unsigned_greater_eq])
  then show ?thesis by (simp only: uint_nat)
qed

section \<open>Reading fields of a laid-out byte list\<close>

lemma mem_of_append: "mem_of (xs @ ys) n = (if n < length xs then xs ! n else mem_of ys (n - length xs))"
  by (auto simp: mem_of_def nth_append)

lemma mem_of_Cons: "mem_of (x # ys) n = (if n = 0 then x else mem_of ys (n - 1))"
  by (auto simp: mem_of_def nth_Cons')

lemma mem_of_skip: "length xs \<le> n \<Longrightarrow> mem_of (xs @ ys) n = mem_of ys (n - length xs)"
  by (simp add: mem_of_append)

lemma rd_skip [mem_simps]:
  "length xs \<le> n \<Longrightarrow> rd16 (mem_of (xs @ ys)) n = rd16 (mem_of ys) (n - length xs)"
  "length xs \<le> n \<Longrightarrow> rd32 (mem_of (xs @ ys)) n = rd32 (mem_of ys) (n - length xs)"
  "length xs \<le> n \<Longrightarrow> rd64 (mem_of (xs @ ys)) n = rd64 (mem_of ys) (n - length xs)"
  by (rule rd16_eq rd32_eq rd64_eq; simp add: mem_of_skip)+

lemma rd_skip1 [mem_simps]:
  "0 < n \<Longrightarrow> rd16 (mem_of (x # ys)) n = rd16 (mem_of ys) (n - 1)"
  "0 < n \<Longrightarrow> rd32 (mem_of (x # ys)) n = rd32 (mem_of ys) (n - 1)"
  "0 < n \<Longrightarrow> rd64 (mem_of (x # ys)) n = rd64 (mem_of ys) (n - 1)"
  by (rule rd16_eq rd32_eq rd64_eq; simp add: mem_of_Cons)+

lemma rd_here [mem_simps]:
  "rd16 (mem_of (le16 w @ ys)) 0 = w"
  "rd32 (mem_of (le32 v @ ys)) 0 = v"
  by (simp_all add: rd16_def rd32_def le16_def le32_def mem_of_def word16_of_bytes word32_of_bytes)

lemma rd64_here [mem_simps]: "rd64 (mem_of (le64 u @ ys)) 0 = u"
  by (simp add: rd64_def le64_def mem_simps word64_of_words)

lemma rd64_wr64_same [mem_simps]: "rd64 (wr64 m a w) a = w"
proof -
  have "rd64 (wr64 m a w) a = rd64 (mem_of (le64 w)) 0"
    by (rule rd64_eq) (simp add: wr64_def memcpy_def)
  also have "\<dots> = w"
    using rd64_here[of w "[]"] by simp
  finally show ?thesis .
qed

lemma rd_last [mem_simps]: "rd32 (mem_of (le32 v)) 0 = v"
  using rd_here(2)[of v "[]"] by simp

text \<open>The bytes of a stored integer.\<close>

lemma le32_rd32: "le32 (rd32 m a) = [m a, m (a + 1), m (a + 2), m (a + 3)]"
  by (simp add: le32_def rd32_def) (intro conjI; rule bit_word_eqI; auto simp: bit_simps dest: bit_imp_le_length)

lemma le64_rd64: "le64 (rd64 m a) = le32 (rd32 m a) @ le32 (rd32 m (a + 4))"
proof -
  have "ucast (rd64 m a) = rd32 m a" "ucast (drop_bit 32 (rd64 m a)) = rd32 m (a + 4)"
    unfolding rd64_def by (rule bit_word_eqI; auto simp: bit_simps dest: bit_imp_le_length)+
  then show ?thesis by (simp add: le64_def)
qed

lemma rd32_bytes: "rd32 m a = rd32 m' b \<Longrightarrow> i < 4 \<Longrightarrow> m (a + i) = m' (b + i)"
proof -
  assume "rd32 m a = rd32 m' b" "i < 4"
  then have "[m a, m (a + 1), m (a + 2), m (a + 3)] = [m' b, m' (b + 1), m' (b + 2), m' (b + 3)]"
    using le32_rd32 by metis
  moreover have "i \<in> {0, 1, 2, 3}"
    using \<open>i < 4\<close> by auto
  ultimately show ?thesis by auto
qed

lemma rd64_bytes: "rd64 m a = rd64 m' b \<Longrightarrow> i < 8 \<Longrightarrow> m (a + i) = m' (b + i)"
proof -
  assume eq: "rd64 m a = rd64 m' b" and i: "i < 8"
  have "le32 (rd32 m a) = le32 (rd32 m' b)" "le32 (rd32 m (a + 4)) = le32 (rd32 m' (b + 4))"
    using arg_cong[OF eq, of le64] by (simp_all add: le64_rd64)
  then have "rd32 m a = rd32 m' b" "rd32 m (a + 4) = rd32 m' (b + 4)"
    using rd_last by metis+
  from rd32_bytes[OF this(1), of i] rd32_bytes[OF this(2), of "i - 4"] i show ?thesis
    by (cases "i < 4") (simp_all add: add.assoc)
qed

lemma length_le32_array [simp]: "length (concat (map (\<lambda>j. le32 (f j)) [0..<n])) = 4 * n"
  by (induction n) simp_all

lemma rd32_array:
  "j < n \<Longrightarrow> rd32 (mem_of (concat (map (\<lambda>j. le32 (f j)) [0..<n]) @ ys)) (4 * j) = f j"
proof (induction n arbitrary: ys)
  case (Suc n)
  show ?case
  proof (cases "j < n")
    case True
    with Suc.IH[of "le32 (f n) @ ys"] show ?thesis by simp
  next
    case False
    with Suc.prems have "j = n" by simp
    then show ?thesis by (simp add: mem_simps)
  qed
qed simp

lemma mem_of_bytes_of [simp]: "i < n \<Longrightarrow> mem_of (bytes_of m a n) i = m (a + i)"
  by (simp add: mem_of_def)

lemma rd_memcpy_before:
  "n + 4 \<le> k \<Longrightarrow> rd32 (memcpy m k s 0 l) n = rd32 m n"
  "n + 8 \<le> k \<Longrightarrow> rd64 (memcpy m k s 0 l) n = rd64 m n"
  by (rule rd32_eq rd64_eq; simp add: mem_simps)+

text \<open>An array of structs: the first \<open>n\<close> elements one after the other.\<close>

primrec array_bytes :: "('a \<Rightarrow> u8 list) \<Rightarrow> (nat \<Rightarrow> 'a) \<Rightarrow> nat \<Rightarrow> u8 list" where
  "array_bytes enc f 0 = []"
| "array_bytes enc f (Suc n) = array_bytes enc f n @ enc (f n)"

lemma length_array_bytes: "(\<And>x. length (enc x) = w) \<Longrightarrow> length (array_bytes enc f n) = n * w"
  by (induction n) simp_all

lemma mem_of_array_bytes:
  assumes len: "\<And>x. length (enc x) = w" and "k < n" "i < w"
  shows "mem_of (array_bytes enc f n) (k * w + i) = mem_of (enc (f k)) i"
  using assms(2)
proof (induction n)
  case (Suc n)
  note len_n = length_array_bytes[of enc w f n, OF len]
  show ?case
  proof (cases "k < n")
    case True
    then have "(k + 1) * w \<le> n * w"
      by (intro mult_le_mono1) simp
    with assms(3) have "k * w + i < n * w"
      by simp
    with Suc.IH True len_n show ?thesis
      by (simp add: mem_of_append) (simp add: mem_of_def)
  next
    case False
    with Suc.prems assms(3) len_n show ?thesis
      by (simp add: mem_of_append less_Suc_eq)
  qed
qed simp

section \<open>Struct codecs\<close>

text \<open>A struct of \<open>width\<close> bytes with its layout. Reading looks at the struct's own bytes only and
  gives back what was laid out, up to \<open>norm\<close>, which clears what is outside of the struct's arrays.\<close>

locale struct_codec =
  fixes width :: nat
    and enc :: "'a \<Rightarrow> mem"
    and dec :: "mem \<Rightarrow> nat \<Rightarrow> 'a"
    and norm :: "'a \<Rightarrow> 'a"
  assumes dec_eq: "(\<And>i. i < width \<Longrightarrow> m (a + i) = m' (b + i)) \<Longrightarrow> dec m a = dec m' b"
    and dec_enc: "dec (enc x) 0 = norm x"
begin

lemma dec_stored: "(\<And>i. i < width \<Longrightarrow> m (a + i) = enc x i) \<Longrightarrow> dec m a = norm x"
  using dec_eq[of m a "enc x" 0] dec_enc by simp

lemma dec_memcpy_same: "dec (memcpy m a (enc x) 0 width) a = norm x"
  by (rule dec_stored) (simp add: mem_simps)

lemma dec_memcpy_other: "a + width \<le> b \<or> b + n \<le> a \<Longrightarrow> dec (memcpy m b s so n) a = dec m a"
  by (rule dec_eq) (auto simp: mem_simps)

text \<open>A table of such structs, laid out one after the other from address \<open>a\<close>.\<close>

lemma dec_table:
  assumes "\<And>i. i < width \<Longrightarrow> m (a + k * width + i) = tab (k * width + i)"
    and "\<And>i. tab i = enc (f (i div width)) (i mod width)"
  shows "dec m (a + k * width) = norm (f k)"
  using assms by (intro dec_stored) simp

end

section \<open>C strings\<close>

text \<open>A C string argument is the list of its bytes before the terminating NUL; here of a literal.\<close>

definition bytes_of_string :: "string \<Rightarrow> cstr" where
  "bytes_of_string s = map (\<lambda>c. of_nat (of_char c)) s"

definition nul_free :: "cstr \<Rightarrow> bool" where
  "nul_free s \<longleftrightarrow> 0 \<notin> set s"

definition strncpy :: "mem \<Rightarrow> cstr \<Rightarrow> nat \<Rightarrow> mem" where
  "strncpy d s n = (\<lambda>i. if i < n then (if i < length s then s ! i else 0) else d i)"

text \<open>\<open>strncmp a b n == 0\<close>, from position \<open>i\<close> on.\<close>

fun strncmp_eq :: "mem \<Rightarrow> mem \<Rightarrow> nat \<Rightarrow> nat \<Rightarrow> bool" where
  "strncmp_eq a b i 0 = True"
| "strncmp_eq a b i (Suc n) = (a i = b i \<and> (a i = 0 \<or> strncmp_eq a b (Suc i) n))"

text \<open>The string held in a \<open>char\<close> array of \<open>n\<close> bytes.\<close>

definition cstring :: "mem \<Rightarrow> nat \<Rightarrow> cstr" where
  "cstring m n = takeWhile (\<lambda>c. c \<noteq> 0) (bytes_of m 0 n)"

lemma bytes_of_Suc: "bytes_of m a (Suc n) = m a # bytes_of m (Suc a) n"
  by (simp add: bytes_of_def upt_conv_Cons map_Suc_upt[symmetric] del: upt_Suc)

lemma strncmp_eq_cstring:
  "strncmp_eq a b i n \<longleftrightarrow> takeWhile (\<lambda>c. c \<noteq> 0) (bytes_of a i n) = takeWhile (\<lambda>c. c \<noteq> 0) (bytes_of b i n)"
proof (induction n arbitrary: i)
  case 0
  then show ?case by (simp add: bytes_of_def)
next
  case (Suc n)
  then show ?case by (auto simp: bytes_of_Suc)
qed

lemma bytes_of_mem_of: "n \<le> length s \<Longrightarrow> bytes_of (mem_of s) 0 n = take n s"
  by (rule nth_equalityI) (simp_all add: mem_of_def)

lemma cstring_mem_of: "nul_free s \<Longrightarrow> cstring (mem_of s) n = take n s"
proof -
  assume s: "nul_free s"
  have *: "bytes_of (mem_of s) 0 n = take n s @ replicate (n - length s) 0"
    by (rule nth_equalityI) (auto simp: mem_of_def nth_append)
  have "\<forall>c \<in> set (take n s). c \<noteq> 0"
    using s by (auto simp: nul_free_def dest: in_set_takeD)
  then show ?thesis
    unfolding cstring_def * by (simp add: takeWhile_append2 takeWhile_replicate)
qed

lemma cstring_cong: "(\<And>i. i < n \<Longrightarrow> m i = m' i) \<Longrightarrow> cstring m n = cstring m' n"
proof -
  assume *: "\<And>i. i < n \<Longrightarrow> m i = m' i"
  have "bytes_of m 0 n = bytes_of m' 0 n"
    by (rule nth_equalityI) (simp_all add: *)
  then show ?thesis by (simp add: cstring_def)
qed

lemma cstring_strncpy: "nul_free s \<Longrightarrow> cstring (strncpy d s n) n = take n s"
proof -
  assume s: "nul_free s"
  have "cstring (strncpy d s n) n = cstring (mem_of s) n"
    by (rule cstring_cong) (simp add: strncpy_def mem_of_def)
  then show ?thesis by (simp add: cstring_mem_of s)
qed

text \<open>The digits of a number, and the conversion \<open>%d\<close> of \<open>printf\<close>.\<close>

fun dec_digits :: "nat \<Rightarrow> cstr" where
  "dec_digits n = (if n < 10 then [48 + of_nat n] else dec_digits (n div 10) @ [48 + of_nat (n mod 10)])"

definition fmt_d :: "int \<Rightarrow> cstr" where
  "fmt_d i = (if i < 0 then [45] else []) @ dec_digits (nat \<bar>i\<bar>)"

end
