(* ===== verification/Crc32.thy ===== *)
theory Crc32
  imports Prelude
begin

text \<open>
  The checksum of \<^verbatim>\<open>idkfs_core.c\<close>: the table built by \<open>crc32_init\<close>, the table-driven \<open>crc32\<close>
  with its lazily initialised global table, and what the checksum promises: it is the bitwise
  CRC-32 of the reversed polynomial, it does not depend on whether the table was built before the
  call, and no change of a single byte of a message goes undetected.
\<close>

section \<open>Definitions\<close>

definition crc_poly :: u32 where
  "crc_poly = 0xEDB88320"

definition crc_bit :: "u32 \<Rightarrow> u32" where
  "crc_bit c = (if c AND 1 \<noteq> 0 then crc_poly XOR drop_bit 1 c else drop_bit 1 c)"

text \<open>The inner loop of \<open>crc32_init\<close>: eight steps on one table index.\<close>

definition crc_entry :: "u32 \<Rightarrow> u32" where
  "crc_entry i = (crc_bit ^^ 8) i"

record crc_globals =
  crc32_table :: "nat \<Rightarrow> u32"
  crc32_initialized :: bool

definition crc_boot :: crc_globals where
  "crc_boot = \<lparr>crc32_table = (\<lambda>_. 0), crc32_initialized = False\<rparr>"

definition crc32_init :: "crc_globals \<Rightarrow> crc_globals" where
  "crc32_init g = g\<lparr>crc32_table := (\<lambda>i. if i < 256 then crc_entry (word_of_nat i) else crc32_table g i),
                    crc32_initialized := True\<rparr>"

definition crc_step :: "(nat \<Rightarrow> u32) \<Rightarrow> u32 \<Rightarrow> u8 \<Rightarrow> u32" where
  "crc_step t c b = t (unat ((c XOR ucast b) AND 0xFF)) XOR drop_bit 8 c"

definition crc32_run :: "crc_globals \<Rightarrow> u8 list \<Rightarrow> crc_globals \<times> u32" where
  "crc32_run g p =
     (let g' = (if \<not> crc32_initialized g then crc32_init g else g)
      in (g', foldl (crc_step (crc32_table g')) 0xFFFFFFFF p XOR 0xFFFFFFFF))"

text \<open>The value \<open>crc32\<close> returns, with the table \<open>crc32_init\<close> builds.\<close>

definition crc32 :: "u8 list \<Rightarrow> u32" where
  "crc32 p = snd (crc32_run crc_boot p)"

text \<open>Reference: the CRC register fed byte by byte, eight shifts per byte, without a table.\<close>

definition crc_byte :: "u32 \<Rightarrow> u8 \<Rightarrow> u32" where
  "crc_byte c b = (crc_bit ^^ 8) (c XOR ucast b)"

definition crc_reference :: "u8 list \<Rightarrow> u32" where
  "crc_reference p = foldl crc_byte 0xFFFFFFFF p XOR 0xFFFFFFFF"

text \<open>What every call leaves true of the globals: an initialised table holds the table entries.\<close>

definition crc_ok :: "crc_globals \<Rightarrow> bool" where
  "crc_ok g \<longleftrightarrow> crc32_initialized g \<longrightarrow> (\<forall>i<256. crc32_table g i = crc_entry (word_of_nat i))"

section \<open>The bit step is linear and injective\<close>

lemma crc_bit_alt: "crc_bit c = drop_bit 1 c XOR (if bit c 0 then crc_poly else 0)"
  by (simp add: crc_bit_def bit_0 and_one_eq odd_iff_mod_2_eq_one xor.commute[of crc_poly])

lemma crc_bit_xor: "crc_bit (x XOR y) = crc_bit x XOR crc_bit y"
  by (auto simp: crc_bit_alt bit_xor_iff drop_bit_xor ac_simps)

lemma crc_bits_xor: "(crc_bit ^^ n) (x XOR y) = (crc_bit ^^ n) x XOR (crc_bit ^^ n) y"
  by (induction n) (simp_all add: crc_bit_xor)

lemma crc_bits_high: "take_bit n y = 0 \<Longrightarrow> (crc_bit ^^ n) y = drop_bit n y"
proof (induction n arbitrary: y)
  case 0
  then show ?case by simp
next
  case (Suc n)
  have low: "bit y k = False" if "k < Suc n" for k
    using that arg_cong[OF Suc.prems, of "\<lambda>w. bit w k"] by (simp add: bit_take_bit_iff)
  have "crc_bit y = drop_bit 1 y"
    using low[of 0] by (simp add: crc_bit_alt)
  moreover have "take_bit n (drop_bit 1 y) = 0"
    using low by (intro bit_eqI) (simp add: bit_take_bit_iff bit_drop_bit_eq)
  ultimately show ?case
    using Suc.IH[of "drop_bit 1 y"] by (simp add: funpow_swap1)
qed

lemma crc_poly_top: "bit crc_poly 31"
  by (simp add: crc_poly_def)

lemma crc_bit_top: "bit (crc_bit c) 31 = bit c 0"
  by (auto simp: crc_bit_alt bit_xor_iff bit_drop_bit_eq crc_poly_top dest: bit_imp_le_length)

lemma xor_right_cancel: "(a :: u32) XOR p = b XOR p \<longleftrightarrow> a = b"
  by (metis xor.assoc xor_self_eq xor.right_neutral)

lemma inj_crc_bit: "inj crc_bit"
proof (rule injI)
  fix x y assume eq: "crc_bit x = crc_bit y"
  then have b0: "bit x 0 = bit y 0"
    by (metis crc_bit_top)
  with eq have "drop_bit 1 x = drop_bit 1 y"
    by (simp add: crc_bit_alt xor_right_cancel split: if_splits)
  then have "bit x (Suc n) = bit y (Suc n)" for n
    by (metis bit_drop_bit_eq comp_apply plus_1_eq_Suc)
  with b0 show "x = y"
    by (intro bit_eqI) (metis not0_implies_Suc)
qed

lemma inj_crc_bits: "inj (crc_bit ^^ n)"
proof (induction n)
  case 0
  show ?case by (simp add: inj_def)
next
  case (Suc n)
  have "inj (crc_bit \<circ> (crc_bit ^^ n))"
    using inj_crc_bit Suc.IH by (rule inj_compose)
  then show ?case by (simp only: funpow.simps)
qed

section \<open>Table step and reference step agree\<close>

lemma byte_mask: "(x :: u32) AND 0xFF = take_bit 8 x"
  by (simp add: take_bit_eq_mask mask_eq_exp_minus_1 and.commute)

lemma word_split_xor: "(x :: u32) = take_bit 8 x XOR push_bit 8 (drop_bit 8 x)"
proof (rule bit_word_eqI)
  fix n assume "n < LENGTH(32)"
  then show "bit x n = bit (take_bit 8 x XOR push_bit 8 (drop_bit 8 x)) n"
    by (cases "n < 8") (simp_all add: bit_simps)
qed

lemma crc_entry_step: "crc_entry ((c XOR ucast b) AND 0xFF) XOR drop_bit 8 c = crc_byte c b"
proof -
  let ?x = "c XOR ucast b"
  define hi where "hi = push_bit 8 (drop_bit 8 ?x)"
  have split: "?x = take_bit 8 ?x XOR hi"
    unfolding hi_def by (rule word_split_xor)
  have "take_bit 8 hi = 0"
    unfolding hi_def by (rule bit_word_eqI) (auto simp: bit_simps)
  then have "(crc_bit ^^ 8) hi = drop_bit 8 hi"
    by (rule crc_bits_high)
  also have "drop_bit 8 hi = drop_bit 8 c"
    unfolding hi_def by (rule bit_word_eqI) (auto simp: bit_simps dest: bit_imp_le_length)
  finally have hi: "(crc_bit ^^ 8) hi = drop_bit 8 c" .
  have "crc_byte c b = (crc_bit ^^ 8) (take_bit 8 ?x XOR hi)"
    unfolding crc_byte_def by (subst split) (rule refl)
  also have "\<dots> = crc_entry (take_bit 8 ?x) XOR drop_bit 8 c"
    by (simp add: crc_bits_xor hi crc_entry_def)
  finally show ?thesis by (simp add: byte_mask)
qed

lemma crc_step_byte:
  assumes "\<forall>i<256. t i = crc_entry (word_of_nat i)"
  shows "crc_step t c b = crc_byte c b"
proof -
  have "unat ((c XOR ucast b) AND 0xFF) < 256"
    using take_bit_nat_less_exp[of 8 "unat (c XOR ucast b)"]
    by (simp add: byte_mask unsigned_take_bit_eq del: take_bit_xor)
  then show ?thesis
    using assms by (simp add: crc_step_def crc_entry_step)
qed

lemma crc32_init_ok: "crc_ok (crc32_init g)"
  by (simp add: crc_ok_def crc32_init_def)

lemma crc_boot_ok: "crc_ok crc_boot"
  by (simp add: crc_ok_def crc_boot_def)

section \<open>Detection of a changed byte\<close>

text \<open>A checksum register: feeding a byte never merges two registers, and never merges two bytes.\<close>

locale checksum_register =
  fixes feed :: "'s \<Rightarrow> 'b \<Rightarrow> 's"
  assumes feed_inj_state: "feed c b = feed c' b \<Longrightarrow> c = c'"
    and feed_inj_byte: "feed c b = feed c b' \<Longrightarrow> b = b'"
begin

lemma feed_all_inj: "foldl feed c p = foldl feed c' p \<Longrightarrow> c = c'"
  by (induction p arbitrary: c c') (auto dest: feed_inj_state)

lemma changed_byte_detected:
  "b \<noteq> b' \<Longrightarrow> foldl feed c (p @ b # q) \<noteq> foldl feed c (p @ b' # q)"
  using feed_inj_byte by (auto dest: feed_all_inj)

end

lemma byte_roundtrip: "ucast (ucast (b :: u8) :: u32) = b"
  by (rule bit_word_eqI) (auto simp: bit_simps)

lemma xor_byte_inj: "(c :: u32) XOR ucast (b :: u8) = c XOR ucast b' \<Longrightarrow> b = b'"
proof -
  assume "c XOR ucast b = c XOR ucast b'"
  then have "(ucast b :: u32) = ucast b'"
    by (simp only: xor.commute[of c] xor_right_cancel)
  then have "ucast (ucast b :: u32) = (ucast (ucast b' :: u32) :: u8)"
    by simp
  then show ?thesis by (simp only: byte_roundtrip)
qed

interpretation crc: checksum_register crc_byte
proof unfold_locales
  fix c c' :: u32 and b b' :: u8
  show "c = c'" if "crc_byte c b = crc_byte c' b"
    using injD[OF inj_crc_bits that[unfolded crc_byte_def]] by (simp add: xor_right_cancel)
  show "b = b'" if "crc_byte c b = crc_byte c b'"
    using injD[OF inj_crc_bits that[unfolded crc_byte_def]] by (rule xor_byte_inj)
qed

lemma crc32_run_eq: "crc_ok g \<Longrightarrow> snd (crc32_run g p) = crc_reference p \<and> crc_ok (fst (crc32_run g p))"
proof -
  assume okg: "crc_ok g"
  define g' where "g' = (if \<not> crc32_initialized g then crc32_init g else g)"
  have ok: "crc_ok g'"
    using okg by (simp add: g'_def crc32_init_ok)
  have "crc32_initialized g'"
    by (simp add: g'_def crc32_init_def)
  with ok have "crc_step (crc32_table g') = crc_byte"
    by (intro ext crc_step_byte) (simp add: crc_ok_def)
  with ok show ?thesis
    by (simp add: crc32_run_def crc_reference_def g'_def Let_def)
qed

lemma crc32_reference: "crc32 p = crc_reference p"
  by (simp add: crc32_def crc32_run_eq crc_boot_ok)

text \<open>C27: The table-driven \<open>crc32\<close> equals the bitwise CRC-32 reference on every message, whatever
  the global table holds before the call as long as an initialised table is the one \<open>crc32_init\<close>
  built; the call leaves the globals in such a state.\<close>

theorem crc32_equals_reference:
  assumes "crc_ok g"
  shows "snd (crc32_run g p) = crc_reference p \<and> crc_ok (fst (crc32_run g p))"
  by (rule crc32_run_eq[OF assms])

theorem crc32_equals_reference_witness:
  "crc_ok crc_boot \<and> snd (crc32_run crc_boot [0x31, 0x32]) = crc_reference [0x31, 0x32]
     \<and> crc_ok (fst (crc32_run crc_boot [0x31, 0x32]))"
  using crc32_equals_reference[OF crc_boot_ok, of "[0x31, 0x32]"] crc_boot_ok by simp

text \<open>C28: Two messages that differ in exactly one byte have different checksums.\<close>

theorem crc32_detects_byte_change:
  "b \<noteq> b' \<Longrightarrow> crc32 (p @ b # q) \<noteq> crc32 (p @ b' # q)"
  using crc.changed_byte_detected[of b b' _ p q]
  by (simp add: crc32_reference crc_reference_def xor_right_cancel)

theorem crc32_detects_byte_change_witness:
  "crc32 [1, 2, 3] \<noteq> crc32 [1, 7, 3]"
  using crc32_detects_byte_change[of 2 7 "[1]" "[3]"] by simp

lemma funpow_8: "(f ^^ 8) x = f (f (f (f (f (f (f (f x)))))))"
  by (simp add: numeral_eq_Suc)

lemma crc32_check_value: "crc32 [0x31, 0x32, 0x33, 0x34, 0x35, 0x36, 0x37, 0x38, 0x39] = 0xCBF43926"
  by (simp add: crc32_reference crc_reference_def crc_byte_def funpow_8 crc_bit_def crc_poly_def)

end
