(* ===== verification/Core_Types.thy ===== *)
theory Core_Types
  imports Crc32
begin

text \<open>
  The data of \<^verbatim>\<open>idkfs_core.c\<close>: its constants, enums and structs, and the byte layout of the packed
  structs that are copied to and from the disk image. Each \<open>X_mem\<close> gives the bytes of a struct
  and each \<open>mem_X\<close> reads a struct back; the round-trip lemmas say that reading what was written
  gives the struct, up to bytes outside of its arrays.
\<close>

section \<open>Constants\<close>

abbreviation (input) IDKFS_MAGIC :: u32 where "IDKFS_MAGIC \<equiv> 0x49444B46"
abbreviation (input) IDKFS_VERSION :: u32 where "IDKFS_VERSION \<equiv> 1"
abbreviation (input) IDKFS_BLOCK_SIZE :: nat where "IDKFS_BLOCK_SIZE \<equiv> 4096"
abbreviation (input) IDKFS_TOTAL_BLOCKS :: nat where "IDKFS_TOTAL_BLOCKS \<equiv> 65536"
abbreviation (input) IDKFS_MAX_INODES :: nat where "IDKFS_MAX_INODES \<equiv> 4096"
abbreviation (input) IDKFS_MAX_FILENAME :: nat where "IDKFS_MAX_FILENAME \<equiv> 255"
abbreviation (input) IDKFS_DIRECT_BLOCKS :: nat where "IDKFS_DIRECT_BLOCKS \<equiv> 12"
abbreviation (input) IDKFS_MAX_DIRENTS :: nat where "IDKFS_MAX_DIRENTS \<equiv> 128"
abbreviation (input) IDKFS_ROOT_INODE :: nat where "IDKFS_ROOT_INODE \<equiv> 0"
abbreviation (input) IDKFS_PTRS_PER_BLOCK :: nat where "IDKFS_PTRS_PER_BLOCK \<equiv> 1024"
abbreviation (input) BITMAP_SIZE :: nat where "BITMAP_SIZE \<equiv> 8192"

definition IDKFS_NULL_BLOCK :: u32 where
  "IDKFS_NULL_BLOCK = - 1"

definition sizeof_Inode :: nat where
  [layout_simps]: "sizeof_Inode = 136"

definition sizeof_Superblock :: nat where
  [layout_simps]: "sizeof_Superblock = 3980"

definition sizeof_DirEntry :: nat where
  [layout_simps]: "sizeof_DirEntry = 261"

definition sizeof_Directory :: nat where
  [layout_simps]: "sizeof_Directory = 4 + IDKFS_MAX_DIRENTS * sizeof_DirEntry"

text \<open>The enums, by their values.\<close>

datatype SpeedTier = TIER_FAST | TIER_NORMAL | TIER_SLOW

datatype FileType = IDKFS_FT_UNKNOWN | IDKFS_FT_FILE | IDKFS_FT_DIR | IDKFS_FT_SYMLINK | IDKFS_FT_DEVICE

fun tier_code :: "SpeedTier \<Rightarrow> u8" where
  "tier_code TIER_FAST = 0"
| "tier_code TIER_NORMAL = 1"
| "tier_code TIER_SLOW = 2"

fun ft_code :: "FileType \<Rightarrow> u8" where
  "ft_code IDKFS_FT_UNKNOWN = 0"
| "ft_code IDKFS_FT_FILE = 1"
| "ft_code IDKFS_FT_DIR = 2"
| "ft_code IDKFS_FT_SYMLINK = 3"
| "ft_code IDKFS_FT_DEVICE = 4"

section \<open>Structs\<close>

record FeatureFlags =
  journaling :: bool
  checksums :: bool
  timestamps :: bool
  compression :: bool
  encryption :: bool
  dedup :: bool
  prefetch :: bool
  lua_hooks :: bool
  sorting :: bool

definition features_default :: FeatureFlags where
  "features_default = \<lparr>journaling = True, checksums = True, timestamps = True, compression = False,
     encryption = False, dedup = False, prefetch = True, lua_hooks = True, sorting = True\<rparr>"

definition features_ludicrous_speed :: FeatureFlags where
  "features_ludicrous_speed = \<lparr>journaling = False, checksums = False, timestamps = False,
     compression = False, encryption = False, dedup = False, prefetch = False, lua_hooks = False,
     sorting = False\<rparr>"

record Superblock =
  sb_magic :: u32
  sb_version :: u32
  sb_block_size :: u32
  sb_total_blocks :: u32
  sb_free_blocks :: u32
  sb_total_inodes :: u32
  sb_free_inodes :: u32
  sb_inode_table_block :: u32
  sb_bitmap_block :: u32
  sb_data_start_block :: u32
  sb_root_inode :: u32
  sb_created_at :: u64
  sb_last_mounted :: u64
  sb_last_written :: u64
  sb_mount_count :: u32
  sb_flags :: u32
  sb_uuid :: mem
  sb_label :: mem
  sb_checksum :: u32
  sb_pad :: mem

record Inode =
  i_ino :: u32
  i_type :: u8
  i_tier :: u8
  i_mode :: u16
  i_uid :: u32
  i_gid :: u32
  i_size :: u64
  i_atime :: u64
  i_mtime :: u64
  i_ctime :: u64
  i_link_count :: u32
  i_block_count :: u32
  i_direct :: "nat \<Rightarrow> u32"
  i_indirect1 :: u32
  i_indirect2 :: u32
  i_flags :: u32
  i_checksum :: u32
  i_pad :: mem

record DirEntry =
  de_inode :: u32
  de_type :: u8
  de_name_len :: u8
  de_name :: mem

record Directory =
  dir_count :: u32
  dir_entries :: "nat \<Rightarrow> DirEntry"

record IDKFS =
  sb :: Superblock
  bitmap :: mem
  inodes :: "nat \<Rightarrow> Inode"
  block_csum :: "nat \<Rightarrow> u32"
  block_mirror :: "nat \<Rightarrow> u32"
  disk :: mem
  disk_size :: nat
  features :: FeatureFlags
  dirty :: bool
  redundancy_enabled :: bool

text \<open>What the environment supplies to an operation: the value of \<open>time(NULL)\<close> during it, and the
  indeterminate bytes an uninitialised stack buffer starts with.\<close>

record env =
  now :: u64
  stack_bytes :: mem

section \<open>Zeroed structs (\<open>memset\<close> and \<open>calloc\<close>)\<close>

definition zero_Superblock :: Superblock where
  "zero_Superblock = \<lparr>sb_magic = 0, sb_version = 0, sb_block_size = 0, sb_total_blocks = 0,
     sb_free_blocks = 0, sb_total_inodes = 0, sb_free_inodes = 0, sb_inode_table_block = 0,
     sb_bitmap_block = 0, sb_data_start_block = 0, sb_root_inode = 0, sb_created_at = 0,
     sb_last_mounted = 0, sb_last_written = 0, sb_mount_count = 0, sb_flags = 0, sb_uuid = zeros,
     sb_label = zeros, sb_checksum = 0, sb_pad = zeros\<rparr>"

definition zero_Inode :: Inode where
  "zero_Inode = \<lparr>i_ino = 0, i_type = 0, i_tier = 0, i_mode = 0, i_uid = 0, i_gid = 0, i_size = 0,
     i_atime = 0, i_mtime = 0, i_ctime = 0, i_link_count = 0, i_block_count = 0,
     i_direct = (\<lambda>_. 0), i_indirect1 = 0, i_indirect2 = 0, i_flags = 0, i_checksum = 0,
     i_pad = zeros\<rparr>"

definition zero_DirEntry :: DirEntry where
  "zero_DirEntry = \<lparr>de_inode = 0, de_type = 0, de_name_len = 0, de_name = zeros\<rparr>"

definition zero_Directory :: Directory where
  "zero_Directory = \<lparr>dir_count = 0, dir_entries = (\<lambda>_. zero_DirEntry)\<rparr>"

section \<open>Byte layout\<close>

text \<open>Offsets are those of the packed structs, field after field.\<close>

definition Inode_bytes :: "Inode \<Rightarrow> u8 list" where
  [enc_defs]: "Inode_bytes i =
     le32 (i_ino i) @ [i_type i, i_tier i] @ le16 (i_mode i) @ le32 (i_uid i) @ le32 (i_gid i) @
     le64 (i_size i) @ le64 (i_atime i) @ le64 (i_mtime i) @ le64 (i_ctime i) @
     le32 (i_link_count i) @ le32 (i_block_count i) @
     concat (map (\<lambda>j. le32 (i_direct i j)) [0..<IDKFS_DIRECT_BLOCKS]) @
     le32 (i_indirect1 i) @ le32 (i_indirect2 i) @ le32 (i_flags i) @ le32 (i_checksum i) @
     bytes_of (i_pad i) 0 16"

definition mem_Inode :: "mem \<Rightarrow> nat \<Rightarrow> Inode" where
  [enc_defs]: "mem_Inode m a = \<lparr>i_ino = rd32 m a, i_type = m (a + 4), i_tier = m (a + 5),
     i_mode = rd16 m (a + 6), i_uid = rd32 m (a + 8), i_gid = rd32 m (a + 12),
     i_size = rd64 m (a + 16), i_atime = rd64 m (a + 24), i_mtime = rd64 m (a + 32),
     i_ctime = rd64 m (a + 40), i_link_count = rd32 m (a + 48), i_block_count = rd32 m (a + 52),
     i_direct = (\<lambda>j. if j < 12 then rd32 m (a + 56 + 4 * j) else 0),
     i_indirect1 = rd32 m (a + 104), i_indirect2 = rd32 m (a + 108), i_flags = rd32 m (a + 112),
     i_checksum = rd32 m (a + 116), i_pad = trim 16 (\<lambda>j. m (a + 120 + j))\<rparr>"

definition Superblock_head :: "Superblock \<Rightarrow> u8 list" where
  [enc_defs]: "Superblock_head s =
     le32 (sb_magic s) @ le32 (sb_version s) @ le32 (sb_block_size s) @ le32 (sb_total_blocks s) @
     le32 (sb_free_blocks s) @ le32 (sb_total_inodes s) @ le32 (sb_free_inodes s) @
     le32 (sb_inode_table_block s) @ le32 (sb_bitmap_block s) @ le32 (sb_data_start_block s) @
     le32 (sb_root_inode s) @ le64 (sb_created_at s) @ le64 (sb_last_mounted s) @
     le64 (sb_last_written s) @ le32 (sb_mount_count s) @ le32 (sb_flags s) @
     bytes_of (sb_uuid s) 0 16 @ bytes_of (sb_label s) 0 64 @ le32 (sb_checksum s)"

definition Superblock_mem :: "Superblock \<Rightarrow> mem" where
  "Superblock_mem s = memcpy (mem_of (Superblock_head s)) 160 (sb_pad s) 0 3820"

definition mem_Superblock :: "mem \<Rightarrow> nat \<Rightarrow> Superblock" where
  [enc_defs]: "mem_Superblock m a = \<lparr>sb_magic = rd32 m a, sb_version = rd32 m (a + 4),
     sb_block_size = rd32 m (a + 8), sb_total_blocks = rd32 m (a + 12), sb_free_blocks = rd32 m (a + 16),
     sb_total_inodes = rd32 m (a + 20), sb_free_inodes = rd32 m (a + 24),
     sb_inode_table_block = rd32 m (a + 28), sb_bitmap_block = rd32 m (a + 32),
     sb_data_start_block = rd32 m (a + 36), sb_root_inode = rd32 m (a + 40),
     sb_created_at = rd64 m (a + 44), sb_last_mounted = rd64 m (a + 52), sb_last_written = rd64 m (a + 60),
     sb_mount_count = rd32 m (a + 68), sb_flags = rd32 m (a + 72),
     sb_uuid = trim 16 (\<lambda>j. m (a + 76 + j)), sb_label = trim 64 (\<lambda>j. m (a + 92 + j)),
     sb_checksum = rd32 m (a + 156), sb_pad = trim 3820 (\<lambda>j. m (a + 160 + j))\<rparr>"

definition DirEntry_mem :: "DirEntry \<Rightarrow> mem" where
  "DirEntry_mem e = memcpy (mem_of (le32 (de_inode e) @ [de_type e, de_name_len e])) 6 (de_name e) 0 255"

definition mem_DirEntry :: "mem \<Rightarrow> nat \<Rightarrow> DirEntry" where
  "mem_DirEntry m a = \<lparr>de_inode = rd32 m a, de_type = m (a + 4), de_name_len = m (a + 5),
     de_name = trim 255 (\<lambda>j. m (a + 6 + j))\<rparr>"

definition Directory_mem :: "Directory \<Rightarrow> mem" where
  "Directory_mem d = (\<lambda>i. if i < 4 then le32 (dir_count d) ! i
     else if i < sizeof_Directory
       then DirEntry_mem (dir_entries d ((i - 4) div sizeof_DirEntry)) ((i - 4) mod sizeof_DirEntry)
     else 0)"

definition mem_Directory :: "mem \<Rightarrow> Directory" where
  "mem_Directory m = \<lparr>dir_count = rd32 m 0,
     dir_entries = (\<lambda>k. if k < IDKFS_MAX_DIRENTS then mem_DirEntry m (4 + k * sizeof_DirEntry)
                         else zero_DirEntry)\<rparr>"

section \<open>Round trips of the structs\<close>

definition Inode_mem :: "Inode \<Rightarrow> mem" where
  "Inode_mem i = mem_of (Inode_bytes i)"

definition norm_Inode :: "Inode \<Rightarrow> Inode" where
  "norm_Inode i = i\<lparr>i_direct := (\<lambda>j. if j < 12 then i_direct i j else 0), i_pad := trim 16 (i_pad i)\<rparr>"

definition norm_Superblock :: "Superblock \<Rightarrow> Superblock" where
  "norm_Superblock s = s\<lparr>sb_uuid := trim 16 (sb_uuid s), sb_label := trim 64 (sb_label s),
     sb_pad := trim 3820 (sb_pad s)\<rparr>"

definition norm_DirEntry :: "DirEntry \<Rightarrow> DirEntry" where
  "norm_DirEntry e = e\<lparr>de_name := trim 255 (de_name e)\<rparr>"

definition norm_Directory :: "Directory \<Rightarrow> Directory" where
  "norm_Directory d = d\<lparr>dir_entries := (\<lambda>k. if k < IDKFS_MAX_DIRENTS then norm_DirEntry (dir_entries d k)
                                           else zero_DirEntry)\<rparr>"

lemma length_Inode_bytes [simp]: "length (Inode_bytes i) = sizeof_Inode"
  by (simp add: Inode_bytes_def layout_simps)

lemma length_Superblock_head [simp]: "length (Superblock_head s) = 160"
  by (simp add: Superblock_head_def)

lemma mem_Inode_bytes: "mem_Inode (mem_of (Inode_bytes i)) 0 = norm_Inode i"
proof -
  have "i_direct (mem_Inode (mem_of (Inode_bytes i)) 0) = i_direct (norm_Inode i)"
    by (rule ext) (simp add: mem_Inode_def norm_Inode_def Inode_bytes_def mem_simps rd32_array)
  moreover have "i_pad (mem_Inode (mem_of (Inode_bytes i)) 0) = i_pad (norm_Inode i)"
    by (rule ext) (simp add: mem_Inode_def norm_Inode_def Inode_bytes_def trim_def mem_of_append mem_of_Cons)
  ultimately show ?thesis
    by (simp add: mem_Inode_def norm_Inode_def Inode_bytes_def mem_simps mem_of_append mem_of_Cons)
qed

lemma mem_Inode_local:
  assumes "\<And>i. i < sizeof_Inode \<Longrightarrow> m (a + i) = m' (b + i)"
  shows "mem_Inode m a = mem_Inode m' b"
  using assms unfolding mem_Inode_def layout_simps Inode.ext_inject
  by (auto intro!: rd16_eq rd32_eq rd64_eq ext simp: add.assoc trim_def)

interpretation inode_codec: struct_codec sizeof_Inode Inode_mem mem_Inode norm_Inode
  by unfold_locales (erule mem_Inode_local, simp add: Inode_mem_def mem_Inode_bytes)

lemma mem_Superblock_mem: "mem_Superblock (Superblock_mem s) 0 = norm_Superblock s"
proof -
  have "sb_uuid (mem_Superblock (Superblock_mem s) 0) = sb_uuid (norm_Superblock s)"
    "sb_label (mem_Superblock (Superblock_mem s) 0) = sb_label (norm_Superblock s)"
    "sb_pad (mem_Superblock (Superblock_mem s) 0) = sb_pad (norm_Superblock s)"
    by (rule ext, simp add: mem_Superblock_def norm_Superblock_def Superblock_mem_def Superblock_head_def
        trim_def mem_of_append memcpy_def)+
  then show ?thesis
    by (simp add: mem_Superblock_def norm_Superblock_def Superblock_mem_def Superblock_head_def
        mem_simps rd_memcpy_before)
qed

lemma mem_Superblock_local:
  assumes "\<And>i. i < sizeof_Superblock \<Longrightarrow> m (a + i) = m' (b + i)"
  shows "mem_Superblock m a = mem_Superblock m' b"
  using assms unfolding mem_Superblock_def layout_simps Superblock.ext_inject
  by (auto intro!: rd32_eq rd64_eq ext simp: add.assoc trim_def)

interpretation sb_codec: struct_codec sizeof_Superblock Superblock_mem mem_Superblock norm_Superblock
  by unfold_locales (erule mem_Superblock_local, rule mem_Superblock_mem)

lemma mem_DirEntry_mem: "mem_DirEntry (DirEntry_mem e) 0 = norm_DirEntry e"
proof -
  have "de_name (mem_DirEntry (DirEntry_mem e) 0) = de_name (norm_DirEntry e)"
    by (rule ext) (simp add: mem_DirEntry_def norm_DirEntry_def DirEntry_mem_def trim_def memcpy_def)
  then show ?thesis
    by (simp add: mem_DirEntry_def norm_DirEntry_def DirEntry_mem_def rd_memcpy_before mem_simps
        mem_of_append mem_of_Cons)
qed

lemma mem_DirEntry_local:
  assumes "\<And>i. i < sizeof_DirEntry \<Longrightarrow> m (a + i) = m' (b + i)"
  shows "mem_DirEntry m a = mem_DirEntry m' b"
  using assms unfolding mem_DirEntry_def layout_simps DirEntry.ext_inject
  by (auto intro!: rd32_eq ext simp: add.assoc trim_def)

interpretation dirent_codec: struct_codec sizeof_DirEntry DirEntry_mem mem_DirEntry norm_DirEntry
  by unfold_locales (erule mem_DirEntry_local, rule mem_DirEntry_mem)

lemma mem_Directory_cong:
  assumes "\<And>i. i < sizeof_Directory \<Longrightarrow> m i = m' i"
  shows "mem_Directory m = mem_Directory m'"
proof -
  have "mem_DirEntry m (4 + k * sizeof_DirEntry) = mem_DirEntry m' (4 + k * sizeof_DirEntry)" if "k < 128" for k
    using that assms by (intro dirent_codec.dec_eq) (simp add: layout_simps)
  moreover have "rd32 m 0 = rd32 m' 0"
    using assms by (intro rd32_eq) (simp add: layout_simps)
  ultimately show ?thesis
    by (auto simp: mem_Directory_def)
qed

lemma mem_Directory_mem: "mem_Directory (Directory_mem d) = norm_Directory d"
proof -
  have ent: "mem_DirEntry (Directory_mem d) (4 + k * sizeof_DirEntry) = norm_DirEntry (dir_entries d k)"
    if "k < 128" for k
    using that by (intro dirent_codec.dec_stored) (simp add: Directory_mem_def layout_simps)
  moreover have "rd32 (Directory_mem d) 0 = dir_count d"
    by (rule rd32_le32) (simp_all add: Directory_mem_def numeral_2_eq_2)
  ultimately show ?thesis
    by (intro Directory.equality) (auto simp: mem_Directory_def norm_Directory_def)
qed

end
