(* ===== verification/Dir_Table.thy ===== *)
theory Dir_Table
  imports Core_Types
begin

text \<open>
  The \<open>Directory\<close> struct of \<^verbatim>\<open>idkfs_core.c\<close> as a table in memory: the three pieces of code that work on
  it inside \<open>idkfs_dir_add\<close>, \<open>idkfs_dir_lookup\<close> and \<open>idkfs_dir_remove\<close> (append an entry, find the
  first entry with a name, delete an entry), their abstraction to a list of named entries, and the
  interface \<open>directory_table\<close> that the file-level operations rely on.
\<close>

section \<open>Operations on the struct\<close>

definition dir_put :: "Directory \<Rightarrow> cstr \<Rightarrow> u32 \<times> u8 \<Rightarrow> Directory" where
  "dir_put d name v = (let n = unat (dir_count d) in
     \<lparr>dir_count = dir_count d + 1,
      dir_entries = (dir_entries d)(n :=
        \<lparr>de_inode = fst v, de_type = snd v, de_name_len = word_of_nat (length name),
         de_name = strncpy (de_name (dir_entries d n)) name IDKFS_MAX_FILENAME\<rparr>)\<rparr>)"

text \<open>The search loop shared by lookup and removal. The index runs to \<open>dir.count\<close>, which is read
  from the disk: an index past the array is an undefined access.\<close>

function dir_find :: "Directory \<Rightarrow> cstr \<Rightarrow> nat \<Rightarrow> nat option option" where
  "dir_find d name i =
     (if i < unat (dir_count d) then
        if i \<ge> IDKFS_MAX_DIRENTS then None
        else if strncmp_eq (de_name (dir_entries d i)) (mem_of name) 0 IDKFS_MAX_FILENAME then Some (Some i)
        else dir_find d name (i + 1)
      else Some None)"
  by pat_completeness auto
termination
  by (relation "measure (\<lambda>(d, name, i). IDKFS_MAX_DIRENTS - i)") auto

declare dir_find.simps [simp del]

definition dir_delete :: "Directory \<Rightarrow> nat \<Rightarrow> Directory" where
  "dir_delete d idx = (let n = unat (dir_count d);
       es = fold (\<lambda>i es. es(i := es (i + 1))) [idx..<n - 1] (dir_entries d)
     in \<lparr>dir_count = dir_count d - 1, dir_entries = es(n - 1 := zero_DirEntry)\<rparr>)"

section \<open>The list of entries\<close>

type_synonym entry = "cstr \<times> u32 \<times> u8"

definition dirent :: "DirEntry \<Rightarrow> entry" where
  "dirent en = (cstring (de_name en) IDKFS_MAX_FILENAME, de_inode en, de_type en)"

definition dir_ents :: "Directory \<Rightarrow> entry list" where
  "dir_ents d = map (\<lambda>i. dirent (dir_entries d i)) [0..<unat (dir_count d)]"

definition dir_fits :: "Directory \<Rightarrow> bool" where
  "dir_fits d \<longleftrightarrow> unat (dir_count d) \<le> IDKFS_MAX_DIRENTS"

text \<open>A name as it is stored: cut to the length of the \<open>name\<close> field.\<close>

definition stored_name :: "cstr \<Rightarrow> cstr" where
  "stored_name n = take IDKFS_MAX_FILENAME n"

primrec first_index :: "'k \<Rightarrow> ('k \<times> 'v) list \<Rightarrow> nat option" where
  "first_index n [] = None"
| "first_index n (x # xs) = (if fst x = n then Some 0 else map_option Suc (first_index n xs))"

definition drop_nth :: "nat \<Rightarrow> 'a list \<Rightarrow> 'a list" where
  "drop_nth i xs = take i xs @ drop (Suc i) xs"

lemma first_index_None: "first_index n xs = None \<longleftrightarrow> n \<notin> fst ` set xs"
  by (induction xs) auto

lemma first_index_Some: "first_index n xs = Some i \<Longrightarrow> i < length xs \<and> fst (xs ! i) = n \<and> map_of xs n = Some (snd (xs ! i))"
  by (induction xs arbitrary: i) (auto split: if_splits)

lemma map_of_first_index: "map_of xs n = map_option (\<lambda>i. snd (xs ! i)) (first_index n xs)"
  by (induction xs) (auto simp: option.map_comp comp_def)

lemma map_of_snoc: "map_of (xs @ [(n, v)]) = (if n \<in> fst ` set xs then map_of xs else (map_of xs)(n \<mapsto> v))"
  by (induction xs) (auto simp: fun_eq_iff)

lemma map_of_drop_first:
  "distinct (map fst xs) \<Longrightarrow> first_index n xs = Some i \<Longrightarrow> map_of (drop_nth i xs) = (map_of xs)(n := None)"
proof (induction xs arbitrary: i)
  case (Cons x xs)
  show ?case
  proof (cases "fst x = n")
    case True
    with Cons.prems have "i = 0" "map_of xs n = None"
      by (auto simp: map_of_eq_None_iff)
    with True show ?thesis by (auto simp: drop_nth_def fun_eq_iff)
  next
    case False
    with Cons.prems obtain j where "i = Suc j" "first_index n xs = Some j" by auto
    with False Cons show ?thesis by (auto simp: drop_nth_def fun_eq_iff)
  qed
qed simp

text \<open>The list without the first entry of a name.\<close>

definition remove_first :: "'k \<Rightarrow> ('k \<times> 'v) list \<Rightarrow> ('k \<times> 'v) list" where
  "remove_first n xs = (case first_index n xs of None \<Rightarrow> xs | Some i \<Rightarrow> drop_nth i xs)"

lemma map_of_remove_first:
  assumes "distinct (map fst xs)"
  shows "map_of (remove_first n xs) = (map_of xs)(n := None)"
proof (cases "first_index n xs")
  case None
  then have "map_of xs n = None" by (simp add: map_of_first_index)
  with None show ?thesis by (simp add: remove_first_def fun_upd_idem)
next
  case (Some i)
  with map_of_drop_first[OF assms Some] show ?thesis by (simp add: remove_first_def)
qed

section \<open>The interface\<close>

text \<open>A table of named entries in insertion order: \<open>put\<close> appends, \<open>search\<close> gives the position of the
  first entry of a name, \<open>delete\<close> removes a position.\<close>

locale directory_table =
  fixes fits :: "'d \<Rightarrow> bool"
    and ents :: "'d \<Rightarrow> (cstr \<times> 'v) list"
    and cap :: nat
    and key :: "cstr \<Rightarrow> cstr"
    and put :: "'d \<Rightarrow> cstr \<Rightarrow> 'v \<Rightarrow> 'd"
    and search :: "'d \<Rightarrow> cstr \<Rightarrow> nat option option"
    and delete :: "'d \<Rightarrow> nat \<Rightarrow> 'd"
  assumes put_ents: "fits d \<Longrightarrow> length (ents d) < cap \<Longrightarrow> nul_free n \<Longrightarrow>
      fits (put d n v) \<and> ents (put d n v) = ents d @ [(key n, v)]"
    and search_first: "fits d \<Longrightarrow> nul_free n \<Longrightarrow> search d n = Some (first_index (key n) (ents d))"
    and delete_ents: "fits d \<Longrightarrow> i < length (ents d) \<Longrightarrow>
      fits (delete d i) \<and> ents (delete d i) = drop_nth i (ents d)"
begin

lemma put_lookup:
  assumes "fits d" "length (ents d) < cap" "nul_free n"
  shows "map_of (ents (put d n v)) =
    (if key n \<in> fst ` set (ents d) then map_of (ents d) else (map_of (ents d))(key n \<mapsto> v))"
  using put_ents[OF assms, of v] by (simp add: map_of_snoc del: map_of_append)

lemma search_delete:
  assumes "fits d" "nul_free n" "search d n = Some (Some i)" "distinct (map fst (ents d))"
  shows "fits (delete d i)" "map_of (ents (delete d i)) = (map_of (ents d))(key n := None)"
proof -
  have f: "first_index (key n) (ents d) = Some i"
    using assms search_first by simp
  then have "i < length (ents d)" using first_index_Some by fast
  then show "fits (delete d i)" "map_of (ents (delete d i)) = (map_of (ents d))(key n := None)"
    using delete_ents[OF assms(1)] map_of_drop_first[OF assms(4) f] by simp_all
qed

end

section \<open>The struct implements the interface\<close>

lemma length_dir_ents [simp]: "length (dir_ents d) = unat (dir_count d)"
  by (simp add: dir_ents_def)

lemma dir_put_ents:
  assumes "dir_fits d" "length (dir_ents d) < IDKFS_MAX_DIRENTS" "nul_free n"
  shows "dir_fits (dir_put d n v) \<and> dir_ents (dir_put d n v) = dir_ents d @ [(stored_name n, v)]"
proof -
  have c: "unat (dir_count d + 1) = unat (dir_count d) + 1"
    using assms(2) by (simp add: unat_word_ariths)
  show ?thesis
    using assms by (simp add: dir_fits_def dir_put_def Let_def c dir_ents_def dirent_def cstring_strncpy stored_name_def)
qed

lemma name_matches: "nul_free n \<Longrightarrow>
    strncmp_eq (de_name en) (mem_of n) 0 IDKFS_MAX_FILENAME \<longleftrightarrow> fst (dirent en) = stored_name n"
  using cstring_mem_of[of n IDKFS_MAX_FILENAME]
  by (simp add: strncmp_eq_cstring dirent_def stored_name_def cstring_def)

lemma dir_find_from:
  assumes "dir_fits d" "nul_free n" "i \<le> unat (dir_count d)"
  shows "dir_find d n i = Some (map_option (\<lambda>j. i + j) (first_index (stored_name n) (drop i (dir_ents d))))"
  using assms
proof (induction d n i rule: dir_find.induct)
  case (1 d n i)
  show ?case
  proof (cases "i < unat (dir_count d)")
    case False
    then show ?thesis by (simp add: dir_find.simps[of d n i])
  next
    case True
    then have split: "drop i (dir_ents d) = dirent (dir_entries d i) # drop (i + 1) (dir_ents d)"
      by (simp add: dir_ents_def Cons_nth_drop_Suc[symmetric])
    have i: "\<not> i \<ge> IDKFS_MAX_DIRENTS" using True 1(2) by (simp add: dir_fits_def)
    show ?thesis
    proof (cases "fst (dirent (dir_entries d i)) = stored_name n")
      case hit: True
      with True i split name_matches[OF 1(3)] show ?thesis by (simp add: dir_find.simps[of d n i])
    next
      case miss: False
      then have nm: "\<not> strncmp_eq (de_name (dir_entries d i)) (mem_of n) 0 IDKFS_MAX_FILENAME"
        using name_matches[OF 1(3)] by simp
      have "dir_find d n i = dir_find d n (i + 1)"
        using True i nm by (subst dir_find.simps) simp
      with 1(1)[OF True i nm 1(2,3)] True split miss show ?thesis
        by (simp add: option.map_comp comp_def)
    qed
  qed
qed

lemma shift_entries:
  "fold (\<lambda>i es. es(i := es (i + 1))) [a..<a + n] es = (\<lambda>i. if a \<le> i \<and> i < a + n then es (i + 1) else es i)"
  by (induction n) (auto simp: fun_eq_iff)

lemma dir_delete_ents:
  assumes "dir_fits d" "i < length (dir_ents d)"
  shows "dir_fits (dir_delete d i) \<and> dir_ents (dir_delete d i) = drop_nth i (dir_ents d)"
proof -
  let ?n = "unat (dir_count d)"
  have c: "unat (dir_count d - 1) = ?n - 1"
    using assms(2) by (intro unat_minus_one) auto
  have e: "dir_entries (dir_delete d i) j = (if i \<le> j then dir_entries d (j + 1) else dir_entries d j)" if "j < ?n - 1" for j
    using that assms(2) shift_entries[of i "?n - 1 - i" "dir_entries d"]
    by (simp add: dir_delete_def Let_def)
  have "dir_ents (dir_delete d i) = drop_nth i (dir_ents d)"
  proof (rule nth_equalityI)
    show "length (dir_ents (dir_delete d i)) = length (drop_nth i (dir_ents d))"
      using assms(2) by (simp add: drop_nth_def c dir_delete_def Let_def)
    fix j assume "j < length (dir_ents (dir_delete d i))"
    then have "j < ?n - 1" by (simp add: c dir_delete_def Let_def)
    with assms(2) e[of j] show "dir_ents (dir_delete d i) ! j = drop_nth i (dir_ents d) ! j"
      by (simp add: dir_ents_def drop_nth_def nth_append c) (simp add: dir_delete_def Let_def c)
  qed
  with assms(1) show ?thesis by (simp add: dir_fits_def dir_delete_def Let_def c)
qed

interpretation dirtab: directory_table dir_fits dir_ents IDKFS_MAX_DIRENTS stored_name dir_put
  "\<lambda>d n. dir_find d n 0" dir_delete
  by unfold_locales (simp_all add: dir_put_ents dir_find_from dir_delete_ents option.map_comp comp_def option.map_ident)

lemma dir_ents_norm [simp]: "dir_fits d \<Longrightarrow> dir_ents (norm_Directory d) = dir_ents d"
proof -
  assume "dir_fits d"
  moreover have "dirent (norm_DirEntry en) = dirent en" for en
    by (simp add: dirent_def norm_DirEntry_def cong: cstring_cong)
  ultimately show ?thesis
    by (simp add: dir_ents_def norm_Directory_def dir_fits_def)
qed

lemma dir_fits_norm [simp]: "dir_fits (norm_Directory d) = dir_fits d"
  by (simp add: dir_fits_def norm_Directory_def)

text \<open>The \<open>name_len\<close> field of every entry is the length of the name. It is in entries made from names of at most
  255 bytes.\<close>

definition names_sized :: "Directory \<Rightarrow> bool" where
  "names_sized d \<longleftrightarrow> (\<forall>i < unat (dir_count d). let en = dir_entries d i in
     unat (de_name_len en) = length (cstring (de_name en) IDKFS_MAX_FILENAME))"

lemma names_sized_norm [simp]: "dir_fits d \<Longrightarrow> names_sized (norm_Directory d) = names_sized d"
proof -
  assume "dir_fits d"
  moreover have "cstring (de_name (norm_DirEntry en)) IDKFS_MAX_FILENAME = cstring (de_name en) IDKFS_MAX_FILENAME" for en
    by (simp add: norm_DirEntry_def cong: cstring_cong)
  moreover have "de_name_len (norm_DirEntry en) = de_name_len en" for en by (simp add: norm_DirEntry_def)
  ultimately show ?thesis by (simp add: names_sized_def norm_Directory_def dir_fits_def Let_def)
qed

lemma names_sized_put:
  assumes d: "names_sized d" "unat (dir_count d) < IDKFS_MAX_DIRENTS" and n: "nul_free n" "length n \<le> IDKFS_MAX_FILENAME"
  shows "names_sized (dir_put d n v)"
proof -
  let ?n = "unat (dir_count d)"
  have c: "unat (dir_count (dir_put d n v)) = Suc ?n"
    using d(2) by (simp add: dir_put_def Let_def unat_word_ariths)
  have "unat (word_of_nat (length n) :: u8) = length n" using n(2) by (simp add: unat_of_nat take_bit_nat_eq_self)
  then have "let en = dir_entries (dir_put d n v) ?n in unat (de_name_len en) = length (cstring (de_name en) IDKFS_MAX_FILENAME)"
    using n by (simp add: dir_put_def Let_def cstring_strncpy)
  moreover have "dir_entries (dir_put d n v) i = dir_entries d i" if "i < ?n" for i
    using that by (simp add: dir_put_def Let_def)
  ultimately show ?thesis using d(1) by (simp add: names_sized_def c less_Suc_eq all_conj_distrib Let_def)
qed

end
