(* ===== verification/Bitmap.thy ===== *)
theory Bitmap
  imports Core_Types
begin

text \<open>
  The block bitmap of \<^verbatim>\<open>idkfs_core.c\<close>: \<open>bitmap_set\<close>, \<open>bitmap_clear\<close>, \<open>bitmap_test\<close> and the
  first-fit search \<open>bitmap_alloc\<close>. A block number past the bitmap makes an access out of bounds
  (\<open>None\<close>). The lemmas give the bitmap as the set of its used blocks and \<open>bitmap_alloc\<close> as a
  block allocator in the sense of the locale \<open>block_allocator\<close>.
\<close>

section \<open>Operations\<close>

definition bitmap_set :: "mem \<Rightarrow> nat \<Rightarrow> mem option" where
  "bitmap_set bm b = (if b div 8 < BITMAP_SIZE
     then Some (bm(b div 8 := bm (b div 8) OR push_bit (b mod 8) 1)) else None)"

definition bitmap_clear :: "mem \<Rightarrow> nat \<Rightarrow> mem option" where
  "bitmap_clear bm b = (if b div 8 < BITMAP_SIZE
     then Some (bm(b div 8 := bm (b div 8) AND NOT (push_bit (b mod 8) 1))) else None)"

definition bitmap_test :: "mem \<Rightarrow> nat \<Rightarrow> bool option" where
  "bitmap_test bm b = (if b div 8 < BITMAP_SIZE
     then Some (drop_bit (b mod 8) (bm (b div 8)) AND 1 \<noteq> 0) else None)"

text \<open>One of the two search loops: the first clear bit of \<open>i, i + 1, \<dots>, e - 1\<close> is set and
  returned.\<close>

function bitmap_scan :: "mem \<Rightarrow> nat \<Rightarrow> nat \<Rightarrow> (mem \<times> nat) option option" where
  "bitmap_scan bm i e =
     (if i < e then do {
        used \<leftarrow> bitmap_test bm i;
        if \<not> used then do { bm' \<leftarrow> bitmap_set bm i; Some (Some (bm', i)) }
        else bitmap_scan bm (Suc i) e
      } else Some None)"
  by pat_completeness auto
termination
  by (relation "measure (\<lambda>(bm, i, e). e - i)") auto

declare bitmap_scan.simps [simp del]

definition bitmap_alloc :: "mem \<Rightarrow> nat \<Rightarrow> (mem \<times> int) option" where
  "bitmap_alloc bm hint = do {
     r \<leftarrow> bitmap_scan bm hint IDKFS_TOTAL_BLOCKS;
     case r of
       Some (bm', i) \<Rightarrow> Some (bm', int i)
     | None \<Rightarrow> do {
         r' \<leftarrow> bitmap_scan bm 0 hint;
         case r' of
           Some (bm', i) \<Rightarrow> Some (bm', int i)
         | None \<Rightarrow> Some (bm, - 1) } }"

section \<open>The bitmap as a set of used blocks\<close>

definition used :: "mem \<Rightarrow> nat \<Rightarrow> bool" where
  "used bm b \<longleftrightarrow> bit (bm (b div 8)) (b mod 8)"

definition free_set :: "mem \<Rightarrow> nat set" where
  "free_set bm = {b. b < IDKFS_TOTAL_BLOCKS \<and> \<not> used bm b}"

lemma finite_free_set [simp, intro]: "finite (free_set bm)"
  by (simp add: free_set_def)

lemma bitmap_test_used: "b < IDKFS_TOTAL_BLOCKS \<Longrightarrow> bitmap_test bm b = Some (used bm b)"
  by (simp add: bitmap_test_def used_def and_one_eq bit_iff_odd_drop_bit odd_iff_mod_2_eq_one)

lemma bitmap_set_Some: "b < IDKFS_TOTAL_BLOCKS \<Longrightarrow> \<exists>bm'. bitmap_set bm b = Some bm'"
  by (simp add: bitmap_set_def)

lemma bitmap_clear_Some: "b < IDKFS_TOTAL_BLOCKS \<Longrightarrow> \<exists>bm'. bitmap_clear bm b = Some bm'"
  by (simp add: bitmap_clear_def)

lemma same_byte_bit: "x div 8 = y div 8 \<Longrightarrow> (x mod 8 = y mod 8) = (x = (y :: nat))"
  by (metis div_mult_mod_eq)

lemma bitmap_set_used: "bitmap_set bm b = Some bm' \<Longrightarrow> used bm' x = (x = b \<or> used bm x)"
  by (auto simp: bitmap_set_def used_def bit_or_iff bit_push_bit_iff bit_1_iff bit_exp_iff same_byte_bit
      split: if_splits)

lemma bitmap_clear_used: "bitmap_clear bm b = Some bm' \<Longrightarrow> used bm' x = (x \<noteq> b \<and> used bm x)"
  by (auto simp: bitmap_clear_def used_def bit_and_iff bit_not_iff bit_push_bit_iff bit_1_iff bit_exp_iff same_byte_bit
      split: if_splits dest: bit_imp_le_length)

section \<open>Allocation\<close>

text \<open>What a user of a block allocator relies on: it answers on every state, a block it hands out
  was free and is the only one that changes state, and it refuses only when nothing is free.\<close>

locale block_allocator =
  fixes alloc :: "'s \<Rightarrow> 'h \<Rightarrow> ('s \<times> int) option"
    and free :: "'s \<Rightarrow> nat set"
    and ok_hint :: "'h \<Rightarrow> bool"
  assumes alloc_total: "ok_hint h \<Longrightarrow> \<exists>s' r. alloc s h = Some (s', r)"
    and alloc_fail: "ok_hint h \<Longrightarrow> alloc s h = Some (s', r) \<Longrightarrow> r < 0 \<Longrightarrow> free s = {} \<and> s' = s"
    and alloc_ok: "ok_hint h \<Longrightarrow> alloc s h = Some (s', r) \<Longrightarrow> 0 \<le> r \<Longrightarrow>
        nat r \<in> free s \<and> free s' = free s - {nat r}"
begin

lemma alloc_cases:
  assumes "ok_hint h"
  obtains (full) s' r where "alloc s h = Some (s', r)" "r < 0" "free s = {}" "s' = s"
    | (got) s' r where "alloc s h = Some (s', r)" "0 \<le> r" "nat r \<in> free s" "free s' = free s - {nat r}"
proof -
  obtain s' r where a: "alloc s h = Some (s', r)"
    using alloc_total[OF assms, of s] by (elim exE)
  show thesis
  proof (cases "r < 0")
    case True
    with alloc_fail[OF assms a True] show thesis by (intro full[OF a]) simp_all
  next
    case False
    then have "0 \<le> r" by simp
    with alloc_ok[OF assms a this] show thesis by (intro got[OF a]) simp_all
  qed
qed

lemma alloc_succeeds:
  "ok_hint h \<Longrightarrow> free s \<noteq> {} \<Longrightarrow>
    \<exists>s' r. alloc s h = Some (s', r) \<and> 0 \<le> r \<and> nat r \<in> free s \<and> free s' = free s - {nat r}"
  by (erule alloc_cases[of h s]) blast+

lemma alloc_twice_distinct:
  assumes "ok_hint h" "ok_hint h'"
    and "alloc s h = Some (s', r)" "0 \<le> r" "alloc s' h' = Some (s'', r')" "0 \<le> r'"
  shows "r \<noteq> r'"
  using alloc_ok[OF assms(1,3,4)] alloc_ok[OF assms(2,5,6)] by auto

lemma alloc_card:
  assumes "ok_hint h" "alloc s h = Some (s', r)" "0 \<le> r" "finite (free s)"
  shows "card (free s) = Suc (card (free s'))"
  using alloc_ok[OF assms(1-3)] card.remove[OF assms(4), of "nat r"] by simp

end

lemma bitmap_scan_spec:
  "e \<le> IDKFS_TOTAL_BLOCKS \<Longrightarrow>
   (case bitmap_scan bm i e of
      Some (Some (bm', b)) \<Rightarrow> i \<le> b \<and> b < e \<and> \<not> used bm b \<and> (\<forall>j. i \<le> j \<longrightarrow> j < b \<longrightarrow> used bm j)
          \<and> bitmap_set bm b = Some bm'
    | Some None \<Rightarrow> (\<forall>j. i \<le> j \<longrightarrow> j < e \<longrightarrow> used bm j)
    | None \<Rightarrow> False)"
proof (induction bm i e rule: bitmap_scan.induct)
  case (1 bm i e)
  consider "e \<le> i" | "i < e" "\<not> used bm i" | "i < e" "used bm i" by linarith
  then show ?case
  proof cases
    case 1
    then show ?thesis by (simp add: bitmap_scan.simps[of bm i e])
  next
    case 2
    with "1.prems" bitmap_set_Some[of i bm] show ?thesis
      by (auto simp: bitmap_scan.simps[of bm i e] bitmap_test_used)
  next
    case 3
    have step: "bitmap_scan bm i e = bitmap_scan bm (Suc i) e"
      using 3 "1.prems" by (simp add: bitmap_scan.simps[of bm i e] bitmap_test_used)
    have "used bm j" if "\<forall>k. Suc i \<le> k \<longrightarrow> k < n \<longrightarrow> used bm k" "i \<le> j" "j < n" for j n
      using that 3 by (cases "j = i") auto
    with 3 "1.prems" "1.IH"[of True] show ?thesis
      unfolding step by (auto simp: bitmap_test_used split: option.splits prod.splits)
  qed
qed

lemma bitmap_alloc_spec:
  assumes "hint \<le> IDKFS_TOTAL_BLOCKS"
  obtains (full) "bitmap_alloc bm hint = Some (bm, - 1)" "\<forall>b < IDKFS_TOTAL_BLOCKS. used bm b"
    | (got) bm' b where "bitmap_alloc bm hint = Some (bm', int b)" "b < IDKFS_TOTAL_BLOCKS" "\<not> used bm b"
        "bitmap_set bm b = Some bm'"
        "if hint \<le> b then \<forall>j. hint \<le> j \<longrightarrow> j < b \<longrightarrow> used bm j
         else (\<forall>j. hint \<le> j \<longrightarrow> j < IDKFS_TOTAL_BLOCKS \<longrightarrow> used bm j) \<and> (\<forall>j < b. used bm j)"
proof -
  note s1 = bitmap_scan_spec[where e = IDKFS_TOTAL_BLOCKS and bm = bm and i = hint, simplified]
    and s2 = bitmap_scan_spec[OF assms, where bm = bm and i = 0]
  consider (hi) bm' b where "bitmap_scan bm hint IDKFS_TOTAL_BLOCKS = Some (Some (bm', b))"
    | (lo) bm' b where "bitmap_scan bm hint IDKFS_TOTAL_BLOCKS = Some None" "bitmap_scan bm 0 hint = Some (Some (bm', b))"
    | (no) "bitmap_scan bm hint IDKFS_TOTAL_BLOCKS = Some None" "bitmap_scan bm 0 hint = Some None"
    using s1 s2 by (auto split: option.splits)
  then show thesis
  proof cases
    case hi
    with s1 show thesis by (intro got[of bm' b]) (simp_all add: bitmap_alloc_def)
  next
    case lo
    with s1 s2 assms show thesis by (intro got[of bm' b]) (simp_all add: bitmap_alloc_def)
  next
    case no
    have "used bm b" if "b < IDKFS_TOTAL_BLOCKS" for b
      using no s1 s2 that by (cases "hint \<le> b") simp_all
    with no show thesis by (intro full) (simp_all add: bitmap_alloc_def)
  qed
qed

interpretation bitmap: block_allocator bitmap_alloc free_set "\<lambda>h. h \<le> IDKFS_TOTAL_BLOCKS"
proof unfold_locales
  fix h :: nat and bm assume h: "h \<le> 65536"
  show "\<exists>s' r. bitmap_alloc bm h = Some (s', r)"
    by (rule bitmap_alloc_spec[OF h, of bm]) blast+
  fix bm' r assume a: "bitmap_alloc bm h = Some (bm', r)"
  show "free_set bm = {} \<and> bm' = bm" if "r < 0"
    by (rule bitmap_alloc_spec[OF h, of bm]) (use a that in \<open>auto simp: free_set_def\<close>)
  show "nat r \<in> free_set bm \<and> free_set bm' = free_set bm - {nat r}" if "0 \<le> r"
    by (rule bitmap_alloc_spec[OF h, of bm]) (use a that in \<open>auto simp: free_set_def bitmap_set_used\<close>)
qed

text \<open>C26: \<open>bitmap_alloc\<close> is cyclic first fit: for a hint inside the disk it always answers; it returns
  -1, with the bitmap unchanged, exactly when every block is used; otherwise it returns the first
  free block at or after the hint, or, if there is none, the first free block before the hint, and
  the only bit that changes is that block's.\<close>

theorem bitmap_alloc_first_fit:
  assumes "hint \<le> IDKFS_TOTAL_BLOCKS"
  shows "\<exists>bm' r. bitmap_alloc bm hint = Some (bm', r) \<and>
    (if free_set bm = {} then r = - 1 \<and> bm' = bm
     else let b = nat r; later = {x \<in> free_set bm. hint \<le> x} in
       r = int b \<and> b = Min (if later = {} then free_set bm else later) \<and>
       (\<forall>x. used bm' x \<longleftrightarrow> x = b \<or> used bm x))"
proof (rule bitmap_alloc_spec[OF assms, of bm])
  assume "bitmap_alloc bm hint = Some (bm, - 1)" "\<forall>b < IDKFS_TOTAL_BLOCKS. used bm b"
  then show ?thesis by (simp add: free_set_def)
next
  fix bm' b
  assume a: "bitmap_alloc bm hint = Some (bm', int b)" and b: "b < IDKFS_TOTAL_BLOCKS" "\<not> used bm b"
    and s: "bitmap_set bm b = Some bm'"
    and f: "if hint \<le> b then \<forall>j. hint \<le> j \<longrightarrow> j < b \<longrightarrow> used bm j
         else (\<forall>j. hint \<le> j \<longrightarrow> j < IDKFS_TOTAL_BLOCKS \<longrightarrow> used bm j) \<and> (\<forall>j < b. used bm j)"
  let ?later = "{x \<in> free_set bm. hint \<le> x}"
  have mem: "b \<in> free_set bm" using b by (simp add: free_set_def)
  have "b = Min (if ?later = {} then free_set bm else ?later)"
  proof (cases "hint \<le> b")
    case True
    with mem f have "b \<in> ?later" "\<forall>x \<in> ?later. b \<le> x"
      by (auto simp: free_set_def not_less[symmetric])
    then have "?later \<noteq> {}" "Min ?later = b" by (auto intro: Min_eqI)
    then show ?thesis by (simp only: if_False)
  next
    case False
    with f have "?later = {}" by (auto simp: free_set_def)
    moreover have "\<forall>x \<in> free_set bm. b \<le> x"
      using False f by (auto simp: free_set_def not_less[symmetric])
    with mem have "Min (free_set bm) = b" by (auto intro: Min_eqI)
    ultimately show ?thesis by simp
  qed
  with a mem show ?thesis by (auto simp: Let_def bitmap_set_used[OF s])
qed

theorem bitmap_alloc_first_fit_witness:
  "\<exists>bm' r. bitmap_alloc zeros 138 = Some (bm', r) \<and>
    (if free_set zeros = {} then r = - 1 \<and> bm' = zeros
     else let b = nat r; later = {x \<in> free_set zeros. 138 \<le> x} in
       r = int b \<and> b = Min (if later = {} then free_set zeros else later) \<and>
       (\<forall>x. used bm' x \<longleftrightarrow> x = b \<or> used zeros x))"
  by (rule bitmap_alloc_first_fit) simp

end
