(* ===== verification/Core_Io.thy ===== *)
theory Core_Io
  imports Bitmap
begin

text \<open>
  Inode table, block access and file I/O of \<^verbatim>\<open>idkfs_core.c\<close>: \<open>inode_alloc\<close>, \<open>inode_free\<close>,
  \<open>block_read\<close>, \<open>block_write\<close>, \<open>block_zero\<close>, \<open>inode_get_block\<close>, \<open>inode_map_block\<close>, \<open>idkfs_read\<close>
  and \<open>idkfs_write\<close>. A C pointer \<open>&fs->inodes[k]\<close> is the index \<open>k\<close>, so that the callee's updates
  are updates of the table. The lengths passed to the two loops are lengths of C objects, which are below \<open>2 ^ 63\<close>, so that the
  cast of the byte count to \<open>ssize_t\<close> keeps its value. \<^verbatim>\<open>Core_Inv\<close>, \<^verbatim>\<open>Core_Write\<close> and \<^verbatim>\<open>Core_File\<close>
  prove the definitions correct.
\<close>

section \<open>Inode table\<close>

definition inode_at :: "IDKFS \<Rightarrow> nat \<Rightarrow> Inode option" where
  "inode_at fs k = (if k < IDKFS_MAX_INODES then Some (inodes fs k) else None)"

definition upd_inode :: "IDKFS \<Rightarrow> nat \<Rightarrow> (Inode \<Rightarrow> Inode) \<Rightarrow> IDKFS" where
  "upd_inode fs k f = fs\<lparr>inodes := (inodes fs)(k := f (inodes fs k))\<rparr>"

definition fresh_Inode :: "nat \<Rightarrow> Inode" where
  "fresh_Inode i = zero_Inode\<lparr>i_ino := word_of_nat i,
     i_direct := (\<lambda>j. if j < IDKFS_DIRECT_BLOCKS then IDKFS_NULL_BLOCK else 0),
     i_indirect1 := IDKFS_NULL_BLOCK, i_indirect2 := IDKFS_NULL_BLOCK\<rparr>"

definition inode_alloc :: "IDKFS \<Rightarrow> IDKFS \<times> int" where
  "inode_alloc fs =
     (case find (\<lambda>i. i_link_count (inodes fs i) = 0) [1..<IDKFS_MAX_INODES] of
        Some i \<Rightarrow> ((upd_inode fs i (\<lambda>_. fresh_Inode i))
                     \<lparr>sb := (sb fs)\<lparr>sb_free_inodes := sb_free_inodes (sb fs) - 1\<rparr>\<rparr>, int i)
      | None \<Rightarrow> (fs, - 1))"

definition inode_free :: "IDKFS \<Rightarrow> nat \<Rightarrow> IDKFS option" where
  "inode_free fs ino = (if ino < IDKFS_MAX_INODES
     then Some ((upd_inode fs ino (\<lambda>_. zero_Inode))
                  \<lparr>sb := (sb fs)\<lparr>sb_free_inodes := sb_free_inodes (sb fs) + 1\<rparr>\<rparr>)
     else None)"

section \<open>Blocks\<close>

definition block_ptr :: "nat \<Rightarrow> nat" where
  "block_ptr b = b * IDKFS_BLOCK_SIZE"

definition block_ok :: "IDKFS \<Rightarrow> nat \<Rightarrow> bool" where
  "block_ok fs b \<longleftrightarrow> block_ptr b + IDKFS_BLOCK_SIZE \<le> disk_size fs"

definition block_read :: "IDKFS \<Rightarrow> nat \<Rightarrow> mem option" where
  "block_read fs b = (if block_ok fs b
     then Some (memcpy zeros 0 (disk fs) (block_ptr b) IDKFS_BLOCK_SIZE) else None)"

definition block_write :: "IDKFS \<Rightarrow> nat \<Rightarrow> mem \<Rightarrow> IDKFS option" where
  "block_write fs b buf = (if block_ok fs b
     then Some (fs\<lparr>disk := memcpy (disk fs) (block_ptr b) buf 0 IDKFS_BLOCK_SIZE, dirty := True\<rparr>)
     else None)"

definition block_zero :: "IDKFS \<Rightarrow> nat \<Rightarrow> IDKFS option" where
  "block_zero fs b = (if block_ok fs b
     then Some (fs\<lparr>disk := memset (disk fs) (block_ptr b) 0 IDKFS_BLOCK_SIZE\<rparr>) else None)"

section \<open>Block mapping\<close>

definition inode_get_block :: "IDKFS \<Rightarrow> nat \<Rightarrow> nat \<Rightarrow> u32 option" where
  "inode_get_block fs k logical = do {
     ino \<leftarrow> inode_at fs k;
     if logical < IDKFS_DIRECT_BLOCKS then Some (i_direct ino logical)
     else let idx = logical - IDKFS_DIRECT_BLOCKS in
       if idx < IDKFS_PTRS_PER_BLOCK then
         (if i_indirect1 ino = IDKFS_NULL_BLOCK then Some IDKFS_NULL_BLOCK
          else do { ptrs \<leftarrow> block_read fs (unat (i_indirect1 ino)); Some (rd32 ptrs (4 * idx)) })
       else Some IDKFS_NULL_BLOCK }"

definition dec_free_blocks :: "IDKFS \<Rightarrow> IDKFS" where
  "dec_free_blocks fs = fs\<lparr>sb := (sb fs)\<lparr>sb_free_blocks := sb_free_blocks (sb fs) - 1\<rparr>\<rparr>"

text \<open>The allocation \<open>inode_map_block\<close> makes once for the data block and once more for a missing
  indirect block: a free block found from the start of the data area, zeroed and counted.\<close>

definition alloc_zeroed :: "IDKFS \<Rightarrow> (IDKFS \<times> int) option" where
  "alloc_zeroed fs = do {
     (bm, nb) \<leftarrow> bitmap_alloc (bitmap fs) (unat (sb_data_start_block (sb fs)));
     let fs = fs\<lparr>bitmap := bm\<rparr>;
     if nb < 0 then Some (fs, - 1)
     else do {
       fs \<leftarrow> block_zero fs (nat nb);
       Some (dec_free_blocks fs, nb) } }"

definition inode_map_block :: "IDKFS \<Rightarrow> nat \<Rightarrow> nat \<Rightarrow> (IDKFS \<times> int) option" where
  "inode_map_block fs k logical = do {
     (fs, nb) \<leftarrow> alloc_zeroed fs;
     if nb < 0 then Some (fs, - 1)
     else do {
       ino \<leftarrow> inode_at fs k;
       if logical < IDKFS_DIRECT_BLOCKS then
         Some (upd_inode fs k (\<lambda>i. i\<lparr>i_direct := (i_direct i)(logical := word_of_int nb)\<rparr>), nb)
       else let idx = logical - IDKFS_DIRECT_BLOCKS in
         if idx < IDKFS_PTRS_PER_BLOCK then do {
           (fs, ib) \<leftarrow>
             (if i_indirect1 ino = IDKFS_NULL_BLOCK then do {
                (fs, ib) \<leftarrow> alloc_zeroed fs;
                if ib < 0 then Some (fs, ib)
                else Some (upd_inode fs k (\<lambda>i. i\<lparr>i_indirect1 := word_of_int ib\<rparr>), ib)
              } else Some (fs, 0));
           if ib < 0 then Some (fs, - 1)
           else do {
             let ind = unat (i_indirect1 (inodes fs k));
             ptrs \<leftarrow> block_read fs ind;
             fs \<leftarrow> block_write fs ind (wr32 ptrs (4 * idx) (word_of_int nb));
             Some (fs, nb) } }
         else Some (fs, - 1) } }"

section \<open>Reading and writing files\<close>

text \<open>Position arithmetic of the two loops: \<open>offset + total\<close> in 64 bits, the block index cut to
  32 bits, and the bytes of this block still to be copied.\<close>

definition io_pos :: "nat \<Rightarrow> nat \<Rightarrow> nat" where
  "io_pos off tot = (off + tot) mod 2 ^ 64"

definition io_logical :: "nat \<Rightarrow> nat \<Rightarrow> nat" where
  "io_logical off tot = (io_pos off tot div IDKFS_BLOCK_SIZE) mod 2 ^ 32"

definition io_blk_off :: "nat \<Rightarrow> nat \<Rightarrow> nat" where
  "io_blk_off off tot = io_pos off tot mod IDKFS_BLOCK_SIZE"

definition io_can :: "nat \<Rightarrow> nat \<Rightarrow> nat \<Rightarrow> nat" where
  "io_can off count tot = min (IDKFS_BLOCK_SIZE - io_blk_off off tot) (count - tot)"

lemma io_can_pos: "tot < count \<Longrightarrow> 0 < io_can off count tot"
  by (simp add: io_can_def io_blk_off_def)

lemma io_progress: "tot < count \<Longrightarrow> count - (tot + io_can off count tot) < count - tot"
  using io_can_pos[of tot count off] by linarith

function read_loop :: "IDKFS \<Rightarrow> nat \<Rightarrow> nat \<Rightarrow> nat \<Rightarrow> nat \<Rightarrow> mem \<Rightarrow> (nat \<times> mem) option" where
  "read_loop fs k off count tot out =
     (if tot < count then do {
        db \<leftarrow> inode_get_block fs k (io_logical off tot);
        if db = IDKFS_NULL_BLOCK then Some (tot, out)
        else do {
          tmp \<leftarrow> block_read fs (unat db);
          read_loop fs k off count (tot + io_can off count tot)
            (memcpy out tot tmp (io_blk_off off tot) (io_can off count tot)) }
      } else Some (tot, out))"
  by pat_completeness auto
termination
  by (relation "measure (\<lambda>(fs, k, off, count, tot, out). count - tot)")
    (auto intro: io_progress)

declare read_loop.simps [simp del]

definition idkfs_read :: "env \<Rightarrow> IDKFS \<Rightarrow> nat \<Rightarrow> mem \<Rightarrow> u64 \<Rightarrow> u64 \<Rightarrow> (IDKFS \<times> mem \<times> int) option" where
  "idkfs_read e fs k buf count offset = do {
     ino \<leftarrow> inode_at fs k;
     if offset \<ge> i_size ino then Some (fs, buf, 0)
     else do {
       let count = (if offset + count > i_size ino then i_size ino - offset else count);
       (tot, out) \<leftarrow> read_loop fs k (unat offset) (unat count) 0 buf;
       let fs = (if timestamps (features fs) then upd_inode fs k (\<lambda>i. i\<lparr>i_atime := now e\<rparr>) else fs);
       Some (fs, out, int tot) } }"

text \<open>One iteration of the write loop: the block is looked up, mapped if it is missing (the early
  \<open>return -1\<close> is \<open>False\<close>), and its bytes replaced.\<close>

definition write_target :: "IDKFS \<Rightarrow> nat \<Rightarrow> nat \<Rightarrow> (IDKFS \<times> nat option) option" where
  "write_target fs k logical = do {
     db \<leftarrow> inode_get_block fs k logical;
     if db = IDKFS_NULL_BLOCK then do {
       (fs, nb) \<leftarrow> inode_map_block fs k logical;
       if nb < 0 then Some (fs, None)
       else Some (upd_inode fs k (\<lambda>i. i\<lparr>i_block_count := i_block_count i + 1\<rparr>), Some (nat nb)) }
     else Some (fs, Some (unat db)) }"

definition write_step :: "IDKFS \<Rightarrow> nat \<Rightarrow> mem \<Rightarrow> nat \<Rightarrow> nat \<Rightarrow> nat \<Rightarrow> (IDKFS \<times> bool) option" where
  "write_step fs k src off count tot = do {
     (fs, target) \<leftarrow> write_target fs k (io_logical off tot);
     case target of
       None \<Rightarrow> Some (fs, False)
     | Some db \<Rightarrow> do {
         tmp \<leftarrow> block_read fs db;
         fs \<leftarrow> block_write fs db (memcpy tmp (io_blk_off off tot) src tot (io_can off count tot));
         Some (fs, True) } }"

function write_loop :: "IDKFS \<Rightarrow> nat \<Rightarrow> mem \<Rightarrow> nat \<Rightarrow> nat \<Rightarrow> nat \<Rightarrow> (IDKFS \<times> nat option) option" where
  "write_loop fs k src off count tot =
     (if tot < count then do {
        (fs', ok) \<leftarrow> write_step fs k src off count tot;
        if ok then write_loop fs' k src off count (tot + io_can off count tot)
        else Some (fs', None)
      } else Some (fs, Some tot))"
  by pat_completeness auto
termination
  by (relation "measure (\<lambda>(fs, k, src, off, count, tot). count - tot)")
    (auto intro: io_progress)

declare write_loop.simps [simp del]

definition inode_crc :: "Inode \<Rightarrow> u32" where
  "inode_crc i = crc32 (take (sizeof_Inode - 4) (Inode_bytes i))"

text \<open>The end of \<open>idkfs_write\<close>: size, time stamps and checksum of the inode.\<close>

definition write_finish :: "env \<Rightarrow> IDKFS \<Rightarrow> nat \<Rightarrow> u64 \<Rightarrow> IDKFS" where
  "write_finish e fs k stop =
     (let fs1 = (if stop > i_size (inodes fs k) then upd_inode fs k (\<lambda>i. i\<lparr>i_size := stop\<rparr>) else fs);
          fs2 = (if timestamps (features fs1)
                 then upd_inode fs1 k (\<lambda>i. i\<lparr>i_mtime := now e, i_ctime := now e\<rparr>) else fs1);
          fs3 = (if checksums (features fs2)
                 then upd_inode fs2 k (\<lambda>i. i\<lparr>i_checksum := inode_crc i\<rparr>) else fs2)
      in fs3\<lparr>dirty := True\<rparr>)"

definition idkfs_write :: "env \<Rightarrow> IDKFS \<Rightarrow> nat \<Rightarrow> mem \<Rightarrow> u64 \<Rightarrow> u64 \<Rightarrow> (IDKFS \<times> int) option" where
  "idkfs_write e fs k buf count offset = do {
     _ \<leftarrow> inode_at fs k;
     (fs, written) \<leftarrow> write_loop fs k buf (unat offset) (unat count) 0;
     case written of
       None \<Rightarrow> Some (fs, - 1)
     | Some tot \<Rightarrow> Some (write_finish e fs k (offset + count), int tot) }"

end
