(* ===== verification/Core_Ops.thy ===== *)
theory Core_Ops
  imports Dir_Table Core_Io
begin

text \<open>
  Directories, creation, flushing and formatting in \<^verbatim>\<open>idkfs_core.c\<close>: \<open>idkfs_dir_add\<close>,
  \<open>idkfs_dir_lookup\<close>, \<open>idkfs_dir_remove\<close>, \<open>idkfs_create\<close>, \<open>idkfs_mkdir\<close>, \<open>idkfs_flush\<close>,
  \<open>idkfs_destroy\<close> and \<open>idkfs_mkfs\<close>. A directory is the contents of its inode; the operations load
  the whole \<open>Directory\<close> struct into a stack variable (whose bytes are indeterminate before the read)
  and write it back. As in the code, the results of the inner reads and writes are dropped.
\<close>

abbreviation (input) ENOENT :: int where "ENOENT \<equiv> 2"
abbreviation (input) ENOTDIR :: int where "ENOTDIR \<equiv> 20"

section \<open>Directories\<close>

definition dir_read :: "env \<Rightarrow> IDKFS \<Rightarrow> nat \<Rightarrow> (IDKFS \<times> Directory) option" where
  "dir_read e fs k = do {
     (fs, buf, _) \<leftarrow> idkfs_read e fs k (stack_bytes e) (word_of_nat sizeof_Directory) 0;
     Some (fs, mem_Directory buf) }"

definition dir_write :: "env \<Rightarrow> IDKFS \<Rightarrow> nat \<Rightarrow> Directory \<Rightarrow> IDKFS option" where
  "dir_write e fs k dir = do {
     (fs, _) \<leftarrow> idkfs_write e fs k (Directory_mem dir) (word_of_nat sizeof_Directory) 0;
     Some fs }"

definition idkfs_dir_add :: "env \<Rightarrow> IDKFS \<Rightarrow> nat \<Rightarrow> cstr \<Rightarrow> u32 \<Rightarrow> FileType \<Rightarrow> (IDKFS \<times> int) option" where
  "idkfs_dir_add e fs k name ino type = do {
     dir_ino \<leftarrow> inode_at fs k;
     (fs, dir) \<leftarrow> (if i_size dir_ino = 0 then Some (fs, zero_Directory) else dir_read e fs k);
     if unat (dir_count dir) \<ge> IDKFS_MAX_DIRENTS then Some (fs, - 1)
     else do {
       fs \<leftarrow> dir_write e fs k (dir_put dir name (ino, ft_code type));
       Some (fs, 0) } }"

definition idkfs_dir_lookup :: "env \<Rightarrow> IDKFS \<Rightarrow> nat \<Rightarrow> cstr \<Rightarrow> (IDKFS \<times> int) option" where
  "idkfs_dir_lookup e fs k name = do {
     dir_ino \<leftarrow> inode_at fs k;
     if i_size dir_ino = 0 then Some (fs, - 1)
     else do {
       (fs, dir) \<leftarrow> dir_read e fs k;
       hit \<leftarrow> dir_find dir name 0;
       case hit of
         Some i \<Rightarrow> Some (fs, sint (de_inode (dir_entries dir i)))
       | None \<Rightarrow> Some (fs, - 1) } }"

text \<open>With a count past the array, closing the gap and clearing the last entry leave the array.\<close>

definition idkfs_dir_remove :: "env \<Rightarrow> IDKFS \<Rightarrow> nat \<Rightarrow> cstr \<Rightarrow> (IDKFS \<times> int) option" where
  "idkfs_dir_remove e fs k name = do {
     dir_ino \<leftarrow> inode_at fs k;
     if i_type dir_ino \<noteq> ft_code IDKFS_FT_DIR then Some (fs, - ENOTDIR)
     else if i_size dir_ino = 0 then Some (fs, - ENOENT)
     else do {
       (fs, dir) \<leftarrow> dir_read e fs k;
       hit \<leftarrow> dir_find dir name 0;
       case hit of
         None \<Rightarrow> Some (fs, - ENOENT)
       | Some idx \<Rightarrow>
           if unat (dir_count dir) > IDKFS_MAX_DIRENTS then None
           else do {
             fs \<leftarrow> dir_write e fs k (dir_delete dir idx);
             Some (fs, 0) } } }"

section \<open>Creation\<close>

definition idkfs_create :: "env \<Rightarrow> IDKFS \<Rightarrow> nat \<Rightarrow> cstr \<Rightarrow> SpeedTier \<Rightarrow> u16 \<Rightarrow> (IDKFS \<times> int) option" where
  "idkfs_create e fs parent name tier mode =
     (let (fs, ino) = inode_alloc fs in
      if ino < 0 then Some (fs, - 1)
      else do {
        let fs = upd_inode fs (nat ino) (\<lambda>i. i\<lparr>i_type := ft_code IDKFS_FT_FILE, i_tier := tier_code tier,
          i_mode := mode, i_link_count := 1, i_atime := now e, i_mtime := now e, i_ctime := now e\<rparr>);
        (fs, r) \<leftarrow> idkfs_dir_add e fs parent name (word_of_int ino) IDKFS_FT_FILE;
        if r < 0 then do {
          fs \<leftarrow> inode_free fs (nat ino);
          Some (fs, - 1) }
        else Some (fs, ino) })"

text \<open>The strings ``.'' and ``..''.\<close>

definition dot :: cstr where "dot = [46]"
definition dotdot :: cstr where "dotdot = [46, 46]"

definition idkfs_mkdir :: "env \<Rightarrow> IDKFS \<Rightarrow> nat \<Rightarrow> cstr \<Rightarrow> u16 \<Rightarrow> (IDKFS \<times> int) option" where
  "idkfs_mkdir e fs parent name mode =
     (let (fs, ino) = inode_alloc fs in
      if ino < 0 then Some (fs, - 1)
      else do {
        let fs = upd_inode fs (nat ino) (\<lambda>i. i\<lparr>i_type := ft_code IDKFS_FT_DIR, i_tier := tier_code TIER_NORMAL,
          i_mode := mode, i_link_count := 2, i_atime := now e, i_mtime := now e, i_ctime := now e\<rparr>);
        (fs, _) \<leftarrow> idkfs_dir_add e fs (nat ino) dot (word_of_int ino) IDKFS_FT_DIR;
        (fs, _) \<leftarrow> idkfs_dir_add e fs (nat ino) dotdot (word_of_nat parent) IDKFS_FT_DIR;
        (fs, _) \<leftarrow> idkfs_dir_add e fs parent name (word_of_int ino) IDKFS_FT_DIR;
        _ \<leftarrow> inode_at fs parent;
        Some (upd_inode fs parent (\<lambda>i. i\<lparr>i_link_count := i_link_count i + 1\<rparr>), ino) })"

section \<open>Flushing and formatting\<close>

definition sb_crc :: "Superblock \<Rightarrow> u32" where
  "sb_crc s = crc32 (bytes_of (Superblock_mem s) 0 (sizeof_Superblock - 4))"

definition inodes_mem :: "(nat \<Rightarrow> Inode) \<Rightarrow> mem" where
  "inodes_mem t = (\<lambda>i. Inode_mem (t (i div sizeof_Inode)) (i mod sizeof_Inode))"

definition idkfs_flush :: "IDKFS \<Rightarrow> IDKFS option" where
  "idkfs_flush fs =
     (if \<not> dirty fs then Some fs
      else let fs = (if checksums (features fs) then fs\<lparr>sb := (sb fs)\<lparr>sb_checksum := sb_crc (sb fs)\<rparr>\<rparr> else fs)
      in if 2 * IDKFS_BLOCK_SIZE + IDKFS_MAX_INODES * sizeof_Inode \<le> disk_size fs
         then let d1 = memcpy (disk fs) 0 (Superblock_mem (sb fs)) 0 sizeof_Superblock;
                  d2 = memcpy d1 IDKFS_BLOCK_SIZE (bitmap fs) 0 BITMAP_SIZE;
                  d3 = memcpy d2 (2 * IDKFS_BLOCK_SIZE) (inodes_mem (inodes fs)) 0 (IDKFS_MAX_INODES * sizeof_Inode)
              in Some (fs\<lparr>disk := d3, dirty := False\<rparr>)
         else None)"

text \<open>\<open>idkfs_destroy\<close> flushes a handle that is not \<open>NULL\<close> and frees it: no handle remains.\<close>

definition idkfs_destroy :: "IDKFS option \<Rightarrow> IDKFS option option" where
  "idkfs_destroy h = (case h of None \<Rightarrow> Some None | Some fs \<Rightarrow> do { _ \<leftarrow> idkfs_flush fs; Some None })"

text \<open>A zeroed \<open>IDKFS\<close> with its disk attached: what the code has before it formats.\<close>

definition blank_IDKFS :: "FeatureFlags \<Rightarrow> mem \<Rightarrow> nat \<Rightarrow> IDKFS" where
  "blank_IDKFS f d n = \<lparr>sb = zero_Superblock, bitmap = zeros, inodes = (\<lambda>_. zero_Inode), block_csum = (\<lambda>_. 0),
     block_mirror = (\<lambda>_. 0), disk = d, disk_size = n, features = f, dirty = False, redundancy_enabled = False\<rparr>"

definition calloc_IDKFS :: "FeatureFlags \<Rightarrow> IDKFS" where
  "calloc_IDKFS f = blank_IDKFS f zeros (IDKFS_TOTAL_BLOCKS * IDKFS_BLOCK_SIZE)"

definition inode_blocks :: nat where
  "inode_blocks = (IDKFS_MAX_INODES * sizeof_Inode + IDKFS_BLOCK_SIZE - 1) div IDKFS_BLOCK_SIZE"

definition mkfs_sb :: "env \<Rightarrow> cstr \<Rightarrow> Superblock" where
  "mkfs_sb e label = zero_Superblock\<lparr>sb_magic := IDKFS_MAGIC, sb_version := IDKFS_VERSION,
     sb_block_size := 4096, sb_total_blocks := 65536,
     sb_free_blocks := 65536 - word_of_nat (2 + inode_blocks), sb_total_inodes := 4096,
     sb_free_inodes := 4096 - 1, sb_inode_table_block := 2, sb_bitmap_block := 1,
     sb_data_start_block := word_of_nat (2 + inode_blocks), sb_root_inode := 0,
     sb_created_at := now e, sb_last_mounted := now e, sb_mount_count := 1,
     sb_label := strncpy zeros label 63\<rparr>"

text \<open>The mode is \<open>0755\<close> in octal.\<close>

definition root_Inode :: "env \<Rightarrow> Inode" where
  "root_Inode e = zero_Inode\<lparr>i_ino := 0, i_type := ft_code IDKFS_FT_DIR, i_tier := tier_code TIER_NORMAL,
     i_mode := 493, i_link_count := 2, i_atime := now e, i_mtime := now e, i_ctime := now e,
     i_direct := (\<lambda>j. if j < IDKFS_DIRECT_BLOCKS then IDKFS_NULL_BLOCK else 0),
     i_indirect1 := IDKFS_NULL_BLOCK, i_indirect2 := IDKFS_NULL_BLOCK\<rparr>"

definition mark_blocks :: "nat \<Rightarrow> mem \<Rightarrow> mem option" where
  "mark_blocks n bm = fold (\<lambda>i r. r \<bind> (\<lambda>bm. bitmap_set bm i)) [0..<n] (Some bm)"

text \<open>Everything of \<open>idkfs_mkfs\<close> after the allocations and before the root directory gets its entries.\<close>

definition mkfs_base :: "env \<Rightarrow> cstr \<Rightarrow> IDKFS \<Rightarrow> IDKFS option" where
  "mkfs_base e label fs = do {
     bm \<leftarrow> mark_blocks (2 + inode_blocks) (bitmap fs);
     Some (fs\<lparr>sb := mkfs_sb e label, bitmap := bm, inodes := (inodes fs)(IDKFS_ROOT_INODE := root_Inode e)\<rparr>) }"

text \<open>\<open>calloc1\<close> and \<open>calloc2\<close> say whether the two allocations succeed; the inner \<open>None\<close> is the
  \<open>NULL\<close> result.\<close>

definition idkfs_mkfs :: "bool \<Rightarrow> bool \<Rightarrow> env \<Rightarrow> cstr \<Rightarrow> FeatureFlags \<Rightarrow> IDKFS option option" where
  "idkfs_mkfs calloc1 calloc2 e label f =
     (if \<not> calloc1 \<or> \<not> calloc2 then Some None
      else do {
        fs \<leftarrow> mkfs_base e label (calloc_IDKFS f);
        (fs, _) \<leftarrow> idkfs_dir_add e fs IDKFS_ROOT_INODE dot 0 IDKFS_FT_DIR;
        (fs, _) \<leftarrow> idkfs_dir_add e fs IDKFS_ROOT_INODE dotdot 0 IDKFS_FT_DIR;
        Some (Some (if checksums f then fs\<lparr>sb := (sb fs)\<lparr>sb_checksum := sb_crc (sb fs)\<rparr>\<rparr> else fs)) })"

end
