(* ===== verification/Fuse.thy ===== *)
theory Fuse
  imports Core_Ops
begin

text \<open>
  The FUSE front end \<^verbatim>\<open>idkfs_fuse.c\<close>: path resolution, the file operations, directory listing and
  the life cycle of the Lua sorter. The global \<open>gfs\<close> is the state the operations thread; a path is
  the byte string before its NUL. \<open>off_t\<close> values are the 64-bit words the code casts them to. The
  Lua interpreter and \<open>qsort\<close> with the Lua comparison are not part of the repository: what they
  return is a parameter.
\<close>

abbreviation (input) EBADF :: int where "EBADF \<equiv> 9"
abbreviation (input) EISDIR :: int where "EISDIR \<equiv> 21"
abbreviation (input) ENOSPC :: int where "ENOSPC \<equiv> 28"

abbreviation (input) S_IFDIR :: u32 where "S_IFDIR \<equiv> 0x4000"
abbreviation (input) S_IFREG :: u32 where "S_IFREG \<equiv> 0x8000"
abbreviation (input) S_IFLNK :: u32 where "S_IFLNK \<equiv> 0xA000"

text \<open>The conversion of a result to C's \<open>int\<close>.\<close>

definition to_int32 :: "int \<Rightarrow> int" where
  "to_int32 n = sint (word_of_int n :: u32)"

section \<open>Paths\<close>

abbreviation (input) slash :: u8 where "slash \<equiv> 47"

text \<open>The tokens that repeated \<open>strtok_r(\<dots>, "/", \<dots>)\<close> delivers: separators are skipped, a token runs
  to the next separator.\<close>

function tokens :: "cstr \<Rightarrow> cstr list" where
  "tokens s = (let r = dropWhile (\<lambda>c. c = slash) s in
     if r = [] then []
     else takeWhile (\<lambda>c. c \<noteq> slash) r # tokens (drop 1 (dropWhile (\<lambda>c. c \<noteq> slash) r)))"
  by pat_completeness auto
termination
proof (relation "measure length")
  fix s r :: cstr assume r: "r = dropWhile (\<lambda>c. c = slash) s" "r \<noteq> []"
  have "length (drop 1 (dropWhile (\<lambda>c. c \<noteq> slash) r)) < length r"
    using r(2) length_dropWhile_le[of "\<lambda>c. c \<noteq> slash" r] by (cases r) auto
  also have "length r \<le> length s" unfolding r(1) by (rule length_dropWhile_le)
  finally show "(drop 1 (dropWhile (\<lambda>c. c \<noteq> slash) r), s) \<in> measure length" by simp
qed simp

declare tokens.simps [simp del]

text \<open>The loop of \<open>resolve_path\<close>: \<open>cur\<close> is the current inode number.\<close>

fun resolve_tokens :: "env \<Rightarrow> IDKFS \<Rightarrow> nat \<Rightarrow> cstr list \<Rightarrow> (IDKFS \<times> int) option" where
  "resolve_tokens e fs cur [] = Some (fs, int cur)"
| "resolve_tokens e fs cur (tok # toks) = do {
     dir \<leftarrow> inode_at fs cur;
     if i_type dir \<noteq> ft_code IDKFS_FT_DIR then Some (fs, - ENOTDIR)
     else do {
       (fs, nxt) \<leftarrow> idkfs_dir_lookup e fs cur tok;
       if nxt < 0 then Some (fs, - ENOENT)
       else resolve_tokens e fs (nat nxt) toks } }"

definition resolve_path :: "env \<Rightarrow> IDKFS \<Rightarrow> cstr \<Rightarrow> (IDKFS \<times> int) option" where
  "resolve_path e fs path =
     (if path = [slash] then Some (fs, int IDKFS_ROOT_INODE)
      else resolve_tokens e fs IDKFS_ROOT_INODE (tokens (take 4095 path)))"

text \<open>\<open>strrchr(s, '/')\<close>: the position of the last separator.\<close>

primrec strrchr_slash :: "cstr \<Rightarrow> nat option" where
  "strrchr_slash [] = None"
| "strrchr_slash (c # s) = (case strrchr_slash s of
     Some i \<Rightarrow> Some (Suc i) | None \<Rightarrow> if c = slash then Some 0 else None)"

text \<open>\<open>Inl\<close> is the error code, \<open>Inr\<close> the parent inode and the last component.\<close>

definition resolve_parent :: "env \<Rightarrow> IDKFS \<Rightarrow> cstr \<Rightarrow> (IDKFS \<times> (int + nat \<times> cstr)) option" where
  "resolve_parent e fs path =
     (let tmp = take 4095 path in
      case strrchr_slash tmp of
        None \<Rightarrow> Some (fs, Inl (- ENOENT))
      | Some i \<Rightarrow>
          let name = take IDKFS_MAX_FILENAME (drop (i + 1) tmp) in
          if i = 0 then Some (fs, Inr (IDKFS_ROOT_INODE, name))
          else do {
            (fs, p) \<leftarrow> resolve_path e fs (take i tmp);
            if p < 0 then Some (fs, Inl p)
            else Some (fs, Inr (nat p, name)) })"

section \<open>Attributes\<close>

record stat =
  st_ino :: u64
  st_mode :: u32
  st_nlink :: u64
  st_uid :: u32
  st_gid :: u32
  st_size :: u64
  st_atime :: u64
  st_mtime :: u64
  st_ctime :: u64
  st_blksize :: u64
  st_blocks :: u64

definition zero_stat :: stat where
  "zero_stat = \<lparr>st_ino = 0, st_mode = 0, st_nlink = 0, st_uid = 0, st_gid = 0, st_size = 0,
     st_atime = 0, st_mtime = 0, st_ctime = 0, st_blksize = 0, st_blocks = 0\<rparr>"

definition stat_of :: "Inode \<Rightarrow> stat" where
  "stat_of i = \<lparr>st_ino = ucast (i_ino i),
     st_mode = (ucast (i_mode i) OR
       (if i_type i = ft_code IDKFS_FT_DIR then S_IFDIR
        else if i_type i = ft_code IDKFS_FT_FILE then S_IFREG
        else if i_type i = ft_code IDKFS_FT_SYMLINK then S_IFLNK else 0)),
     st_nlink = ucast (i_link_count i), st_uid = i_uid i, st_gid = i_gid i, st_size = i_size i,
     st_atime = i_atime i, st_mtime = i_mtime i, st_ctime = i_ctime i, st_blksize = 4096,
     st_blocks = ucast (i_block_count i * 8)\<rparr>"

text \<open>\<open>Inl\<close> is the error code, \<open>Inr\<close> the filled \<open>struct stat\<close> with result 0.\<close>

definition fuse_getattr :: "env \<Rightarrow> IDKFS \<Rightarrow> cstr \<Rightarrow> (IDKFS \<times> (int + stat)) option" where
  "fuse_getattr e fs path = do {
     (fs, ino) \<leftarrow> resolve_path e fs path;
     if ino < 0 then Some (fs, Inl ino)
     else do {
       i \<leftarrow> inode_at fs (nat ino);
       Some (fs, Inr (stat_of i)) } }"

record statvfs =
  f_bsize :: u64
  f_frsize :: u64
  f_blocks :: u64
  f_bfree :: u64
  f_bavail :: u64
  f_files :: u64
  f_ffree :: u64
  f_namemax :: u64

definition fuse_statfs :: "IDKFS \<Rightarrow> statvfs" where
  "fuse_statfs fs = \<lparr>f_bsize = 4096, f_frsize = 4096, f_blocks = 65536,
     f_bfree = ucast (sb_free_blocks (sb fs)), f_bavail = ucast (sb_free_blocks (sb fs)), f_files = 4096,
     f_ffree = ucast (sb_free_inodes (sb fs)), f_namemax = 255\<rparr>"

section \<open>Open, read, write\<close>

text \<open>\<open>Inr\<close> is the file handle put into \<open>fi->fh\<close>, with result 0.\<close>

definition fuse_open :: "env \<Rightarrow> IDKFS \<Rightarrow> cstr \<Rightarrow> (IDKFS \<times> (int + u64)) option" where
  "fuse_open e fs path = do {
     (fs, ino) \<leftarrow> resolve_path e fs path;
     if ino < 0 then Some (fs, Inl ino) else Some (fs, Inr (word_of_int ino)) }"

definition handle_ino :: "u64 \<Rightarrow> nat" where
  "handle_ino fh = unat (ucast fh :: u32)"

definition fuse_read :: "env \<Rightarrow> IDKFS \<Rightarrow> mem \<Rightarrow> u64 \<Rightarrow> u64 \<Rightarrow> u64 \<Rightarrow> (IDKFS \<times> mem \<times> int) option" where
  "fuse_read e fs buf sz offset fh =
     (if handle_ino fh \<ge> IDKFS_MAX_INODES then Some (fs, buf, - EBADF)
      else do {
        (fs, buf, n) \<leftarrow> idkfs_read e fs (handle_ino fh) buf sz offset;
        Some (fs, buf, to_int32 n) })"

definition fuse_write :: "env \<Rightarrow> IDKFS \<Rightarrow> mem \<Rightarrow> u64 \<Rightarrow> u64 \<Rightarrow> u64 \<Rightarrow> (IDKFS \<times> int) option" where
  "fuse_write e fs buf sz offset fh =
     (if handle_ino fh \<ge> IDKFS_MAX_INODES then Some (fs, - EBADF)
      else do {
        (fs, n) \<leftarrow> idkfs_write e fs (handle_ino fh) buf sz offset;
        Some (fs, to_int32 n) })"

section \<open>Changing the tree\<close>

definition fuse_create :: "env \<Rightarrow> IDKFS \<Rightarrow> cstr \<Rightarrow> u32 \<Rightarrow> (IDKFS \<times> (int + u64)) option" where
  "fuse_create e fs path mode = do {
     (fs, r) \<leftarrow> resolve_parent e fs path;
     case r of
       Inl ret \<Rightarrow> Some (fs, Inl ret)
     | Inr (parent, name) \<Rightarrow> do {
         (fs, ino) \<leftarrow> idkfs_create e fs parent name TIER_NORMAL (ucast mode);
         if ino < 0 then Some (fs, Inl (- ENOSPC)) else Some (fs, Inr (word_of_int ino)) } }"

definition fuse_mkdir :: "env \<Rightarrow> IDKFS \<Rightarrow> cstr \<Rightarrow> u32 \<Rightarrow> (IDKFS \<times> int) option" where
  "fuse_mkdir e fs path mode = do {
     (fs, r) \<leftarrow> resolve_parent e fs path;
     case r of
       Inl ret \<Rightarrow> Some (fs, ret)
     | Inr (parent, name) \<Rightarrow> do {
         (fs, ino) \<leftarrow> idkfs_mkdir e fs parent name (ucast mode);
         Some (fs, if ino < 0 then - ENOSPC else 0) } }"

text \<open>The three operations that set fields of the inode a path leads to.\<close>

definition set_inode :: "env \<Rightarrow> IDKFS \<Rightarrow> cstr \<Rightarrow> (Inode \<Rightarrow> Inode) \<Rightarrow> (IDKFS \<times> int) option" where
  "set_inode e fs path f = do {
     (fs, ino) \<leftarrow> resolve_path e fs path;
     if ino < 0 then Some (fs, ino)
     else do {
       _ \<leftarrow> inode_at fs (nat ino);
       Some (upd_inode fs (nat ino) f, 0) } }"

definition fuse_truncate :: "env \<Rightarrow> IDKFS \<Rightarrow> cstr \<Rightarrow> u64 \<Rightarrow> (IDKFS \<times> int) option" where
  "fuse_truncate e fs path sz = set_inode e fs path (\<lambda>i. i\<lparr>i_size := sz\<rparr>)"

definition fuse_utimens :: "env \<Rightarrow> IDKFS \<Rightarrow> cstr \<Rightarrow> u64 \<Rightarrow> u64 \<Rightarrow> (IDKFS \<times> int) option" where
  "fuse_utimens e fs path atime mtime =
     (if \<not> timestamps (features fs) then Some (fs, 0)
      else set_inode e fs path (\<lambda>i. i\<lparr>i_atime := atime, i_mtime := mtime\<rparr>))"

definition fuse_chmod :: "env \<Rightarrow> IDKFS \<Rightarrow> cstr \<Rightarrow> u32 \<Rightarrow> (IDKFS \<times> int) option" where
  "fuse_chmod e fs path mode = set_inode e fs path (\<lambda>i. i\<lparr>i_mode := ucast mode\<rparr>)"

section \<open>Unlinking\<close>

definition release_block :: "IDKFS \<Rightarrow> u32 \<Rightarrow> IDKFS option" where
  "release_block fs b = do {
     bm \<leftarrow> bitmap_clear (bitmap fs) (unat b);
     Some (fs\<lparr>bitmap := bm, sb := (sb fs)\<lparr>sb_free_blocks := sb_free_blocks (sb fs) + 1\<rparr>\<rparr>) }"

text \<open>One iteration of the loop over \<open>direct[]\<close>.\<close>

definition release_direct :: "nat \<Rightarrow> nat \<Rightarrow> IDKFS \<Rightarrow> IDKFS option" where
  "release_direct k b fs = (let v = i_direct (inodes fs k) b in
     if v \<noteq> IDKFS_NULL_BLOCK then do {
       fs \<leftarrow> release_block fs v;
       Some (upd_inode fs k (\<lambda>i. i\<lparr>i_direct := (i_direct i)(b := IDKFS_NULL_BLOCK)\<rparr>)) }
     else Some fs)"

primrec release_directs :: "nat \<Rightarrow> nat list \<Rightarrow> IDKFS \<Rightarrow> IDKFS option" where
  "release_directs k [] fs = Some fs"
| "release_directs k (b # bs) fs = release_direct k b fs \<bind> release_directs k bs"

text \<open>The loop over the pointers of the indirect block; the array is a local copy that is not
  written back.\<close>

primrec release_ptrs :: "u32 list \<Rightarrow> IDKFS \<Rightarrow> IDKFS option" where
  "release_ptrs [] fs = Some fs"
| "release_ptrs (p # ps) fs =
     (if p \<noteq> IDKFS_NULL_BLOCK then release_block fs p else Some fs) \<bind> release_ptrs ps"

definition release_indirect :: "nat \<Rightarrow> IDKFS \<Rightarrow> IDKFS option" where
  "release_indirect k fs = (let ind = i_indirect1 (inodes fs k) in
     if ind \<noteq> IDKFS_NULL_BLOCK then do {
       ptrs \<leftarrow> block_read fs (unat ind);
       fs \<leftarrow> release_ptrs (map (\<lambda>p. rd32 ptrs (4 * p)) [0..<IDKFS_PTRS_PER_BLOCK]) fs;
       fs \<leftarrow> release_block fs ind;
       Some (upd_inode fs k (\<lambda>i. i\<lparr>i_indirect1 := IDKFS_NULL_BLOCK\<rparr>)) }
     else Some fs)"

definition release_file :: "nat \<Rightarrow> IDKFS \<Rightarrow> IDKFS option" where
  "release_file k fs = do {
     fs \<leftarrow> release_directs k [0..<IDKFS_DIRECT_BLOCKS] fs;
     fs \<leftarrow> release_indirect k fs;
     Some (upd_inode fs k (\<lambda>i. i\<lparr>i_size := 0, i_block_count := 0\<rparr>)) }"

definition fuse_unlink :: "env \<Rightarrow> IDKFS \<Rightarrow> cstr \<Rightarrow> (IDKFS \<times> int) option" where
  "fuse_unlink e fs path = do {
     (fs, r) \<leftarrow> resolve_parent e fs path;
     case r of
       Inl ret \<Rightarrow> Some (fs, ret)
     | Inr (parent, name) \<Rightarrow> do {
         (fs, ino) \<leftarrow> resolve_path e fs path;
         if ino < 0 then Some (fs, ino)
         else do {
           i \<leftarrow> inode_at fs (nat ino);
           if i_type i = ft_code IDKFS_FT_DIR then Some (fs, - EISDIR)
           else do {
             fs \<leftarrow> release_file (nat ino) fs;
             (fs, ret) \<leftarrow> idkfs_dir_remove e fs parent name;
             if ret < 0 then Some (fs, ret)
             else do {
               fs \<leftarrow> inode_free fs (nat ino);
               Some (fs, 0) } } } } }"

section \<open>Listing a directory\<close>

record SortCandidate =
  sc_name :: cstr
  sc_type_name :: string
  sc_size :: u64
  sc_inode :: u32
  sc_entry_type :: u8

definition entry_type_name :: "u8 \<Rightarrow> string" where
  "entry_type_name t =
     (if t = ft_code IDKFS_FT_DIR then ''dir''
      else if t = ft_code IDKFS_FT_FILE then ''file''
      else if t = ft_code IDKFS_FT_SYMLINK then ''symlink''
      else if t = ft_code IDKFS_FT_DEVICE then ''device''
      else ''unknown'')"

definition is_dot :: "DirEntry \<Rightarrow> bool" where
  "is_dot en \<longleftrightarrow> strncmp_eq (de_name en) (mem_of dot) 0 IDKFS_MAX_FILENAME
     \<or> strncmp_eq (de_name en) (mem_of dotdot) 0 IDKFS_MAX_FILENAME"

text \<open>The candidate of an entry: its name is the C string in the first \<open>name_len\<close> bytes.\<close>

definition candidate :: "IDKFS \<Rightarrow> DirEntry \<Rightarrow> SortCandidate option" where
  "candidate fs en = do {
     i \<leftarrow> inode_at fs (unat (de_inode en));
     Some \<lparr>sc_name = cstring (de_name en) (unat (de_name_len en)), sc_type_name = entry_type_name (de_type en),
       sc_size = i_size i, sc_inode = de_inode en, sc_entry_type = de_type en\<rparr> }"

function collect :: "IDKFS \<Rightarrow> Directory \<Rightarrow> nat \<Rightarrow> SortCandidate list \<Rightarrow> SortCandidate list option" where
  "collect fs d i acc =
     (if i < unat (dir_count d) \<and> length acc < IDKFS_MAX_DIRENTS then
        if i \<ge> IDKFS_MAX_DIRENTS then None
        else if is_dot (dir_entries d i) then collect fs d (i + 1) acc
        else do { c \<leftarrow> candidate fs (dir_entries d i); collect fs d (i + 1) (acc @ [c]) }
      else Some acc)"
  by pat_completeness auto
termination
  by (relation "measure (\<lambda>(fs, d, i, acc). IDKFS_MAX_DIRENTS - i)") auto

declare collect.simps [simp del]

definition candidate_stat :: "SortCandidate \<Rightarrow> stat" where
  "candidate_stat c = zero_stat\<lparr>st_ino := ucast (sc_inode c),
     st_mode := (if sc_entry_type c = ft_code IDKFS_FT_DIR then S_IFDIR OR 493
       else if sc_entry_type c = ft_code IDKFS_FT_SYMLINK then S_IFLNK OR 511 else S_IFREG OR 420),
     st_size := sc_size c\<rparr>"

text \<open>The calls of \<open>filler\<close>, in order: a name and the attributes, \<open>None\<close> for \<open>NULL\<close>.
  \<open>lua_qsort\<close> is \<open>qsort\<close> with the Lua comparison; it also gives the new value of
  \<open>g_sort_ready\<close>, which a failing comparison clears.\<close>

definition fuse_readdir ::
  "(SortCandidate list \<Rightarrow> SortCandidate list \<times> bool) \<Rightarrow> env \<Rightarrow> IDKFS \<Rightarrow> bool \<Rightarrow> cstr
    \<Rightarrow> (IDKFS \<times> bool \<times> int \<times> (cstr \<times> stat option) list) option" where
  "fuse_readdir lua_qsort e fs ready path = do {
     (fs, ino) \<leftarrow> resolve_path e fs path;
     if ino < 0 then Some (fs, ready, ino, [])
     else do {
       dir_ino \<leftarrow> inode_at fs (nat ino);
       if i_type dir_ino \<noteq> ft_code IDKFS_FT_DIR then Some (fs, ready, - ENOTDIR, [])
       else let dots = [(dot, None), (dotdot, None)] in
         if i_size dir_ino = 0 then Some (fs, ready, 0, dots)
         else do {
           (fs, dir) \<leftarrow> dir_read e fs (nat ino);
           entries \<leftarrow> collect fs dir 0 [];
           let (entries, ready) = (if length entries > 1 \<and> ready then lua_qsort entries else (entries, ready));
           Some (fs, ready, 0, dots @ map (\<lambda>c. (sc_name c, Some (candidate_stat c))) entries) } } }"

section \<open>The Lua sorter\<close>

text \<open>\<open>g_sort_L\<close> (is there an interpreter), \<open>g_sort_compare_ref\<close> (\<open>None\<close> for \<open>LUA_REFNIL\<close>) and
  \<open>g_sort_ready\<close>.\<close>

record sorter =
  sort_L :: bool
  sort_compare_ref :: "int option"
  sort_ready :: bool

definition sorter_boot :: sorter where
  "sorter_boot = \<lparr>sort_L = False, sort_compare_ref = None, sort_ready = False\<rparr>"

text \<open>What the Lua library answers to the calls of \<open>sorting_init\<close>.\<close>

record lua_answers =
  newstate_ok :: bool
  loadfile_ok :: bool
  run_ok :: bool
  compare_is_function :: bool
  new_ref :: int

definition sorting_shutdown :: "sorter \<Rightarrow> sorter" where
  "sorting_shutdown s = (if \<not> sort_L s then s
     else s\<lparr>sort_L := False, sort_ready := False, sort_compare_ref := None\<rparr>)"

definition sorting_init :: "lua_answers \<Rightarrow> sorter \<Rightarrow> sorter \<times> bool" where
  "sorting_init l s =
     (if sort_ready s then (s, True)
      else if \<not> newstate_ok l then (s\<lparr>sort_L := False\<rparr>, False)
      else let s = s\<lparr>sort_L := True\<rparr> in
        if \<not> loadfile_ok l then (sorting_shutdown s, False)
        else if \<not> run_ok l then (sorting_shutdown s, False)
        else if \<not> compare_is_function l then (sorting_shutdown s, False)
        else (s\<lparr>sort_compare_ref := Some (new_ref l), sort_ready := True\<rparr>, True))"

text \<open>The table that a candidate is passed as. \<open>lua_Integer\<close> has 64 bits.\<close>

record lua_entry =
  lua_name :: cstr
  lua_inode :: int
  lua_size :: int
  lua_type :: string

definition push_candidate_to_lua :: "SortCandidate \<Rightarrow> lua_entry" where
  "push_candidate_to_lua c = \<lparr>lua_name = sc_name c, lua_inode = uint (sc_inode c), lua_size = sint (sc_size c),
     lua_type = sc_type_name c\<rparr>"

text \<open>One comparison. \<open>call\<close> is the outcome of the protected call: \<open>None\<close> for an error, \<open>Some r\<close> for
  a result, where \<open>r\<close> is \<open>None\<close> if it is not an integer.\<close>

definition lua_sort_compare ::
  "(lua_entry \<Rightarrow> lua_entry \<Rightarrow> int option option) \<Rightarrow> sorter \<Rightarrow> SortCandidate \<Rightarrow> SortCandidate \<Rightarrow> sorter \<times> int" where
  "lua_sort_compare call s a b =
     (if \<not> sort_ready s \<or> \<not> sort_L s then (s, 0)
      else case call (push_candidate_to_lua a) (push_candidate_to_lua b) of
        None \<Rightarrow> (s\<lparr>sort_ready := False\<rparr>, 0)
      | Some None \<Rightarrow> (s, 0)
      | Some (Some r) \<Rightarrow> (s, to_int32 r))"

end
