(* ===== verification/Persist.thy ===== *)
theory Persist
  imports Fuse
begin

text \<open>
  The persistent front end \<^verbatim>\<open>idkfs_persist.c\<close>: an image file that is mapped into memory, mounting it,
  writing the metadata back after each operation, and the FUSE operations on the mounted image.

  While a file system is mounted, \<open>fs->disk\<close> and \<open>img->map\<close> are the same memory (\<open>mmap\<close> with
  \<open>MAP_SHARED\<close>), so the bytes of the mapping are the field \<open>disk\<close> of the state; \<open>attached\<close> gives the
  image record with these bytes. The answers of the operating system are arguments.
\<close>

section \<open>The image file\<close>

abbreviation (input) IDKFS_IMAGE_SIZE :: nat where "IDKFS_IMAGE_SIZE \<equiv> 65536 * 4096"

text \<open>The pointer \<open>map\<close>: \<open>NULL\<close>, \<open>MAP_FAILED\<close> or the mapped bytes.\<close>

datatype mapping_ptr = MapNull | MapFailed | Mapped mem

record DiskImage =
  img_fd :: int
  img_path :: mem
  img_map :: mapping_ptr
  img_size :: nat

definition zero_image :: DiskImage where
  "zero_image = \<lparr>img_fd = 0, img_path = zeros, img_map = MapNull, img_size = 0\<rparr>"

text \<open>What the system calls answer: the descriptor of \<open>open\<close> (negative for failure), whether
  \<open>ftruncate\<close>, \<open>fstat\<close> and \<open>mmap\<close> succeed, and the file's size and bytes.\<close>

record os_answers =
  open_fd :: int
  ftruncate_ok :: bool
  fstat_ok :: bool
  mmap_ok :: bool
  file_size :: nat
  file_bytes :: mem

text \<open>The result, and the size and bytes of the file that \<open>O_TRUNC\<close> and \<open>ftruncate\<close> leave.\<close>

definition image_create :: "os_answers \<Rightarrow> int \<times> (nat \<times> mem) option" where
  "image_create os =
     (if open_fd os < 0 then (- 1, None)
      else if \<not> ftruncate_ok os then (- 1, Some (0, zeros))
      else (0, Some (IDKFS_IMAGE_SIZE, zeros)))"

definition image_open :: "os_answers \<Rightarrow> DiskImage \<Rightarrow> cstr \<Rightarrow> DiskImage \<times> int" where
  "image_open os img path =
     (let img = img\<lparr>img_fd := open_fd os\<rparr> in
      if open_fd os < 0 then (img, - 1)
      else if \<not> fstat_ok os then (img, - 1)
      else let img = img\<lparr>img_size := file_size os\<rparr> in
        if file_size os < IDKFS_IMAGE_SIZE then (img, - 1)
        else let img = img\<lparr>img_map := (if mmap_ok os then Mapped (file_bytes os) else MapFailed)\<rparr> in
          if \<not> mmap_ok os then (img, - 1)
          else (img\<lparr>img_path := strncpy (img_path img) path 4095\<rparr>, 0))"

text \<open>\<open>image_sync\<close> only schedules the write-back of the mapping. \<open>image_close\<close> also gives the bytes
  that are in the file afterwards.\<close>

definition image_sync :: "DiskImage \<Rightarrow> DiskImage" where
  "image_sync img = img"

definition image_close :: "DiskImage \<Rightarrow> DiskImage \<times> mem option" where
  "image_close img = (case img_map img of
     MapNull \<Rightarrow> (img, None)
   | MapFailed \<Rightarrow> (img\<lparr>img_map := MapNull, img_fd := - 1\<rparr>, None)
   | Mapped m \<Rightarrow> (img\<lparr>img_map := MapNull, img_fd := - 1\<rparr>, Some m))"

section \<open>Mounting and flushing\<close>

definition idkfs_flush_to_image :: "IDKFS \<Rightarrow> IDKFS option" where
  "idkfs_flush_to_image fs =
     (if 2 * IDKFS_BLOCK_SIZE + IDKFS_MAX_INODES * sizeof_Inode \<le> disk_size fs
      then let d1 = memcpy (disk fs) 0 (Superblock_mem (sb fs)) 0 sizeof_Superblock;
               d2 = memcpy d1 IDKFS_BLOCK_SIZE (bitmap fs) 0 BITMAP_SIZE;
               d3 = memcpy d2 (2 * IDKFS_BLOCK_SIZE) (inodes_mem (inodes fs)) 0 (IDKFS_MAX_INODES * sizeof_Inode)
           in Some (fs\<lparr>disk := d3\<rparr>)
      else None)"

text \<open>The label ``idkfs''.\<close>

definition image_label :: cstr where
  "image_label = [105, 100, 107, 102, 115]"

definition load_inodes :: "mem \<Rightarrow> nat \<Rightarrow> Inode" where
  "load_inodes m k = (if k < IDKFS_MAX_INODES then mem_Inode m (2 * IDKFS_BLOCK_SIZE + k * sizeof_Inode) else zero_Inode)"

text \<open>The branch that loads an existing file system from the mapped bytes \<open>m\<close>.\<close>

definition load_image :: "env \<Rightarrow> mem \<Rightarrow> nat \<Rightarrow> IDKFS option" where
  "load_image e m n = (if rd32 m 0 \<noteq> IDKFS_MAGIC then None
     else let s = mem_Superblock m 0 in
       Some ((blank_IDKFS features_default m n)\<lparr>
         sb := s\<lparr>sb_last_mounted := now e, sb_mount_count := sb_mount_count s + 1\<rparr>,
         bitmap := memcpy zeros 0 m IDKFS_BLOCK_SIZE BITMAP_SIZE,
         inodes := load_inodes m\<rparr>))"

text \<open>The branch that formats it.\<close>

definition format_image :: "env \<Rightarrow> mem \<Rightarrow> nat \<Rightarrow> IDKFS option" where
  "format_image e m n = do {
     fs \<leftarrow> mkfs_base e image_label (blank_IDKFS features_default m n);
     (fs, _) \<leftarrow> idkfs_dir_add e fs IDKFS_ROOT_INODE dot 0 IDKFS_FT_DIR;
     (fs, _) \<leftarrow> idkfs_dir_add e fs IDKFS_ROOT_INODE dotdot 0 IDKFS_FT_DIR;
     idkfs_flush fs }"

text \<open>The inner \<open>None\<close> is the \<open>NULL\<close> result; an image that is not mapped, or one too small to hold
  the metadata, makes an undefined access.\<close>

definition idkfs_mount_image :: "bool \<Rightarrow> env \<Rightarrow> DiskImage \<Rightarrow> bool \<Rightarrow> IDKFS option option" where
  "idkfs_mount_image calloc_ok e img is_new =
     (if \<not> calloc_ok then Some None
      else case img_map img of
        Mapped m \<Rightarrow>
          if img_size img < 2 * IDKFS_BLOCK_SIZE + IDKFS_MAX_INODES * sizeof_Inode then None
          else if is_new then do { fs \<leftarrow> format_image e m (img_size img); Some (Some fs) }
          else Some (load_image e m (img_size img))
      | _ \<Rightarrow> None)"

definition attached_image :: "IDKFS \<Rightarrow> DiskImage \<Rightarrow> DiskImage" where
  "attached_image fs img = img\<lparr>img_map := Mapped (disk fs)\<rparr>"

section \<open>FUSE operations on the image\<close>

text \<open>The path functions and the operations that do not write are the ones of \<^verbatim>\<open>idkfs_fuse.c\<close>, word for
  word; the others write the metadata back before they return success.\<close>

definition persist_resolve_path :: "env \<Rightarrow> IDKFS \<Rightarrow> cstr \<Rightarrow> (IDKFS \<times> int) option" where
  "persist_resolve_path e fs path = resolve_path e fs path"

definition persist_resolve_parent :: "env \<Rightarrow> IDKFS \<Rightarrow> cstr \<Rightarrow> (IDKFS \<times> (int + nat \<times> cstr)) option" where
  "persist_resolve_parent e fs path = resolve_parent e fs path"

definition persist_getattr :: "env \<Rightarrow> IDKFS \<Rightarrow> cstr \<Rightarrow> (IDKFS \<times> (int + stat)) option" where
  "persist_getattr e fs path = fuse_getattr e fs path"

definition persist_open :: "env \<Rightarrow> IDKFS \<Rightarrow> cstr \<Rightarrow> (IDKFS \<times> (int + u64)) option" where
  "persist_open e fs path = fuse_open e fs path"

definition persist_statfs :: "IDKFS \<Rightarrow> statvfs" where
  "persist_statfs fs = fuse_statfs fs"

definition persist_entry_stat :: "DirEntry \<Rightarrow> stat" where
  "persist_entry_stat en = zero_stat\<lparr>st_ino := ucast (de_inode en),
     st_mode := (if de_type en = ft_code IDKFS_FT_DIR then S_IFDIR OR 493 else S_IFREG OR 420)\<rparr>"

text \<open>The loop of \<open>fuse_readdir\<close>, which has no sorting here and no bound but \<open>dir.count\<close>.\<close>

function persist_entries :: "Directory \<Rightarrow> nat \<Rightarrow> (cstr \<times> stat option) list option" where
  "persist_entries d i =
     (if i < unat (dir_count d) then
        if i \<ge> IDKFS_MAX_DIRENTS then None
        else if is_dot (dir_entries d i) then persist_entries d (i + 1)
        else do {
          rest \<leftarrow> persist_entries d (i + 1);
          let en = dir_entries d i;
          Some ((cstring (de_name en) (unat (de_name_len en)), Some (persist_entry_stat en)) # rest) }
      else Some [])"
  by pat_completeness auto
termination
  by (relation "measure (\<lambda>(d, i). IDKFS_MAX_DIRENTS - i)") auto

declare persist_entries.simps [simp del]

definition persist_readdir :: "env \<Rightarrow> IDKFS \<Rightarrow> cstr \<Rightarrow> (IDKFS \<times> int \<times> (cstr \<times> stat option) list) option" where
  "persist_readdir e fs path = do {
     (fs, ino) \<leftarrow> persist_resolve_path e fs path;
     if ino < 0 then Some (fs, ino, [])
     else do {
       dir_ino \<leftarrow> inode_at fs (nat ino);
       if i_type dir_ino \<noteq> ft_code IDKFS_FT_DIR then Some (fs, - ENOTDIR, [])
       else let dots = [(dot, None), (dotdot, None)] in
         if i_size dir_ino = 0 then Some (fs, 0, dots)
         else do {
           (fs, dir) \<leftarrow> dir_read e fs (nat ino);
           es \<leftarrow> persist_entries dir 0;
           Some (fs, 0, dots @ es) } } }"

definition persist_read :: "env \<Rightarrow> IDKFS \<Rightarrow> mem \<Rightarrow> u64 \<Rightarrow> u64 \<Rightarrow> u64 \<Rightarrow> (IDKFS \<times> mem \<times> int) option" where
  "persist_read e fs buf sz offset fh =
     (if handle_ino fh \<ge> IDKFS_MAX_INODES then Some (fs, buf, - EBADF)
      else do {
        (fs, buf, n) \<leftarrow> idkfs_read e fs (handle_ino fh) buf sz offset;
        fs \<leftarrow> idkfs_flush_to_image fs;
        Some (fs, buf, to_int32 n) })"

definition persist_write :: "env \<Rightarrow> IDKFS \<Rightarrow> mem \<Rightarrow> u64 \<Rightarrow> u64 \<Rightarrow> u64 \<Rightarrow> (IDKFS \<times> int) option" where
  "persist_write e fs buf sz offset fh =
     (if handle_ino fh \<ge> IDKFS_MAX_INODES then Some (fs, - EBADF)
      else do {
        (fs, n) \<leftarrow> idkfs_write e fs (handle_ino fh) buf sz offset;
        fs \<leftarrow> idkfs_flush_to_image fs;
        Some (fs, to_int32 n) })"

definition persist_create :: "env \<Rightarrow> IDKFS \<Rightarrow> cstr \<Rightarrow> u32 \<Rightarrow> (IDKFS \<times> (int + u64)) option" where
  "persist_create e fs path mode = do {
     (fs, r) \<leftarrow> persist_resolve_parent e fs path;
     case r of
       Inl ret \<Rightarrow> Some (fs, Inl ret)
     | Inr (parent, name) \<Rightarrow> do {
         (fs, ino) \<leftarrow> idkfs_create e fs parent name TIER_NORMAL (ucast mode);
         if ino < 0 then Some (fs, Inl (- ENOSPC))
         else do {
           fs \<leftarrow> idkfs_flush_to_image fs;
           Some (fs, Inr (word_of_int ino)) } } }"

definition persist_mkdir :: "env \<Rightarrow> IDKFS \<Rightarrow> cstr \<Rightarrow> u32 \<Rightarrow> (IDKFS \<times> int) option" where
  "persist_mkdir e fs path mode = do {
     (fs, r) \<leftarrow> persist_resolve_parent e fs path;
     case r of
       Inl ret \<Rightarrow> Some (fs, ret)
     | Inr (parent, name) \<Rightarrow> do {
         (fs, ino) \<leftarrow> idkfs_mkdir e fs parent name (ucast mode);
         if ino < 0 then Some (fs, - ENOSPC)
         else do {
           fs \<leftarrow> idkfs_flush_to_image fs;
           Some (fs, 0) } } }"

definition persist_unlink :: "env \<Rightarrow> IDKFS \<Rightarrow> cstr \<Rightarrow> (IDKFS \<times> int) option" where
  "persist_unlink e fs path = do {
     (fs, r) \<leftarrow> persist_resolve_parent e fs path;
     case r of
       Inl ret \<Rightarrow> Some (fs, ret)
     | Inr (parent, name) \<Rightarrow> do {
         (fs, ino) \<leftarrow> persist_resolve_path e fs path;
         if ino < 0 then Some (fs, ino)
         else do {
           i \<leftarrow> inode_at fs (nat ino);
           if i_type i = ft_code IDKFS_FT_DIR then Some (fs, - EISDIR)
           else do {
             fs \<leftarrow> release_file (nat ino) fs;
             (fs, ret) \<leftarrow> idkfs_dir_remove e fs parent name;
             if ret < 0 then Some (fs, ret)
             else do {
               fs \<leftarrow> inode_free fs (nat ino);
               fs \<leftarrow> idkfs_flush_to_image fs;
               Some (fs, 0) } } } } }"

definition persist_set_inode :: "env \<Rightarrow> IDKFS \<Rightarrow> cstr \<Rightarrow> (Inode \<Rightarrow> Inode) \<Rightarrow> (IDKFS \<times> int) option" where
  "persist_set_inode e fs path f = do {
     (fs, ino) \<leftarrow> persist_resolve_path e fs path;
     if ino < 0 then Some (fs, ino)
     else do {
       _ \<leftarrow> inode_at fs (nat ino);
       fs \<leftarrow> idkfs_flush_to_image (upd_inode fs (nat ino) f);
       Some (fs, 0) } }"

definition persist_truncate :: "env \<Rightarrow> IDKFS \<Rightarrow> cstr \<Rightarrow> u64 \<Rightarrow> (IDKFS \<times> int) option" where
  "persist_truncate e fs path sz = persist_set_inode e fs path (\<lambda>i. i\<lparr>i_size := sz\<rparr>)"

definition persist_utimens :: "env \<Rightarrow> IDKFS \<Rightarrow> cstr \<Rightarrow> u64 \<Rightarrow> u64 \<Rightarrow> (IDKFS \<times> int) option" where
  "persist_utimens e fs path atime mtime =
     (if \<not> timestamps (features fs) then Some (fs, 0)
      else persist_set_inode e fs path (\<lambda>i. i\<lparr>i_atime := atime, i_mtime := mtime\<rparr>))"

definition persist_chmod :: "env \<Rightarrow> IDKFS \<Rightarrow> cstr \<Rightarrow> u32 \<Rightarrow> (IDKFS \<times> int) option" where
  "persist_chmod e fs path mode = persist_set_inode e fs path (\<lambda>i. i\<lparr>i_mode := ucast mode\<rparr>)"

text \<open>Unmounting: the metadata goes to the image, \<open>gfs\<close> becomes \<open>NULL\<close>, the image is closed.\<close>

definition idkfs_fuse_destroy :: "IDKFS option \<Rightarrow> DiskImage \<Rightarrow> (IDKFS option \<times> DiskImage \<times> mem option) option" where
  "idkfs_fuse_destroy gfs img = (case gfs of
     None \<Rightarrow> let (img, file) = image_close img in Some (None, img, file)
   | Some fs \<Rightarrow> do {
       fs \<leftarrow> idkfs_flush_to_image fs;
       let (img, file) = image_close (attached_image fs img);
       Some (None, img, file) })"

section \<open>The program\<close>

text \<open>\<open>--mkfs\<close>: the exit status and the bytes of the image file that a successful run leaves.
  \<open>os1\<close> answers \<open>image_create\<close>; \<open>os2\<close> answers \<open>image_open\<close> except for the contents, which are those
  of the file just created.\<close>

definition main_mkfs :: "bool \<Rightarrow> env \<Rightarrow> os_answers \<Rightarrow> os_answers \<Rightarrow> cstr \<Rightarrow> (int \<times> mem option) option" where
  "main_mkfs calloc_ok e os1 os2 path =
     (case image_create os1 of
        (r, Some (n, bytes)) \<Rightarrow>
          if r < 0 then Some (1, None)
          else (case image_open (os2\<lparr>file_size := n, file_bytes := bytes\<rparr>) zero_image path of
            (img, r) \<Rightarrow>
              if r < 0 then Some (1, None)
              else do {
                m \<leftarrow> idkfs_mount_image calloc_ok e img True;
                case m of
                  None \<Rightarrow> Some (1, None)
                | Some fs \<Rightarrow> do {
                    fs \<leftarrow> idkfs_flush_to_image fs;
                    Some (0, snd (image_close (attached_image fs img))) } })
      | (r, None) \<Rightarrow> Some (1, None))"

text \<open>\<open>--image\<close>, up to the call of \<open>fuse_main\<close>: \<open>Inl\<close> is the exit status of a refusal, \<open>Inr\<close> the
  mounted state.\<close>

definition main_image :: "bool \<Rightarrow> env \<Rightarrow> os_answers \<Rightarrow> cstr \<Rightarrow> (int + IDKFS \<times> DiskImage) option" where
  "main_image calloc_ok e os path =
     (case image_open os zero_image path of
        (img, r) \<Rightarrow>
          if r < 0 then Some (Inl 1)
          else (case img_map img of
            Mapped m \<Rightarrow>
              if rd32 m 0 \<noteq> IDKFS_MAGIC then Some (Inl 1)
              else do {
                h \<leftarrow> idkfs_mount_image calloc_ok e img False;
                case h of None \<Rightarrow> Some (Inl 1) | Some fs \<Rightarrow> Some (Inr (fs, img)) }
          | _ \<Rightarrow> None))"

text \<open>\<open>main\<close>: the exit status and, after \<open>--mkfs\<close>, the image; or the mounted state with the arguments \<open>fuse_main\<close>
  gets. \<open>argv\<close> is the argument vector with the name of the program.\<close>

datatype persist_outcome = Exit int "mem option" | Serve IDKFS DiskImage "cstr list"

definition mkfs_flag :: cstr where
  "mkfs_flag = [45, 45, 109, 107, 102, 115]"

definition image_flag :: cstr where
  "image_flag = [45, 45, 105, 109, 97, 103, 101]"

definition persist_main :: "bool \<Rightarrow> env \<Rightarrow> os_answers \<Rightarrow> os_answers \<Rightarrow> cstr list \<Rightarrow> persist_outcome option" where
  "persist_main calloc_ok e os1 os2 argv =
     (if length argv < 2 then Some (Exit 1 None)
      else if argv ! 1 = mkfs_flag then
        if length argv < 3 then Some (Exit 1 None)
        else map_option (\<lambda>(status, bytes). Exit status bytes) (main_mkfs calloc_ok e os1 os2 (argv ! 2))
      else if argv ! 1 = image_flag then
        if length argv < 4 then Some (Exit 1 None)
        else do {
          r \<leftarrow> main_image calloc_ok e os1 (argv ! 2);
          case r of
            Inl status \<Rightarrow> Some (Exit status None)
          | Inr (fs, img) \<Rightarrow> Some (Serve fs img (argv ! 0 # drop 3 argv)) }
      else Some (Exit 1 None))"

end
