(* ===== verification/Core_Inv.thy ===== *)
theory Core_Inv
  imports Core_Io
begin

text \<open>
  The block-ownership invariant of the file system and what the block-mapping operations of
  \<^verbatim>\<open>idkfs_core.c\<close> do to it. Every pointer a live inode holds (a direct block, the indirect block, a
  nonzero entry of the indirect block) is a slot; the invariant \<open>block_inv\<close> says that a slot's block lies in
  the data area, is marked used, and belongs to no other slot, and that everything before the data area
  is marked used; \<open>fs_inv\<close> adds that \<open>free_blocks\<close> counts the clear bits. The data area starts after the superblock, the
  bitmap and the 136 blocks of the inode table.
\<close>

section \<open>Simplification of state updates\<close>

lemma upd_inode_simps [simp]:
  "inodes (upd_inode fs k f) = (inodes fs)(k := f (inodes fs k))"
  "sb (upd_inode fs k f) = sb fs" "bitmap (upd_inode fs k f) = bitmap fs"
  "disk (upd_inode fs k f) = disk fs" "disk_size (upd_inode fs k f) = disk_size fs"
  "features (upd_inode fs k f) = features fs" "dirty (upd_inode fs k f) = dirty fs"
  by (simp_all add: upd_inode_def)

lemma dec_free_blocks_simps [simp]:
  "inodes (dec_free_blocks fs) = inodes fs" "bitmap (dec_free_blocks fs) = bitmap fs"
  "disk (dec_free_blocks fs) = disk fs" "disk_size (dec_free_blocks fs) = disk_size fs"
  "features (dec_free_blocks fs) = features fs"
  "sb_data_start_block (sb (dec_free_blocks fs)) = sb_data_start_block (sb fs)"
  "sb_free_blocks (sb (dec_free_blocks fs)) = sb_free_blocks (sb fs) - 1"
  by (simp_all add: dec_free_blocks_def)

lemma block_disjoint: "b \<noteq> b' \<Longrightarrow> i < IDKFS_BLOCK_SIZE \<Longrightarrow>
    block_ptr b' + i < block_ptr b \<or> block_ptr b + IDKFS_BLOCK_SIZE \<le> block_ptr b' + i"
  unfolding block_ptr_def by linarith

section \<open>Slots and ownership\<close>

datatype slot = SDirect nat | SInd | SPtr nat

definition ptr_at :: "IDKFS \<Rightarrow> nat \<Rightarrow> nat \<Rightarrow> u32" where
  "ptr_at fs b j = rd32 (disk fs) (block_ptr b + 4 * j)"

fun slot_val :: "IDKFS \<Rightarrow> nat \<Rightarrow> slot \<Rightarrow> u32" where
  "slot_val fs k (SDirect j) =
     (if j < IDKFS_DIRECT_BLOCKS then i_direct (inodes fs k) j else IDKFS_NULL_BLOCK)"
| "slot_val fs k SInd = i_indirect1 (inodes fs k)"
| "slot_val fs k (SPtr j) =
     (if j < IDKFS_PTRS_PER_BLOCK \<and> i_indirect1 (inodes fs k) \<noteq> IDKFS_NULL_BLOCK
         \<and> ptr_at fs (unat (i_indirect1 (inodes fs k))) j \<noteq> 0
      then ptr_at fs (unat (i_indirect1 (inodes fs k))) j else IDKFS_NULL_BLOCK)"

definition live :: "IDKFS \<Rightarrow> nat \<Rightarrow> bool" where
  "live fs k \<longleftrightarrow> k < IDKFS_MAX_INODES \<and> i_link_count (inodes fs k) \<noteq> 0"

definition owns :: "IDKFS \<Rightarrow> nat \<Rightarrow> slot \<Rightarrow> nat \<Rightarrow> bool" where
  "owns fs k s b \<longleftrightarrow> live fs k \<and> slot_val fs k s \<noteq> IDKFS_NULL_BLOCK \<and> unat (slot_val fs k s) = b"

definition data_start :: "IDKFS \<Rightarrow> nat" where
  "data_start fs = unat (sb_data_start_block (sb fs))"

definition geometry :: "IDKFS \<Rightarrow> bool" where
  "geometry fs \<longleftrightarrow> IDKFS_TOTAL_BLOCKS * IDKFS_BLOCK_SIZE \<le> disk_size fs
     \<and> 138 \<le> data_start fs \<and> data_start fs \<le> IDKFS_TOTAL_BLOCKS
     \<and> (\<forall>b < data_start fs. used (bitmap fs) b)"

text \<open>The difference, modulo the word size, between the counter \<open>free_blocks\<close> and the number of clear bits. Every
  operation keeps it; it is zero after formatting, but not after an image has been mounted again.\<close>

definition free_gap :: "IDKFS \<Rightarrow> u32" where
  "free_gap fs = sb_free_blocks (sb fs) - of_nat (card (free_set (bitmap fs)))"

text \<open>What no operation changes: this difference, the superblock but for its two counters, the size of the disk.\<close>

definition fixed :: "IDKFS \<Rightarrow> u32 \<times> Superblock \<times> nat" where
  "fixed fs = (free_gap fs, (sb fs)\<lparr>sb_free_inodes := 0, sb_free_blocks := 0\<rparr>, disk_size fs)"

definition counted :: "IDKFS \<Rightarrow> bool" where
  "counted fs \<longleftrightarrow> unat (sb_free_blocks (sb fs)) = card (free_set (bitmap fs))"

definition block_inv :: "IDKFS \<Rightarrow> bool" where
  "block_inv fs \<longleftrightarrow> geometry fs
     \<and> (\<forall>k s b. owns fs k s b \<longrightarrow> b < IDKFS_TOTAL_BLOCKS \<and> used (bitmap fs) b \<and> data_start fs \<le> b)
     \<and> (\<forall>k s k' s' b. owns fs k s b \<longrightarrow> owns fs k' s' b \<longrightarrow> k = k' \<and> s = s')"

definition fs_inv :: "IDKFS \<Rightarrow> bool" where
  "fs_inv fs \<longleftrightarrow> block_inv fs \<and> counted fs"

definition same_block :: "IDKFS \<Rightarrow> IDKFS \<Rightarrow> nat \<Rightarrow> bool" where
  "same_block fs fs' b \<longleftrightarrow>
     (\<forall>i < IDKFS_BLOCK_SIZE. disk fs' (block_ptr b + i) = disk fs (block_ptr b + i))"

text \<open>An operation on inode \<open>k\<close> leaves every other inode and every block of another inode alone.\<close>

definition others_kept :: "nat \<Rightarrow> IDKFS \<Rightarrow> IDKFS \<Rightarrow> bool" where
  "others_kept k fs fs' \<longleftrightarrow> (\<forall>k'. k' \<noteq> k \<longrightarrow> inodes fs' k' = inodes fs k')
     \<and> (\<forall>k' s b. k' \<noteq> k \<longrightarrow> owns fs k' s b \<longrightarrow> same_block fs fs' b)"

text \<open>Where the owned blocks lie: a step \<open>stays_low\<close> if it pushes no owned block past a limit below which a block is
  still free afterwards, and it \<open>allocates\<close> if moreover it frees no block.\<close>

definition below :: "nat \<Rightarrow> IDKFS \<Rightarrow> bool" where
  "below l fs \<longleftrightarrow> (\<forall>k s b. owns fs k s b \<longrightarrow> b < l)"

definition room_below :: "nat \<Rightarrow> IDKFS \<Rightarrow> bool" where
  "room_below l fs \<longleftrightarrow> (\<exists>x \<in> free_set (bitmap fs). x < l)"

definition stays_low :: "IDKFS \<Rightarrow> IDKFS \<Rightarrow> bool" where
  "stays_low fs fs' \<longleftrightarrow> (\<forall>l. below l fs \<longrightarrow> room_below l fs' \<longrightarrow> below l fs')"

definition allocates :: "IDKFS \<Rightarrow> IDKFS \<Rightarrow> bool" where
  "allocates fs fs' \<longleftrightarrow> free_set (bitmap fs') \<subseteq> free_set (bitmap fs) \<and> stays_low fs fs'"

definition unowned :: "IDKFS \<Rightarrow> nat \<Rightarrow> bool" where
  "unowned fs b \<longleftrightarrow> (\<forall>k s. \<not> owns fs k s b)"

subsection \<open>Consequences of the invariant\<close>

lemma card_free_set: "card (free_set bm) \<le> IDKFS_TOTAL_BLOCKS"
  using card_mono[of "{..<IDKFS_TOTAL_BLOCKS}" "free_set bm"] by (auto simp: free_set_def)

lemma counted_gap: "counted fs \<longleftrightarrow> free_gap fs = 0"
proof -
  have "unat (of_nat (card (free_set (bitmap fs))) :: u32) = card (free_set (bitmap fs))"
    using card_free_set[of "bitmap fs"] by (simp add: unat_of_nat take_bit_nat_eq_self)
  then show ?thesis unfolding counted_def free_gap_def by (metis eq_iff_diff_eq_0 word_unat_eq_iff)
qed

lemma fs_invD: "fs_inv fs \<Longrightarrow> block_inv fs" "fs_inv fs \<Longrightarrow> free_gap fs = 0"
  by (simp_all add: fs_inv_def counted_gap)

lemma fixedD:
  assumes "fixed fs' = fixed fs"
  shows "free_gap fs' = free_gap fs" "data_start fs' = data_start fs" "disk_size fs' = disk_size fs"
    "sb_magic (sb fs') = sb_magic (sb fs)" "sb_mount_count (sb fs') = sb_mount_count (sb fs)"
proof -
  have s: "(sb fs')\<lparr>sb_free_inodes := 0, sb_free_blocks := 0\<rparr> = (sb fs)\<lparr>sb_free_inodes := 0, sb_free_blocks := 0\<rparr>"
    using assms by (simp add: fixed_def)
  show "free_gap fs' = free_gap fs" "disk_size fs' = disk_size fs" using assms by (simp_all add: fixed_def)
  from arg_cong[OF s, of sb_data_start_block] arg_cong[OF s, of sb_magic] arg_cong[OF s, of sb_mount_count]
  show "data_start fs' = data_start fs" "sb_magic (sb fs') = sb_magic (sb fs)" "sb_mount_count (sb fs') = sb_mount_count (sb fs)"
    by (simp_all add: data_start_def)
qed

lemma fs_inv_step: "fs_inv fs \<Longrightarrow> block_inv fs' \<Longrightarrow> fixed fs' = fixed fs \<Longrightarrow> fs_inv fs'"
  by (drule fixedD(1)) (simp add: fs_inv_def counted_gap)

lemma fixed_counted: "fixed fs' = fixed fs \<Longrightarrow> counted fs' = counted fs"
  by (drule fixedD(1)) (simp add: counted_gap)

text \<open>A change that does not touch the bitmap or the superblock, or the free inodes only.\<close>

lemma fixed_cong:
  assumes "bitmap fs' = bitmap fs" "disk_size fs' = disk_size fs"
    and s: "(sb fs')\<lparr>sb_free_inodes := 0\<rparr> = (sb fs)\<lparr>sb_free_inodes := 0\<rparr>"
  shows "fixed fs' = fixed fs"
  using assms(1,2) arg_cong[OF s, of sb_free_blocks] arg_cong[OF s, of "\<lambda>x. x\<lparr>sb_free_blocks := 0\<rparr>"]
  by (simp add: fixed_def free_gap_def)

lemma fixed_simps [simp]:
  "fixed (upd_inode fs k f) = fixed fs" "fixed (fs\<lparr>disk := d\<rparr>) = fixed fs" "fixed (fs\<lparr>dirty := b\<rparr>) = fixed fs"
  "fixed (fs\<lparr>inodes := is\<rparr>) = fixed fs"
  by (rule fixed_cong; simp)+

lemma inv_geometry: "block_inv fs \<Longrightarrow> geometry fs"
  by (simp add: block_inv_def)

lemma inv_owned: "block_inv fs \<Longrightarrow> owns fs k s b \<Longrightarrow>
    b < IDKFS_TOTAL_BLOCKS \<and> used (bitmap fs) b \<and> data_start fs \<le> b \<and> b \<noteq> 0"
  by (force simp: block_inv_def geometry_def)

lemma inv_inj: "block_inv fs \<Longrightarrow> owns fs k s b \<Longrightarrow> owns fs k' s' b \<Longrightarrow> k = k' \<and> s = s'"
  unfolding block_inv_def by blast

lemma inv_free_unowned: "block_inv fs \<Longrightarrow> b \<in> free_set (bitmap fs) \<Longrightarrow> unowned fs b"
  by (auto simp: unowned_def free_set_def dest: inv_owned)

lemma inv_free_range: "block_inv fs \<Longrightarrow> b \<in> free_set (bitmap fs) \<Longrightarrow> b < IDKFS_TOTAL_BLOCKS \<and> data_start fs \<le> b"
  unfolding block_inv_def geometry_def free_set_def by (auto simp: not_less[symmetric])

lemma geometry_block_ok: "geometry fs \<Longrightarrow> b < IDKFS_TOTAL_BLOCKS \<Longrightarrow> block_ok fs b"
  by (simp add: geometry_def block_ok_def block_ptr_def)

lemma zero_unowned: "block_inv fs \<Longrightarrow> unowned fs 0"
  by (auto simp: unowned_def dest: inv_owned)

lemma same_block_refl [simp]: "same_block fs fs b"
  by (simp add: same_block_def)

lemma same_block_trans: "same_block fs fs1 b \<Longrightarrow> same_block fs1 fs2 b \<Longrightarrow> same_block fs fs2 b"
  by (simp add: same_block_def)

lemma same_block_ptr: "same_block fs fs' b \<Longrightarrow> j < IDKFS_PTRS_PER_BLOCK \<Longrightarrow> ptr_at fs' b j = ptr_at fs b j"
  unfolding ptr_at_def by (rule rd32_eq) (simp add: same_block_def add.assoc)

lemma slot_val_cong:
  assumes "i_direct (inodes fs' k) = i_direct (inodes fs k)" "i_indirect1 (inodes fs' k) = i_indirect1 (inodes fs k)"
    and "i_indirect1 (inodes fs k) \<noteq> IDKFS_NULL_BLOCK \<Longrightarrow> same_block fs fs' (unat (i_indirect1 (inodes fs k)))"
  shows "slot_val fs' k s = slot_val fs k s"
  using assms by (cases s) (auto simp: same_block_ptr)

lemma owns_SInd: "live fs k \<Longrightarrow> i_indirect1 (inodes fs k) \<noteq> IDKFS_NULL_BLOCK \<Longrightarrow>
    owns fs k SInd (unat (i_indirect1 (inodes fs k)))"
  by (simp add: owns_def)

lemma owns_cong:
  assumes "(i_link_count (inodes fs' k) = 0) = (i_link_count (inodes fs k) = 0)"
    and "i_direct (inodes fs' k) = i_direct (inodes fs k)" "i_indirect1 (inodes fs' k) = i_indirect1 (inodes fs k)"
    and "\<And>b. owns fs k SInd b \<Longrightarrow> same_block fs fs' b"
  shows "owns fs' k s b = owns fs k s b"
proof (cases "live fs k")
  case True
  then have "slot_val fs' k s = slot_val fs k s"
    using assms by (intro slot_val_cong) (auto intro: owns_SInd)
  with assms(1) show ?thesis by (simp add: owns_def live_def)
next
  case False
  with assms(1) show ?thesis by (auto simp: owns_def live_def)
qed

lemma others_kept_refl [simp]: "others_kept k fs fs"
  by (simp add: others_kept_def)

lemma others_kept_owns: "others_kept k fs fs' \<Longrightarrow> k' \<noteq> k \<Longrightarrow> owns fs' k' s b = owns fs k' s b"
  by (intro owns_cong) (auto simp: others_kept_def)

lemma others_kept_trans:
  assumes "others_kept k fs fs1" "others_kept k fs1 fs2"
  shows "others_kept k fs fs2"
  unfolding others_kept_def
proof (intro conjI allI impI)
  fix k' assume "k' \<noteq> k"
  with assms show "inodes fs2 k' = inodes fs k'" by (simp add: others_kept_def)
  fix s b assume "owns fs k' s b"
  with \<open>k' \<noteq> k\<close> assms show "same_block fs fs2 b"
    using others_kept_owns[OF assms(1) \<open>k' \<noteq> k\<close>, of s b] unfolding others_kept_def
    by (meson same_block_trans)
qed

lemma stays_low_then: "stays_low fs fs1 \<Longrightarrow> allocates fs1 fs2 \<Longrightarrow> stays_low fs fs2"
  by (fastforce simp: stays_low_def allocates_def room_below_def)

lemma allocates_low: "allocates fs fs' \<Longrightarrow> stays_low fs fs'"
  by (simp add: allocates_def)

lemma allocates_trans [trans]: "allocates fs fs1 \<Longrightarrow> allocates fs1 fs2 \<Longrightarrow> allocates fs fs2"
  using stays_low_then[of fs fs1 fs2] by (auto simp: allocates_def)

lemma stays_low_shrink: "(\<And>k s b. owns fs' k s b \<Longrightarrow> owns fs k s b) \<Longrightarrow> stays_low fs fs'"
  unfolding stays_low_def below_def by blast

lemma allocates_shrink: "bitmap fs' = bitmap fs \<Longrightarrow> (\<And>k s b. owns fs' k s b \<Longrightarrow> owns fs k s b) \<Longrightarrow> allocates fs fs'"
  by (simp add: allocates_def stays_low_shrink)

lemma allocates_refl [simp]: "allocates fs fs" "stays_low fs fs"
  by (rule allocates_shrink stays_low_shrink; simp)+

lemma stays_low_after: "(\<And>k s b. owns fs1 k s b = owns fs k s b) \<Longrightarrow> stays_low fs1 fs2 \<Longrightarrow> stays_low fs fs2"
  by (simp add: stays_low_def below_def)

section \<open>The elementary steps\<close>

subsection \<open>Writing a block\<close>

lemma block_zero_Some: "block_ok fs b \<Longrightarrow> block_zero fs b = Some (fs\<lparr>disk := memset (disk fs) (block_ptr b) 0 IDKFS_BLOCK_SIZE\<rparr>)"
  by (simp add: block_zero_def)

lemma block_write_Some: "block_ok fs b \<Longrightarrow> block_write fs b buf =
    Some (fs\<lparr>disk := memcpy (disk fs) (block_ptr b) buf 0 IDKFS_BLOCK_SIZE, dirty := True\<rparr>)"
  by (simp add: block_write_def)

lemma block_read_Some: "block_ok fs b \<Longrightarrow> block_read fs b = Some (memcpy zeros 0 (disk fs) (block_ptr b) IDKFS_BLOCK_SIZE)"
  by (simp add: block_read_def)

lemma rd32_block_read: "j < IDKFS_PTRS_PER_BLOCK \<Longrightarrow>
    rd32 (memcpy zeros 0 (disk fs) (block_ptr b) IDKFS_BLOCK_SIZE) (4 * j) = ptr_at fs b j"
  unfolding ptr_at_def by (rule rd32_eq) (simp add: mem_simps add.assoc)

lemma same_block_memset: "b \<noteq> b' \<Longrightarrow> disk fs' = memset (disk fs) (block_ptr b) 0 IDKFS_BLOCK_SIZE \<Longrightarrow> same_block fs fs' b'"
  unfolding same_block_def using block_disjoint[of b b'] by (simp add: mem_simps)

lemma same_block_memcpy: "b \<noteq> b' \<Longrightarrow> disk fs' = memcpy (disk fs) (block_ptr b) buf 0 IDKFS_BLOCK_SIZE \<Longrightarrow> same_block fs fs' b'"
  unfolding same_block_def using block_disjoint[of b b'] by (simp add: mem_simps)

lemma disk_same_block: "disk fs' = disk fs \<Longrightarrow> same_block fs fs' b"
  by (simp add: same_block_def)

subsection \<open>Steps that keep the ownership relation\<close>

lemma inv_keep:
  assumes "block_inv fs" "geometry fs'" "data_start fs' = data_start fs"
    and "\<And>k s b. owns fs' k s b \<Longrightarrow> owns fs k s b" "\<And>b. used (bitmap fs) b \<Longrightarrow> used (bitmap fs') b"
  shows "block_inv fs'"
  unfolding block_inv_def using assms inv_owned[OF assms(1)] inv_inj[OF assms(1)] by metis

lemma inv_keep_simple:
  assumes "block_inv fs" "sb fs' = sb fs" "bitmap fs' = bitmap fs" "disk_size fs' = disk_size fs"
    and "\<And>k s b. owns fs' k s b = owns fs k s b"
  shows "block_inv fs'"
  using assms by (intro inv_keep[OF assms(1)]) (simp_all add: block_inv_def geometry_def data_start_def)

text \<open>Changing fields of an inode other than its pointers, with the link count staying zero or nonzero.\<close>

lemma inv_upd_inode:
  assumes "block_inv fs"
    and "(i_link_count (f (inodes fs k)) = 0) = (i_link_count (inodes fs k) = 0)"
      "i_direct (f (inodes fs k)) = i_direct (inodes fs k)" "i_indirect1 (f (inodes fs k)) = i_indirect1 (inodes fs k)"
  shows "block_inv (upd_inode fs k f)" "others_kept k fs (upd_inode fs k f)"
    "owns (upd_inode fs k f) k' s b = owns fs k' s b" "allocates fs (upd_inode fs k f)"
proof -
  show o: "owns (upd_inode fs k f) k' s b = owns fs k' s b" for k' s b
    using assms(2-4) by (intro owns_cong) (auto simp: disk_same_block)
  show "block_inv (upd_inode fs k f)"
    by (rule inv_keep_simple[OF assms(1)]) (simp_all add: o)
  show "others_kept k fs (upd_inode fs k f)"
    by (auto simp: others_kept_def disk_same_block)
  show "allocates fs (upd_inode fs k f)" by (rule allocates_shrink) (simp_all add: o)
qed

text \<open>Overwriting a block that is no inode's indirect block and belongs to inode \<open>k\<close> or to nobody.\<close>

lemma inv_data_write:
  assumes inv: "block_inv fs"
    and mine: "\<And>k' s. owns fs k' s b \<Longrightarrow> k' = k \<and> s \<noteq> SInd"
    and fs': "fs' = fs\<lparr>disk := memcpy (disk fs) (block_ptr b) buf 0 IDKFS_BLOCK_SIZE, dirty := d\<rparr>"
  shows "block_inv fs'" "others_kept k fs fs'" "owns fs' k' s b' = owns fs k' s b'" "allocates fs fs'"
proof -
  have same: "same_block fs fs' b'" if "b' \<noteq> b" for b'
    using that by (intro same_block_memcpy[of b]) (auto simp: fs')
  show o: "owns fs' k' s b' = owns fs k' s b'" for k' s b'
  proof (rule owns_cong)
    show "same_block fs fs' x" if "owns fs k' SInd x" for x
      using that mine[of k' SInd] by (cases "x = b") (auto intro: same)
  qed (simp_all add: fs')
  show "block_inv fs'"
    by (rule inv_keep_simple[OF inv]) (simp_all only: o, simp_all add: fs')
  show "allocates fs fs'" by (rule allocates_shrink) (simp add: fs', simp only: o)
  show "others_kept k fs fs'"
    unfolding others_kept_def
  proof (intro conjI allI impI)
    show "same_block fs fs' x" if "k' \<noteq> k" "owns fs k' s x" for k' s x
      using that mine[of k' s] by (cases "x = b") (auto intro: same)
  qed (simp add: fs')
qed

subsection \<open>Taking a fresh block\<close>

text \<open>\<open>took fs b fs'\<close>: \<open>alloc_zeroed\<close> took the first free block \<open>b\<close>, which no slot points to yet.\<close>

definition took :: "IDKFS \<Rightarrow> nat \<Rightarrow> IDKFS \<Rightarrow> bool" where
  "took fs b fs' \<longleftrightarrow> b \<in> free_set (bitmap fs) \<and> (\<forall>x \<in> free_set (bitmap fs). b \<le> x) \<and> free_set (bitmap fs') = free_set (bitmap fs) - {b}
     \<and> inodes fs' = inodes fs \<and> disk fs' = memset (disk fs) (block_ptr b) 0 IDKFS_BLOCK_SIZE
     \<and> block_inv fs' \<and> data_start fs' = data_start fs \<and> features fs' = features fs \<and> used (bitmap fs') b
     \<and> unowned fs' b \<and> fixed fs' = fixed fs \<and> (\<forall>k. others_kept k fs fs') \<and> (\<forall>k s b'. owns fs' k s b' = owns fs k s b')"

text \<open>The state after \<open>b\<close> is marked, zeroed and counted.\<close>

lemma took_block:
  assumes inv: "block_inv fs" and bf: "b \<in> free_set (bitmap fs)" "\<forall>x \<in> free_set (bitmap fs). b \<le> x"
    and bm: "\<And>x. used bm x = (x = b \<or> used (bitmap fs) x)"
  defines "fs' \<equiv> dec_free_blocks (fs\<lparr>bitmap := bm, disk := memset (disk fs) (block_ptr b) 0 IDKFS_BLOCK_SIZE\<rparr>)"
  shows "took fs b fs'"
proof -
  have u: "used (bitmap fs') x = (x = b \<or> used (bitmap fs) x)" for x using bm by (simp add: fs'_def)
  have fr: "free_set (bitmap fs') = free_set (bitmap fs) - {b}" using u by (auto simp: free_set_def)
  have un: "unowned fs b" by (rule inv_free_unowned[OF inv bf(1)])
  have same: "same_block fs fs' x" if "owns fs k s x" for k s x
    using that un by (cases "x = b") (auto simp: unowned_def fs'_def intro!: same_block_memset[of b])
  have o: "owns fs' k s b' = owns fs k s b'" for k s b'
    by (rule owns_cong) (simp_all add: same, simp_all add: fs'_def)
  have "card (free_set (bitmap fs)) = Suc (card (free_set (bitmap fs')))"
    unfolding fr by (rule card.remove[OF finite_free_set bf(1)])
  then have "free_gap fs' = free_gap fs" by (simp add: free_gap_def) (simp add: fs'_def)
  then have fixed: "fixed fs' = fixed fs" by (simp add: fixed_def) (simp add: fs'_def dec_free_blocks_def)
  have ds: "data_start fs' = data_start fs"
    by (simp add: fs'_def data_start_def)
  have "geometry fs'"
    using inv_geometry[OF inv] u by (simp add: geometry_def ds) (simp add: fs'_def)
  then have inv': "block_inv fs'"
    by (intro inv_keep[OF inv]) (simp_all add: o u ds)
  have "others_kept k fs fs'" for k
    unfolding others_kept_def using same by (simp add: fs'_def)
  with bf fr inv' un o u ds fixed show ?thesis
    unfolding took_def unowned_def by (simp add: fs'_def)
qed

lemma took_allocates: "took fs b fs' \<Longrightarrow> allocates fs fs'"
  by (auto simp: took_def allocates_def stays_low_def below_def)

lemma alloc_zeroed_cases:
  assumes inv: "block_inv fs"
  obtains (full) "alloc_zeroed fs = Some (fs, - 1)" "free_set (bitmap fs) = {}"
    | (got) fs' b where "alloc_zeroed fs = Some (fs', int b)" "took fs b fs'"
proof -
  have h: "unat (sb_data_start_block (sb fs)) \<le> IDKFS_TOTAL_BLOCKS" and g: "geometry fs"
    using inv by (auto simp: block_inv_def geometry_def data_start_def)
  show thesis
  proof (cases rule: bitmap_alloc_spec[OF h, of "bitmap fs"])
    case 1
    then show thesis by (intro full) (simp_all add: alloc_zeroed_def free_set_def)
  next
    case (2 bm' b)
    have ok: "block_ok (fs\<lparr>bitmap := bm'\<rparr>) b"
      using geometry_block_ok[OF g 2(2)] by (simp add: block_ok_def)
    have "b \<in> free_set (bitmap fs)" using 2 by (simp add: free_set_def)
    moreover from this have "data_start fs \<le> b" using inv_free_range[OF inv] by blast
    then have first: "\<forall>j. data_start fs \<le> j \<longrightarrow> j < b \<longrightarrow> used (bitmap fs) j" using 2(5) by (simp add: data_start_def)
    have "\<forall>x \<in> free_set (bitmap fs). b \<le> x"
    proof
      fix x assume x: "x \<in> free_set (bitmap fs)"
      then have "data_start fs \<le> x" "\<not> used (bitmap fs) x" using inv_free_range[OF inv x] by (simp_all add: free_set_def)
      with first show "b \<le> x" by (metis not_le_imp_less)
    qed
    ultimately have "took fs b (dec_free_blocks (fs\<lparr>bitmap := bm', disk := memset (disk fs) (block_ptr b) 0 IDKFS_BLOCK_SIZE\<rparr>))"
      by (rule took_block[OF inv _ _ bitmap_set_used[OF 2(4)]])
    with 2(1) show thesis
      by (intro got) (simp_all add: alloc_zeroed_def block_zero_Some[OF ok])
  qed
qed

end
