(* ===== verification/Core_Write.thy ===== *)
theory Core_Write
  imports Core_Inv
begin

text \<open>
  \<open>inode_map_block\<close> and \<open>idkfs_write\<close> under the ownership invariant, for every offset and length:
  no undefined access, the invariant is kept, and no other file is touched.
\<close>

section \<open>Attaching a fresh block to a slot\<close>

lemma block_word: "b < IDKFS_TOTAL_BLOCKS \<Longrightarrow> unat (word_of_nat b :: u32) = b"
  by (simp add: unat_of_nat take_bit_nat_eq_self)

lemma block_word_not_null: "b < IDKFS_TOTAL_BLOCKS \<Longrightarrow> (word_of_nat b :: u32) \<noteq> IDKFS_NULL_BLOCK"
proof
  assume "b < IDKFS_TOTAL_BLOCKS" and "(word_of_nat b :: u32) = IDKFS_NULL_BLOCK"
  then have "b = unat (- 1 :: u32)"
    using block_word[of b] by (simp add: IDKFS_NULL_BLOCK_def)
  with \<open>b < IDKFS_TOTAL_BLOCKS\<close> show False
    by (simp add: unsigned_minus_1_eq_mask mask_eq_exp_minus_1)
qed

lemma block_word_zero: "b < IDKFS_TOTAL_BLOCKS \<Longrightarrow> 0 < b \<Longrightarrow> (word_of_nat b :: u32) \<noteq> 0"
  using block_word[of b] by auto

definition spare :: "IDKFS \<Rightarrow> nat \<Rightarrow> bool" where
  "spare fs b \<longleftrightarrow> b < IDKFS_TOTAL_BLOCKS \<and> used (bitmap fs) b \<and> data_start fs \<le> b \<and> 0 < b \<and> unowned fs b
     \<and> (\<forall>x \<in> free_set (bitmap fs). b < x)"

lemma took_spare: "block_inv fs \<Longrightarrow> took fs b fs' \<Longrightarrow> spare fs' b"
  using inv_free_range[of fs b]
  by (auto simp: took_def spare_def block_inv_def geometry_def)

lemma took_keeps_spare: "took fs b fs' \<Longrightarrow> spare fs c \<Longrightarrow> spare fs' c"
  by (auto simp: took_def spare_def unowned_def free_set_def set_eq_iff)

lemma took_zero: "took fs b fs' \<Longrightarrow> j < IDKFS_PTRS_PER_BLOCK \<Longrightarrow> ptr_at fs' b j = 0"
  by (simp add: took_def ptr_at_def rd32_def memset_def)

lemma inv_attach:
  assumes inv: "block_inv fs" and same: "sb fs' = sb fs" "bitmap fs' = bitmap fs" "disk_size fs' = disk_size fs"
    and b: "spare fs b"
    and owns: "\<And>k' s x. owns fs' k' s x \<Longrightarrow> owns fs k' s x \<or> k' = k \<and> s = s0 \<and> x = b"
  shows "block_inv fs'"
proof -
  have ds: "data_start fs' = data_start fs" by (simp add: data_start_def same)
  have "x < IDKFS_TOTAL_BLOCKS \<and> used (bitmap fs') x \<and> data_start fs' \<le> x" if "owns fs' k' s x" for k' s x
    using owns[OF that] inv_owned[OF inv, of k' s x] b by (auto simp: same ds spare_def)
  moreover have "k1 = k2 \<and> s1 = s2" if "owns fs' k1 s1 x" "owns fs' k2 s2 x" for k1 s1 k2 s2 x
    using owns[OF that(1)] owns[OF that(2)] inv_inj[OF inv, of k1 s1 x k2 s2] b
    by (auto simp: spare_def unowned_def)
  ultimately show ?thesis
    using inv unfolding block_inv_def geometry_def ds same by blast
qed

text \<open>What each way of attaching gives: the invariant, the frame, and the ownership of the block.\<close>

definition attached :: "nat \<Rightarrow> slot \<Rightarrow> nat \<Rightarrow> IDKFS \<Rightarrow> IDKFS \<Rightarrow> bool" where
  "attached k s b fs fs' \<longleftrightarrow> block_inv fs' \<and> others_kept k fs fs' \<and> owns fs' k s b
     \<and> sb fs' = sb fs \<and> bitmap fs' = bitmap fs \<and> features fs' = features fs \<and> disk_size fs' = disk_size fs
     \<and> allocates fs fs' \<and> (\<forall>c. spare fs c \<longrightarrow> c \<noteq> b \<longrightarrow> spare fs' c)"

lemma attachedI:
  assumes "block_inv fs" "sb fs' = sb fs" "bitmap fs' = bitmap fs" "disk_size fs' = disk_size fs"
    "features fs' = features fs" "spare fs b" "others_kept k fs fs'" "owns fs' k s b"
    and owns: "\<And>k' s' x. owns fs' k' s' x \<Longrightarrow> owns fs k' s' x \<or> k' = k \<and> s' = s \<and> x = b"
  shows "attached k s b fs fs'"
proof -
  have "block_inv fs'"
    using assms(1-4,6) owns by (rule inv_attach)
  moreover have "spare fs' c" if "spare fs c" "c \<noteq> b" for c
    using that assms(2,3) owns[of _ _ c] by (fastforce simp: spare_def unowned_def data_start_def)
  moreover have "allocates fs fs'"
    using owns assms(3,6) unfolding allocates_def stays_low_def below_def room_below_def spare_def by (metis order.refl less_trans)
  ultimately show ?thesis
    using assms by (simp add: attached_def)
qed

lemma attach_direct:
  assumes inv: "block_inv fs" and live: "live fs k" and b: "spare fs b" and j: "j < IDKFS_DIRECT_BLOCKS"
  shows "attached k (SDirect j) b fs (upd_inode fs k (\<lambda>i. i\<lparr>i_direct := (i_direct i)(j := word_of_nat b)\<rparr>))"
    (is "attached _ _ _ _ ?fs'")
proof (rule attachedI[OF inv _ _ _ _ b])
  have w: "unat (word_of_nat b :: u32) = b" "(word_of_nat b :: u32) \<noteq> IDKFS_NULL_BLOCK"
    using b by (simp_all add: spare_def block_word block_word_not_null)
  show "others_kept k fs ?fs'"
    by (simp add: others_kept_def disk_same_block)
  show "owns ?fs' k (SDirect j) b"
    using live j w by (simp add: owns_def live_def)
  show "owns fs k' s x \<or> k' = k \<and> s = SDirect j \<and> x = b" if "owns ?fs' k' s x" for k' s x
    using that w by (cases s) (auto simp: owns_def live_def ptr_at_def split: if_splits)
qed simp_all

lemma attach_ind:
  assumes inv: "block_inv fs" and live: "live fs k" and b: "spare fs b"
    and zero: "\<And>j. j < IDKFS_PTRS_PER_BLOCK \<Longrightarrow> ptr_at fs b j = 0"
  shows "attached k SInd b fs (upd_inode fs k (\<lambda>i. i\<lparr>i_indirect1 := word_of_nat b\<rparr>))"
    (is "attached _ _ _ _ ?fs'")
proof (rule attachedI[OF inv _ _ _ _ b])
  have w: "unat (word_of_nat b :: u32) = b" "(word_of_nat b :: u32) \<noteq> IDKFS_NULL_BLOCK"
    using b by (simp_all add: spare_def block_word block_word_not_null)
  show "others_kept k fs ?fs'"
    by (simp add: others_kept_def disk_same_block)
  show "owns ?fs' k SInd b"
    using live w by (simp add: owns_def live_def)
  show "owns fs k' s x \<or> k' = k \<and> s = SInd \<and> x = b" if "owns ?fs' k' s x" for k' s x
    using that w zero by (cases s) (auto simp: owns_def live_def ptr_at_def split: if_splits)
qed simp_all

lemma ptr_at_write:
  assumes "disk fs' = memcpy (disk fs) (block_ptr b)
      (wr32 (memcpy zeros 0 (disk fs) (block_ptr b) IDKFS_BLOCK_SIZE) (4 * idx) w) 0 IDKFS_BLOCK_SIZE"
    and "idx < IDKFS_PTRS_PER_BLOCK" "j < IDKFS_PTRS_PER_BLOCK"
  shows "ptr_at fs' b j = (if j = idx then w else ptr_at fs b j)"
proof -
  let ?ptrs = "memcpy zeros 0 (disk fs) (block_ptr b) IDKFS_BLOCK_SIZE"
  have "ptr_at fs' b j = rd32 (wr32 ?ptrs (4 * idx) w) (4 * j)"
    unfolding ptr_at_def assms(1) by (rule rd32_eq) (use assms(3) in \<open>simp add: mem_simps add.assoc\<close>)
  also have "\<dots> = (if j = idx then w else rd32 ?ptrs (4 * j))"
  proof (cases "j = idx")
    case False
    then have "4 * j + 4 \<le> 4 * idx \<or> 4 * idx + 4 \<le> 4 * j" by linarith
    with False show ?thesis by (simp add: rd32_wr32_other)
  qed (simp add: rd32_wr32_same)
  finally show ?thesis
    using assms(3) by (simp add: rd32_block_read)
qed

lemma attach_ptr:
  assumes inv: "block_inv fs" and ind: "owns fs k SInd ind" and b: "spare fs b" and idx: "idx < IDKFS_PTRS_PER_BLOCK"
  shows "attached k (SPtr idx) b fs (fs\<lparr>disk := memcpy (disk fs) (block_ptr ind)
      (wr32 (memcpy zeros 0 (disk fs) (block_ptr ind) IDKFS_BLOCK_SIZE) (4 * idx) (word_of_nat b)) 0 IDKFS_BLOCK_SIZE,
      dirty := True\<rparr>)"
    (is "attached _ _ _ _ ?fs'")
proof (rule attachedI[OF inv _ _ _ _ b])
  have w: "unat (word_of_nat b :: u32) = b" "(word_of_nat b :: u32) \<noteq> IDKFS_NULL_BLOCK"
    "(word_of_nat b :: u32) \<noteq> 0"
    using b by (simp_all add: spare_def block_word block_word_not_null block_word_zero)
  have i: "live fs k" "i_indirect1 (inodes fs k) \<noteq> IDKFS_NULL_BLOCK" "unat (i_indirect1 (inodes fs k)) = ind"
    using ind by (simp_all add: owns_def)
  have ptr: "ptr_at ?fs' ind j = (if j = idx then word_of_nat b else ptr_at fs ind j)"
    if "j < IDKFS_PTRS_PER_BLOCK" for j
    by (rule ptr_at_write[OF _ idx that]) simp
  have same: "same_block fs ?fs' x" if "x \<noteq> ind" for x
    using that by (intro same_block_memcpy[of ind]) auto
  show keep: "others_kept k fs ?fs'"
    unfolding others_kept_def
  proof (intro conjI allI impI)
    show "same_block fs ?fs' x" if "k' \<noteq> k" "owns fs k' s x" for k' s x
      using that inv_inj[OF inv ind, of k' s] by (cases "x = ind") (auto intro: same)
  qed simp
  show "owns ?fs' k (SPtr idx) b"
    using i w idx ptr[OF idx] by (simp add: owns_def live_def)
  show "owns fs k' s x \<or> k' = k \<and> s = SPtr idx \<and> x = b" if o: "owns ?fs' k' s x" for k' s x
  proof (cases "k' = k")
    case True
    with o i w ptr show ?thesis
      by (cases s) (auto simp: owns_def live_def split: if_splits)
  next
    case False
    with o others_kept_owns[OF keep] show ?thesis by blast
  qed
qed simp_all

section \<open>Steps of a write\<close>

text \<open>What every step of a write to inode \<open>k\<close> keeps.\<close>

definition step_kept :: "nat \<Rightarrow> IDKFS \<Rightarrow> IDKFS \<Rightarrow> bool" where
  "step_kept k fs fs' \<longleftrightarrow> block_inv fs' \<and> others_kept k fs fs' \<and> features fs' = features fs
     \<and> data_start fs' = data_start fs \<and> sb_free_inodes (sb fs') = sb_free_inodes (sb fs)
     \<and> i_size (inodes fs' k) = i_size (inodes fs k) \<and> i_type (inodes fs' k) = i_type (inodes fs k)
     \<and> i_link_count (inodes fs' k) = i_link_count (inodes fs k) \<and> fixed fs' = fixed fs"

definition step_ok :: "nat \<Rightarrow> IDKFS \<Rightarrow> IDKFS \<Rightarrow> bool" where
  "step_ok k fs fs' \<longleftrightarrow> step_kept k fs fs' \<and> allocates fs fs'"

lemma step_kept_refl: "block_inv fs \<Longrightarrow> step_kept k fs fs"
  by (simp add: step_kept_def)

lemma step_kept_trans: "step_kept k fs fs1 \<Longrightarrow> step_kept k fs1 fs2 \<Longrightarrow> step_kept k fs fs2"
  by (auto simp: step_kept_def intro: others_kept_trans)

lemma step_kept_inv: "step_kept k fs fs' \<Longrightarrow> block_inv fs'"
  by (simp add: step_kept_def)

lemma step_kept_live: "step_kept k fs fs' \<Longrightarrow> live fs' k = live fs k"
  by (simp add: step_kept_def live_def)

lemma step_ok_refl: "block_inv fs \<Longrightarrow> step_ok k fs fs"
  by (simp add: step_ok_def step_kept_refl)

lemma step_ok_trans: "step_ok k fs fs1 \<Longrightarrow> step_ok k fs1 fs2 \<Longrightarrow> step_ok k fs fs2"
  by (auto simp: step_ok_def intro: step_kept_trans allocates_trans)

lemma step_ok_inv: "step_ok k fs fs' \<Longrightarrow> block_inv fs'"
  by (auto simp: step_ok_def dest: step_kept_inv)

lemma step_ok_live: "step_ok k fs fs' \<Longrightarrow> live fs' k = live fs k"
  by (simp add: step_ok_def step_kept_live)

lemma alloc_zeroed_inodes: "alloc_zeroed fs = Some (fs', r) \<Longrightarrow>
    sb_free_inodes (sb fs') = sb_free_inodes (sb fs) \<and> sb_data_start_block (sb fs') = sb_data_start_block (sb fs)"
  by (auto simp: alloc_zeroed_def block_zero_def dec_free_blocks_def Let_def bind_eq_Some_conv
      split: prod.splits if_splits)

lemma took_step:
  assumes "alloc_zeroed fs = Some (fs', int b)" "took fs b fs'"
  shows "step_ok k fs fs'"
  using assms alloc_zeroed_inodes[OF assms(1)] took_allocates[OF assms(2)] by (simp add: step_ok_def step_kept_def took_def)

lemma attached_step:
  assumes "attached k s b fs fs'"
    and "i_size (inodes fs' k) = i_size (inodes fs k)" "i_type (inodes fs' k) = i_type (inodes fs k)"
      "i_link_count (inodes fs' k) = i_link_count (inodes fs k)"
  shows "step_ok k fs fs'"
  using assms fixed_cong[of fs' fs] by (simp add: step_ok_def step_kept_def attached_def data_start_def)

text \<open>The two-level part of \<open>inode_map_block\<close>: from a state in which \<open>nb\<close> has been taken.\<close>

lemma map_indirect:
  assumes inv: "block_inv fs" and live: "live fs k" and b: "spare fs b" and idx: "idx < IDKFS_PTRS_PER_BLOCK"
    and ind: "i_indirect1 (inodes fs k) \<noteq> IDKFS_NULL_BLOCK"
  shows "\<exists>fs'. (do { ptrs \<leftarrow> block_read fs (unat (i_indirect1 (inodes fs k)));
               fs \<leftarrow> block_write fs (unat (i_indirect1 (inodes fs k))) (wr32 ptrs (4 * idx) (word_of_nat b));
               Some (fs, int b) }) = Some (fs', int b) \<and> step_ok k fs fs' \<and> owns fs' k (SPtr idx) b"
proof -
  let ?i = "unat (i_indirect1 (inodes fs k))"
  have o: "owns fs k SInd ?i"
    using live ind by (rule owns_SInd)
  have "block_ok fs ?i"
    using inv_geometry[OF inv] inv_owned[OF inv o] by (intro geometry_block_ok) simp_all
  then show ?thesis
    using attach_ptr[OF inv o b idx] attached_step[OF attach_ptr[OF inv o b idx]]
    by (simp add: block_read_Some block_write_Some attached_def)
qed

text \<open>The pointer goes to an indirect block \<open>ib\<close> that is allocated for it.\<close>

lemma map_new_indirect:
  assumes inv: "block_inv fs1" and live: "live fs1 k" and sp: "spare fs1 b"
    and got: "alloc_zeroed fs1 = Some (fs2, int ib)" "took fs1 ib fs2" and idx: "idx < IDKFS_PTRS_PER_BLOCK"
  defines "fs3 \<equiv> upd_inode fs2 k (\<lambda>i. i\<lparr>i_indirect1 := word_of_nat ib\<rparr>)"
  shows "\<exists>fs4. (do { ptrs \<leftarrow> block_read fs3 (unat (i_indirect1 (inodes fs3 k)));
               fs \<leftarrow> block_write fs3 (unat (i_indirect1 (inodes fs3 k))) (wr32 ptrs (4 * idx) (word_of_nat b));
               Some (fs, int b) }) = Some (fs4, int b)
    \<and> step_ok k fs1 fs4 \<and> owns fs4 k (SPtr idx) b"
proof -
  note s2 = took_step[OF got, of k]
  have inv2: "block_inv fs2" and live2: "live fs2 k"
    using s2 live by (simp_all add: step_ok_inv step_ok_live)
  have sp2: "spare fs2 ib" and spb: "spare fs2 b" and ne: "b \<noteq> ib"
    using took_spare[OF inv got(2)] took_keeps_spare[OF got(2) sp] got(2) sp
    by (auto simp: spare_def took_def free_set_def)
  have a: "attached k SInd ib fs2 fs3"
    unfolding fs3_def by (rule attach_ind[OF inv2 live2 sp2 took_zero[OF got(2)]])
  then have s3: "step_ok k fs2 fs3" by (rule attached_step) (simp_all add: fs3_def)
  have inv3: "block_inv fs3" and live3: "live fs3 k" and sp3: "spare fs3 b"
    using s3 live2 a spb ne by (simp_all add: step_ok_inv step_ok_live attached_def)
  have ib: "i_indirect1 (inodes fs3 k) = word_of_nat ib" "(word_of_nat ib :: u32) \<noteq> IDKFS_NULL_BLOCK"
    using sp2 by (simp_all add: spare_def block_word_not_null fs3_def)
  obtain fs4 where "(do { ptrs \<leftarrow> block_read fs3 (unat (i_indirect1 (inodes fs3 k)));
               fs \<leftarrow> block_write fs3 (unat (i_indirect1 (inodes fs3 k))) (wr32 ptrs (4 * idx) (word_of_nat b));
               Some (fs, int b) }) = Some (fs4, int b)" and s4: "step_ok k fs3 fs4" and o: "owns fs4 k (SPtr idx) b"
    using map_indirect[OF inv3 live3 sp3 idx] ib by auto
  with step_ok_trans[OF s2 step_ok_trans[OF s3 s4]] show ?thesis by blast
qed

lemma inode_map_block_spec:
  assumes inv: "block_inv fs" and live: "live fs k"
  shows "\<exists>fs' r. inode_map_block fs k l = Some (fs', r) \<and> step_ok k fs fs' \<and>
    (0 \<le> r \<longrightarrow> (\<exists>s. s \<noteq> SInd \<and> owns fs' k s (nat r)))"
proof (cases rule: alloc_zeroed_cases[OF inv])
  case 1
  then show ?thesis by (auto simp: inode_map_block_def step_ok_refl[OF inv])
next
  case (2 fs1 b)
  note got = 2
  note s1 = took_step[OF got, of k]
  have inv1: "block_inv fs1" and live1: "live fs1 k"
    using s1 live by (simp_all add: step_ok_inv step_ok_live)
  have at: "inode_at fs1 k = Some (inodes fs1 k)"
    using live1 by (simp add: inode_at_def live_def)
  have sp: "spare fs1 b" by (rule took_spare[OF inv got(2)])
  consider (direct) "l < IDKFS_DIRECT_BLOCKS" | (big) "IDKFS_DIRECT_BLOCKS \<le> l" "\<not> l - IDKFS_DIRECT_BLOCKS < IDKFS_PTRS_PER_BLOCK"
    | (ind) "IDKFS_DIRECT_BLOCKS \<le> l" "l - IDKFS_DIRECT_BLOCKS < IDKFS_PTRS_PER_BLOCK" "i_indirect1 (inodes fs1 k) \<noteq> IDKFS_NULL_BLOCK"
    | (new) "IDKFS_DIRECT_BLOCKS \<le> l" "l - IDKFS_DIRECT_BLOCKS < IDKFS_PTRS_PER_BLOCK" "i_indirect1 (inodes fs1 k) = IDKFS_NULL_BLOCK"
    by fastforce
  then show ?thesis
  proof cases
    case direct
    let ?fs2 = "upd_inode fs1 k (\<lambda>i. i\<lparr>i_direct := (i_direct i)(l := word_of_nat b)\<rparr>)"
    have a: "attached k (SDirect l) b fs1 ?fs2" by (rule attach_direct[OF inv1 live1 sp direct])
    then have "step_ok k fs1 ?fs2" "owns ?fs2 k (SDirect l) b"
      by (auto intro: attached_step simp: attached_def)
    with direct got at show ?thesis
      by (auto simp: inode_map_block_def intro!: step_ok_trans[OF s1] exI[of _ "SDirect l"])
  next
    case big
    with got at s1 show ?thesis by (simp add: inode_map_block_def Let_def)
  next
    case ind
    obtain fs2 where "(do { ptrs \<leftarrow> block_read fs1 (unat (i_indirect1 (inodes fs1 k)));
               fs \<leftarrow> block_write fs1 (unat (i_indirect1 (inodes fs1 k))) (wr32 ptrs (4 * (l - IDKFS_DIRECT_BLOCKS)) (word_of_nat b));
               Some (fs, int b) }) = Some (fs2, int b)"
      and "step_ok k fs1 fs2" "owns fs2 k (SPtr (l - IDKFS_DIRECT_BLOCKS)) b"
      using map_indirect[OF inv1 live1 sp ind(2,3)] by blast
    with ind got at show ?thesis
      by (auto simp: inode_map_block_def Let_def intro!: step_ok_trans[OF s1] exI[of _ "SPtr (l - IDKFS_DIRECT_BLOCKS)"])
  next
    case new
    show ?thesis
    proof (cases rule: alloc_zeroed_cases[OF inv1])
      case 1
      with new got at s1 show ?thesis by (simp add: inode_map_block_def Let_def)
    next
      case (2 fs2 ib)
      let ?fs3 = "upd_inode fs2 k (\<lambda>i. i\<lparr>i_indirect1 := word_of_nat ib\<rparr>)"
      obtain fs4 where m: "(do { ptrs \<leftarrow> block_read ?fs3 (unat (i_indirect1 (inodes ?fs3 k)));
               fs \<leftarrow> block_write ?fs3 (unat (i_indirect1 (inodes ?fs3 k))) (wr32 ptrs (4 * (l - IDKFS_DIRECT_BLOCKS)) (word_of_nat b));
               Some (fs, int b) }) = Some (fs4, int b)"
        and s4: "step_ok k fs1 fs4" and o: "owns fs4 k (SPtr (l - IDKFS_DIRECT_BLOCKS)) b"
        using map_new_indirect[OF inv1 live1 sp 2 new(2)] by blast
      have "inode_map_block fs k l = Some (fs4, int b)"
        using new got(1) 2(1) at m by (simp add: inode_map_block_def Let_def)
      with o step_ok_trans[OF s1 s4] show ?thesis
        by (intro exI[of _ fs4] exI[of _ "int b"]) auto
    qed
  qed
qed

section \<open>The write loop\<close>

text \<open>A block that a write to inode \<open>k\<close> may overwrite: on the disk, no other inode's, and not an
  indirect block. The zero pointers of a fresh indirect block make block 0 one of these.\<close>

definition writable :: "IDKFS \<Rightarrow> nat \<Rightarrow> nat \<Rightarrow> bool" where
  "writable fs k b \<longleftrightarrow> b < IDKFS_TOTAL_BLOCKS \<and> (\<forall>k' s. owns fs k' s b \<longrightarrow> k' = k \<and> s \<noteq> SInd)"

lemma owned_writable: "block_inv fs \<Longrightarrow> owns fs k s b \<Longrightarrow> s \<noteq> SInd \<Longrightarrow> writable fs k b"
  unfolding writable_def using inv_owned inv_inj by metis

lemma zero_writable: "block_inv fs \<Longrightarrow> writable fs k 0"
  using zero_unowned[of fs] by (auto simp: writable_def unowned_def)

lemma inode_get_block_spec:
  assumes inv: "block_inv fs" and live: "live fs k"
  shows "\<exists>w. inode_get_block fs k l = Some w \<and> (w \<noteq> IDKFS_NULL_BLOCK \<longrightarrow> writable fs k (unat w))"
proof -
  have at: "inode_at fs k = Some (inodes fs k)"
    using live by (simp add: inode_at_def live_def)
  consider (direct) "l < IDKFS_DIRECT_BLOCKS" | (none) "IDKFS_DIRECT_BLOCKS \<le> l"
      "\<not> l - IDKFS_DIRECT_BLOCKS < IDKFS_PTRS_PER_BLOCK \<or> i_indirect1 (inodes fs k) = IDKFS_NULL_BLOCK"
    | (ind) "IDKFS_DIRECT_BLOCKS \<le> l" "l - IDKFS_DIRECT_BLOCKS < IDKFS_PTRS_PER_BLOCK" "i_indirect1 (inodes fs k) \<noteq> IDKFS_NULL_BLOCK"
    by fastforce
  then show ?thesis
  proof cases
    case direct
    have "writable fs k (unat (i_direct (inodes fs k) l))" if "i_direct (inodes fs k) l \<noteq> IDKFS_NULL_BLOCK"
      using that direct live by (intro owned_writable[OF inv, of k "SDirect l"]) (simp_all add: owns_def)
    with direct at show ?thesis by (simp add: inode_get_block_def)
  next
    case none
    with at show ?thesis by (auto simp: inode_get_block_def Let_def)
  next
    case ind
    let ?i = "unat (i_indirect1 (inodes fs k))" and ?j = "l - IDKFS_DIRECT_BLOCKS"
    have o: "owns fs k SInd ?i" using live ind(3) by (rule owns_SInd)
    have "block_ok fs ?i"
      using inv_geometry[OF inv] inv_owned[OF inv o] by (intro geometry_block_ok) simp_all
    then have "inode_get_block fs k l = Some (ptr_at fs ?i ?j)"
      using ind at by (simp add: inode_get_block_def Let_def block_read_Some rd32_block_read)
    moreover have "writable fs k (unat (ptr_at fs ?i ?j))" if "ptr_at fs ?i ?j \<noteq> IDKFS_NULL_BLOCK"
    proof (cases "ptr_at fs ?i ?j = 0")
      case False
      then show ?thesis
        using that ind live by (intro owned_writable[OF inv, of k "SPtr ?j"]) (simp_all add: owns_def)
    qed (simp add: zero_writable[OF inv])
    ultimately show ?thesis by simp
  qed
qed

lemma step_ok_upd_inode:
  assumes "block_inv fs" and "\<And>i. i_link_count (f i) = i_link_count i \<and> i_direct (f i) = i_direct i
      \<and> i_indirect1 (f i) = i_indirect1 i \<and> i_size (f i) = i_size i \<and> i_type (f i) = i_type i"
  shows "step_ok k fs (upd_inode fs k f)"
  using assms inv_upd_inode[OF assms(1), of f k] by (simp add: step_ok_def step_kept_def data_start_def)

lemma write_target_spec:
  assumes inv: "block_inv fs" and live: "live fs k"
  shows "\<exists>fs' t. write_target fs k l = Some (fs', t) \<and> step_ok k fs fs' \<and>
    (\<forall>db. t = Some db \<longrightarrow> writable fs' k db)"
proof -
  obtain w where w: "inode_get_block fs k l = Some w" "w \<noteq> IDKFS_NULL_BLOCK \<longrightarrow> writable fs k (unat w)"
    using inode_get_block_spec[OF inv live] by blast
  show ?thesis
  proof (cases "w = IDKFS_NULL_BLOCK")
    case False
    with w show ?thesis by (simp add: write_target_def step_ok_refl[OF inv])
  next
    case True
    obtain fs1 r where m: "inode_map_block fs k l = Some (fs1, r)" and s1: "step_ok k fs fs1"
      and o: "0 \<le> r \<longrightarrow> (\<exists>s. s \<noteq> SInd \<and> owns fs1 k s (nat r))"
      using inode_map_block_spec[OF inv live] by blast
    let ?f = "\<lambda>i. i\<lparr>i_block_count := i_block_count i + 1\<rparr>"
    have s2: "step_ok k fs1 (upd_inode fs1 k ?f)"
      by (rule step_ok_upd_inode[OF step_ok_inv[OF s1]]) simp
    have "writable (upd_inode fs1 k ?f) k (nat r)" if r: "0 \<le> r"
    proof -
      obtain s where "s \<noteq> SInd" "owns fs1 k s (nat r)" using o r by blast
      then show ?thesis
        using inv_upd_inode(3)[OF step_ok_inv[OF s1], of ?f k]
        by (intro owned_writable[OF step_ok_inv[OF s2]]) simp_all
    qed
    with True w m s1 step_ok_trans[OF s1 s2] show ?thesis
      by (simp add: write_target_def)
  qed
qed

lemma data_write_step:
  assumes inv: "block_inv fs" and w: "writable fs k db"
  shows "\<exists>fs'. block_write fs db buf = Some fs' \<and> step_ok k fs fs'
    \<and> fs' = fs\<lparr>disk := memcpy (disk fs) (block_ptr db) buf 0 IDKFS_BLOCK_SIZE, dirty := True\<rparr>"
proof -
  have ok: "block_ok fs db"
    using w by (intro geometry_block_ok[OF inv_geometry[OF inv]]) (simp add: writable_def)
  let ?fs' = "fs\<lparr>disk := memcpy (disk fs) (block_ptr db) buf 0 IDKFS_BLOCK_SIZE, dirty := True\<rparr>"
  have "block_inv ?fs'" "others_kept k fs ?fs'" "allocates fs ?fs'"
    using inv_data_write[OF inv, where b = db and k = k and fs' = ?fs' and buf = buf and d = True] w by (simp_all add: writable_def)
  then show ?thesis
    by (simp add: block_write_Some[OF ok] step_ok_def step_kept_def data_start_def)
qed

lemma write_step_spec:
  assumes inv: "block_inv fs" and live: "live fs k"
  shows "\<exists>fs' ok. write_step fs k src off count tot = Some (fs', ok) \<and> step_ok k fs fs'"
proof -
  obtain fs1 t where t: "write_target fs k (io_logical off tot) = Some (fs1, t)" and s1: "step_ok k fs fs1"
    and w: "\<forall>db. t = Some db \<longrightarrow> writable fs1 k db"
    using write_target_spec[OF inv live] by blast
  show ?thesis
  proof (cases t)
    case None
    with t s1 show ?thesis by (auto simp: write_step_def)
  next
    case (Some db)
    let ?buf = "memcpy (memcpy zeros 0 (disk fs1) (block_ptr db) IDKFS_BLOCK_SIZE) (io_blk_off off tot) src tot (io_can off count tot)"
    obtain fs2 where "block_write fs1 db ?buf = Some fs2" "step_ok k fs1 fs2"
      using data_write_step[OF step_ok_inv[OF s1], of k db ?buf] w Some by blast
    moreover have "block_ok fs1 db"
      using w Some by (intro geometry_block_ok[OF inv_geometry[OF step_ok_inv[OF s1]]]) (simp add: writable_def)
    ultimately show ?thesis
      using t Some step_ok_trans[OF s1] by (auto simp: write_step_def block_read_Some)
  qed
qed

lemma write_loop_spec:
  "block_inv fs \<Longrightarrow> live fs k \<Longrightarrow> tot \<le> count \<Longrightarrow>
    \<exists>fs' r. write_loop fs k src off count tot = Some (fs', r) \<and> step_ok k fs fs' \<and> r \<in> {None, Some count}"
proof (induction fs k src off count tot rule: write_loop.induct)
  case (1 fs k src off count tot)
  show ?case
  proof (cases "tot < count")
    case False
    with 1 show ?thesis by (simp add: write_loop.simps[of fs] step_ok_refl)
  next
    case True
    obtain fs1 ok where w: "write_step fs k src off count tot = Some (fs1, ok)" and s1: "step_ok k fs fs1"
      using write_step_spec[OF 1(2,3)] by blast
    show ?thesis
    proof (cases ok)
      case False
      with True w s1 show ?thesis by (simp add: write_loop.simps[of fs])
    next
      case ok: True
      have "tot + io_can off count tot \<le> count"
        using True by (simp add: io_can_def)
      then obtain fs2 r where "write_loop fs1 k src off count (tot + io_can off count tot) = Some (fs2, r)"
        "step_ok k fs1 fs2" "r \<in> {None, Some count}"
        using 1(1)[OF True w refl ok] s1 1(3) step_ok_inv step_ok_live by metis
      with True ok w show ?thesis
        using step_ok_trans[OF s1] by (auto simp: write_loop.simps[of fs])
    qed
  qed
qed

section \<open>\<open>idkfs_write\<close>\<close>

lemma idkfs_write_alt:
  "live fs k \<Longrightarrow> idkfs_write e fs k buf count offset = do {
     (fs, written) \<leftarrow> write_loop fs k buf (unat offset) (unat count) 0;
     case written of None \<Rightarrow> Some (fs, - 1)
     | Some tot \<Rightarrow> Some (write_finish e fs k (offset + count), int tot) }"
  by (simp add: idkfs_write_def inode_at_def live_def)

lemma owns_ignores: "inodes fs' = inodes fs \<Longrightarrow> disk fs' = disk fs \<Longrightarrow> owns fs' k s b = owns fs k s b"
  by (rule owns_cong) (simp_all add: disk_same_block)

lemma write_finish_kept:
  "sb (write_finish e fs k n) = sb fs" "bitmap (write_finish e fs k n) = bitmap fs"
  "disk (write_finish e fs k n) = disk fs" "disk_size (write_finish e fs k n) = disk_size fs"
  "features (write_finish e fs k n) = features fs"
  "k' \<noteq> k \<Longrightarrow> inodes (write_finish e fs k n) k' = inodes fs k'"
  "i_direct (inodes (write_finish e fs k n) k) = i_direct (inodes fs k)"
  "i_indirect1 (inodes (write_finish e fs k n) k) = i_indirect1 (inodes fs k)"
  "i_link_count (inodes (write_finish e fs k n) k) = i_link_count (inodes fs k)"
  "i_type (inodes (write_finish e fs k n) k) = i_type (inodes fs k)"
  "i_size (inodes (write_finish e fs k n) k) = max (i_size (inodes fs k)) n"
  by (auto simp: write_finish_def Let_def max_def)

lemma write_finish_fixed: "fixed (write_finish e fs k n) = fixed fs"
  by (rule fixed_cong) (simp_all add: write_finish_kept)

lemma write_finish_owns: "owns (write_finish e fs k n) k' s b = owns fs k' s b"
  by (rule owns_cong; cases "k' = k"; simp add: write_finish_kept disk_same_block)

lemma write_finish_allocates: "allocates fs (write_finish e fs k n)"
  by (rule allocates_shrink) (simp_all add: write_finish_kept write_finish_owns)

lemma write_finish_inv: "block_inv fs \<Longrightarrow> block_inv (write_finish e fs k n)"
  by (erule inv_keep_simple) (simp_all add: write_finish_kept write_finish_owns)

lemma write_finish_others: "others_kept k fs (write_finish e fs k n)"
  by (simp add: others_kept_def write_finish_kept disk_same_block)

lemma idkfs_write_spec:
  assumes inv: "block_inv fs" and live: "live fs k"
  shows "\<exists>fs' r. idkfs_write e fs k buf count offset = Some (fs', r) \<and> r \<in> {- 1, int (unat count)}
    \<and> block_inv fs' \<and> others_kept k fs fs' \<and> live fs' k \<and> features fs' = features fs
    \<and> data_start fs' = data_start fs \<and> sb_free_inodes (sb fs') = sb_free_inodes (sb fs)
    \<and> i_type (inodes fs' k) = i_type (inodes fs k) \<and> i_link_count (inodes fs' k) = i_link_count (inodes fs k)
    \<and> fixed fs' = fixed fs \<and> allocates fs fs'"
proof -
  obtain fs1 r where l: "write_loop fs k buf (unat offset) (unat count) 0 = Some (fs1, r)"
    and s: "step_ok k fs fs1" and r: "r \<in> {None, Some (unat count)}"
    using write_loop_spec[OF inv live, of 0] by blast
  have "others_kept k fs (write_finish e fs1 k n)" for n
    using s by (intro others_kept_trans[OF _ write_finish_others]) (simp add: step_ok_def step_kept_def)
  moreover have "allocates fs (write_finish e fs1 k n)" for n
    using s by (intro allocates_trans[OF _ write_finish_allocates]) (simp add: step_ok_def)
  ultimately show ?thesis
    using l s r live by (auto simp: idkfs_write_alt step_ok_def step_kept_def write_finish_inv write_finish_kept write_finish_fixed live_def data_start_def)
qed

end
