(* ===== verification/Core_File.thy ===== *)
theory Core_File
  imports Core_Write
begin

text \<open>
  File contents. The bytes of a file within its direct blocks are an abstract partial function
  \<open>fbyte\<close> from positions to bytes (\<open>None\<close> where no block is mapped); \<open>idkfs_write\<close> refines an
  update of it and \<open>idkfs_read\<close> a lookup in it.
\<close>

section \<open>Abstract contents\<close>

text \<open>The bytes the direct blocks can hold: \<open>IDKFS_DIRECT_BLOCKS * IDKFS_BLOCK_SIZE\<close>.\<close>

abbreviation (input) direct_span :: nat where "direct_span \<equiv> 49152"

definition fbyte :: "IDKFS \<Rightarrow> nat \<Rightarrow> nat \<Rightarrow> u8 option" where
  "fbyte fs k p = (let b = i_direct (inodes fs k) (p div IDKFS_BLOCK_SIZE) in
     if b = IDKFS_NULL_BLOCK then None
     else Some (disk fs (block_ptr (unat b) + p mod IDKFS_BLOCK_SIZE)))"

text \<open>Writing \<open>src[0..<count]\<close> at \<open>off\<close>: the bytes written are there, a block mapped by the write is
  zero around them, everything else is as before.\<close>

definition touched :: "nat \<Rightarrow> nat \<Rightarrow> nat \<Rightarrow> bool" where
  "touched off n p \<longleftrightarrow> (\<exists>q. off \<le> q \<and> q < off + n \<and> q div IDKFS_BLOCK_SIZE = p div IDKFS_BLOCK_SIZE)"

definition put_bytes :: "(nat \<Rightarrow> u8 option) \<Rightarrow> mem \<Rightarrow> nat \<Rightarrow> nat \<Rightarrow> (nat \<Rightarrow> u8 option)" where
  "put_bytes f src off n = (\<lambda>p. if off \<le> p \<and> p < off + n then Some (src (p - off))
     else if f p = None \<and> touched off n p then Some 0 else f p)"

text \<open>Direct blocks a write still has to map.\<close>

definition missing :: "IDKFS \<Rightarrow> nat \<Rightarrow> nat \<Rightarrow> nat \<Rightarrow> nat set" where
  "missing fs k off n = {j. i_direct (inodes fs k) j = IDKFS_NULL_BLOCK \<and> touched off n (j * IDKFS_BLOCK_SIZE)}"

lemma others_kept_fbyte:
  assumes "others_kept k fs fs'" "k' \<noteq> k" "live fs k'" "p < direct_span"
  shows "fbyte fs' k' p = fbyte fs k' p"
proof (cases "i_direct (inodes fs k') (p div IDKFS_BLOCK_SIZE) = IDKFS_NULL_BLOCK")
  case True
  with assms show ?thesis by (simp add: fbyte_def others_kept_def)
next
  case False
  let ?b = "unat (i_direct (inodes fs k') (p div IDKFS_BLOCK_SIZE))"
  have "p div IDKFS_BLOCK_SIZE < IDKFS_DIRECT_BLOCKS" using assms(4) by simp
  then have "owns fs k' (SDirect (p div IDKFS_BLOCK_SIZE)) ?b"
    using False assms(3) by (simp add: owns_def)
  then have "same_block fs fs' ?b"
    using assms(1,2) by (auto simp: others_kept_def)
  with assms(1,2) False show ?thesis
    by (simp add: fbyte_def others_kept_def same_block_def)
qed

lemma direct_block_ok:
  assumes "block_inv fs" "live fs k" "j < IDKFS_DIRECT_BLOCKS" "i_direct (inodes fs k) j \<noteq> IDKFS_NULL_BLOCK"
  shows "owns fs k (SDirect j) (unat (i_direct (inodes fs k) j))" "block_ok fs (unat (i_direct (inodes fs k) j))"
    "writable fs k (unat (i_direct (inodes fs k) j))"
proof -
  show o: "owns fs k (SDirect j) (unat (i_direct (inodes fs k) j))"
    using assms by (simp add: owns_def)
  show "block_ok fs (unat (i_direct (inodes fs k) j))"
    using inv_owned[OF assms(1) o] by (intro geometry_block_ok[OF inv_geometry[OF assms(1)]]) simp
  show "writable fs k (unat (i_direct (inodes fs k) j))"
    using owned_writable[OF assms(1) o] by simp
qed

lemma get_block_direct: "live fs k \<Longrightarrow> j < IDKFS_DIRECT_BLOCKS \<Longrightarrow> inode_get_block fs k j = Some (i_direct (inodes fs k) j)"
  by (simp add: inode_get_block_def inode_at_def live_def)

section \<open>Position arithmetic within the direct blocks\<close>

lemma io_direct:
  assumes "off + count \<le> direct_span" "tot < count"
  shows "io_pos off tot = off + tot" "io_logical off tot = (off + tot) div IDKFS_BLOCK_SIZE"
    "io_blk_off off tot = (off + tot) mod IDKFS_BLOCK_SIZE" "(off + tot) div IDKFS_BLOCK_SIZE < IDKFS_DIRECT_BLOCKS"
proof -
  have "off + tot < direct_span" using assms by simp
  then show "io_pos off tot = off + tot" "io_logical off tot = (off + tot) div IDKFS_BLOCK_SIZE"
    "io_blk_off off tot = (off + tot) mod IDKFS_BLOCK_SIZE" "(off + tot) div IDKFS_BLOCK_SIZE < IDKFS_DIRECT_BLOCKS"
    by (simp_all add: io_pos_def io_logical_def io_blk_off_def div_less_iff_less_mult)
qed

lemma within_block:
  assumes "n \<le> IDKFS_BLOCK_SIZE - q mod IDKFS_BLOCK_SIZE" "q \<le> p" "p < q + n"
  shows "p div IDKFS_BLOCK_SIZE = q div IDKFS_BLOCK_SIZE"
    "p mod IDKFS_BLOCK_SIZE = q mod IDKFS_BLOCK_SIZE + (p - q)"
proof -
  let ?r = "q mod IDKFS_BLOCK_SIZE + (p - q)"
  have r: "?r < IDKFS_BLOCK_SIZE" using assms by linarith
  have "p = q div IDKFS_BLOCK_SIZE * IDKFS_BLOCK_SIZE + ?r"
    using assms(2) div_mult_mod_eq[of q IDKFS_BLOCK_SIZE] by linarith
  then have "p div IDKFS_BLOCK_SIZE = (?r + q div IDKFS_BLOCK_SIZE * IDKFS_BLOCK_SIZE) div IDKFS_BLOCK_SIZE"
    "p mod IDKFS_BLOCK_SIZE = (?r + q div IDKFS_BLOCK_SIZE * IDKFS_BLOCK_SIZE) mod IDKFS_BLOCK_SIZE"
    by (simp_all only: add.commute)
  with r show "p div IDKFS_BLOCK_SIZE = q div IDKFS_BLOCK_SIZE" "p mod IDKFS_BLOCK_SIZE = ?r"
    by (simp_all only: div_mult_self1 mod_mult_self1 div_less mod_less add_0 zero_neq_numeral not_False_eq_True)
qed

lemma block_range_iff:
  assumes "n \<le> IDKFS_BLOCK_SIZE - q mod IDKFS_BLOCK_SIZE"
  shows "(q \<le> p \<and> p < q + n) \<longleftrightarrow> (p div IDKFS_BLOCK_SIZE = q div IDKFS_BLOCK_SIZE
    \<and> q mod IDKFS_BLOCK_SIZE \<le> p mod IDKFS_BLOCK_SIZE \<and> p mod IDKFS_BLOCK_SIZE < q mod IDKFS_BLOCK_SIZE + n)"
    (is "?L \<longleftrightarrow> ?R")
proof
  assume L: ?L
  with within_block[OF assms, of p] have "p div IDKFS_BLOCK_SIZE = q div IDKFS_BLOCK_SIZE"
    "p mod IDKFS_BLOCK_SIZE = q mod IDKFS_BLOCK_SIZE + (p - q)" by blast+
  with L show ?R by linarith
next
  assume R: ?R
  have "p = q div IDKFS_BLOCK_SIZE * IDKFS_BLOCK_SIZE + p mod IDKFS_BLOCK_SIZE"
    using R div_mult_mod_eq[of p IDKFS_BLOCK_SIZE] by simp
  with R show ?L
    using div_mult_mod_eq[of q IDKFS_BLOCK_SIZE] by linarith
qed

lemma io_can_block:
  assumes "off + count \<le> direct_span" "tot < count"
    and "off + tot \<le> q" "q < off + (tot + io_can off count tot)"
  shows "q div IDKFS_BLOCK_SIZE = (off + tot) div IDKFS_BLOCK_SIZE"
    "q mod IDKFS_BLOCK_SIZE = (off + tot) mod IDKFS_BLOCK_SIZE + (q - (off + tot))"
proof -
  have can: "io_can off count tot \<le> IDKFS_BLOCK_SIZE - (off + tot) mod IDKFS_BLOCK_SIZE"
    using io_direct(3)[OF assms(1,2)] by (simp add: io_can_def)
  have q: "q < off + tot + io_can off count tot" using assms(4) by linarith
  show "q div IDKFS_BLOCK_SIZE = (off + tot) div IDKFS_BLOCK_SIZE"
    "q mod IDKFS_BLOCK_SIZE = (off + tot) mod IDKFS_BLOCK_SIZE + (q - (off + tot))"
    by (rule within_block[OF can assms(3) q])+
qed

lemma io_can_bound: "tot < count \<Longrightarrow> tot + io_can off count tot \<le> count"
  by (simp add: io_can_def)

section \<open>Reading\<close>

lemma read_loop_spec:
  assumes "block_inv fs" "live fs k" "off + count \<le> direct_span" "tot \<le> count"
  shows "\<exists>t. read_loop fs k off count tot out
      = Some (t, \<lambda>i. if tot \<le> i \<and> i < t then the (fbyte fs k (off + i)) else out i)
    \<and> tot \<le> t \<and> t \<le> count \<and> (\<forall>i. tot \<le> i \<longrightarrow> i < t \<longrightarrow> fbyte fs k (off + i) \<noteq> None)
    \<and> (t < count \<longrightarrow> fbyte fs k (off + t) = None)"
  using assms
proof (induction fs k off count tot out rule: read_loop.induct)
  case (1 fs k off count tot out)
  show ?case
  proof (cases "tot < count")
    case False
    with 1 show ?thesis by (intro exI[of _ tot]) (auto simp: read_loop.simps[of fs] fun_eq_iff)
  next
    case True
    note d = io_direct[OF 1(4) True] and cb = io_can_block[OF 1(4) True]
    let ?j = "(off + tot) div IDKFS_BLOCK_SIZE" and ?can = "io_can off count tot"
    let ?b = "i_direct (inodes fs k) ?j"
    have get: "inode_get_block fs k (io_logical off tot) = Some ?b"
      using get_block_direct[OF 1(3)] d by simp
    show ?thesis
    proof (cases "?b = IDKFS_NULL_BLOCK")
      case null: True
      with True get show ?thesis
        by (intro exI[of _ tot]) (auto simp: read_loop.simps[of fs] fbyte_def fun_eq_iff)
    next
      case False
      let ?tmp = "memcpy zeros 0 (disk fs) (block_ptr (unat ?b)) IDKFS_BLOCK_SIZE"
      let ?out = "memcpy out tot ?tmp (io_blk_off off tot) ?can"
      have rd: "block_read fs (unat ?b) = Some ?tmp"
        by (rule block_read_Some[OF direct_block_ok(2)[OF 1(2,3) d(4) False]])
      obtain t where t: "read_loop fs k off count (tot + ?can) ?out
          = Some (t, \<lambda>i. if tot + ?can \<le> i \<and> i < t then the (fbyte fs k (off + i)) else ?out i)"
        and b: "tot + ?can \<le> t" "t \<le> count" "\<forall>i. tot + ?can \<le> i \<longrightarrow> i < t \<longrightarrow> fbyte fs k (off + i) \<noteq> None"
          "t < count \<longrightarrow> fbyte fs k (off + t) = None"
        using 1(1)[OF True get False rd 1(2,3,4) io_can_bound[OF True]] by blast
      have now: "fbyte fs k (off + i) = Some (?out i)" if "tot \<le> i" "i < tot + ?can" for i
        using that cb[of "off + i"] False d(3)
        by (simp add: fbyte_def mem_simps)
      have "read_loop fs k off count tot out
          = Some (t, \<lambda>i. if tot \<le> i \<and> i < t then the (fbyte fs k (off + i)) else out i)"
        using True get False rd t b(1) now by (auto simp: read_loop.simps[of fs] mem_simps fun_eq_iff)
      moreover have "\<forall>i. tot \<le> i \<longrightarrow> i < t \<longrightarrow> fbyte fs k (off + i) \<noteq> None"
        using b(3) now by (metis not_le option.distinct(1))
      ultimately show ?thesis
        using b by (intro exI[of _ t]) auto
    qed
  qed
qed

section \<open>Writing\<close>

lemma write_target_direct:
  assumes inv: "block_inv fs" and live: "live fs k" and j: "j < IDKFS_DIRECT_BLOCKS"
  obtains (mapped) "i_direct (inodes fs k) j \<noteq> IDKFS_NULL_BLOCK"
      "write_target fs k j = Some (fs, Some (unat (i_direct (inodes fs k) j)))"
    | (new) fs1 b where "i_direct (inodes fs k) j = IDKFS_NULL_BLOCK" "write_target fs k j = Some (fs1, Some b)"
      "step_ok k fs fs1" "i_direct (inodes fs1 k) = (i_direct (inodes fs k))(j := word_of_nat b)"
      "b \<in> free_set (bitmap fs)" "free_set (bitmap fs1) = free_set (bitmap fs) - {b}"
      "disk fs1 = memset (disk fs) (block_ptr b) 0 IDKFS_BLOCK_SIZE"
    | (full) "i_direct (inodes fs k) j = IDKFS_NULL_BLOCK" "write_target fs k j = Some (fs, None)"
      "free_set (bitmap fs) = {}"
proof -
  have get: "inode_get_block fs k j = Some (i_direct (inodes fs k) j)"
    by (rule get_block_direct[OF live j])
  show thesis
  proof (cases "i_direct (inodes fs k) j = IDKFS_NULL_BLOCK")
    case False
    with get show thesis by (intro mapped) (simp_all add: write_target_def)
  next
    case null: True
    show thesis
    proof (cases rule: alloc_zeroed_cases[OF inv])
      case 1
      with null get show thesis by (intro full) (simp_all add: write_target_def inode_map_block_def)
    next
      case (2 fs1 b)
      note s1 = took_step[OF 2, of k]
      let ?f = "\<lambda>i. i\<lparr>i_direct := (i_direct i)(j := word_of_nat b)\<rparr>" and ?g = "\<lambda>i. i\<lparr>i_block_count := i_block_count i + 1\<rparr>"
      let ?fs2 = "upd_inode fs1 k ?f"
      have live1: "live fs1 k" using step_ok_live[OF s1] live by simp
      have s2: "step_ok k fs1 ?fs2"
        using attach_direct[OF step_ok_inv[OF s1] live1 took_spare[OF inv 2(2)] j] by (rule attached_step) simp_all
      have s3: "step_ok k ?fs2 (upd_inode ?fs2 k ?g)"
        by (rule step_ok_upd_inode[OF step_ok_inv[OF s2]]) simp
      have "write_target fs k j = Some (upd_inode ?fs2 k ?g, Some b)"
        using null get 2(1) live1 j
        by (simp add: write_target_def inode_map_block_def inode_at_def live_def)
      with null 2 step_ok_trans[OF s1 step_ok_trans[OF s2 s3]] show thesis
        by (intro new[of "upd_inode ?fs2 k ?g" b]) (simp_all add: took_def)
    qed
  qed
qed

lemma fbyte_new_block:
  assumes inv: "block_inv fs" and live: "live fs k" and b: "b \<in> free_set (bitmap fs)"
    and fs1: "i_direct (inodes fs1 k) = (i_direct (inodes fs k))(j := word_of_nat b)"
      "disk fs1 = memset (disk fs) (block_ptr b) 0 IDKFS_BLOCK_SIZE"
    and p: "p < direct_span"
  shows "fbyte fs1 k p = (if p div IDKFS_BLOCK_SIZE = j then Some 0 else fbyte fs k p)"
proof (cases "p div IDKFS_BLOCK_SIZE = j")
  case True
  have "b < IDKFS_TOTAL_BLOCKS" using b by (simp add: free_set_def)
  with True fs1 show ?thesis
    by (simp add: fbyte_def block_word_not_null block_word mem_simps)
next
  case False
  let ?v = "i_direct (inodes fs k) (p div IDKFS_BLOCK_SIZE)"
  have "unat ?v \<noteq> b" if "?v \<noteq> IDKFS_NULL_BLOCK"
  proof -
    have "owns fs k (SDirect (p div IDKFS_BLOCK_SIZE)) (unat ?v)"
      using that live p by (simp add: owns_def div_less_iff_less_mult)
    then show ?thesis using inv_free_unowned[OF inv b] by (auto simp: unowned_def)
  qed
  then have "same_block fs fs1 (unat ?v)" if "?v \<noteq> IDKFS_NULL_BLOCK"
    using that fs1(2) by (intro same_block_memset[of b]) auto
  with False fs1(1) show ?thesis by (simp add: fbyte_def same_block_def Let_def)
qed

lemma fbyte_data_write:
  assumes inv: "block_inv fs" and live: "live fs k" and j: "j < IDKFS_DIRECT_BLOCKS"
    and v: "i_direct (inodes fs k) j \<noteq> IDKFS_NULL_BLOCK" "b = unat (i_direct (inodes fs k) j)"
    and fs': "inodes fs' = inodes fs" "disk fs' = memcpy (disk fs) (block_ptr b) buf 0 IDKFS_BLOCK_SIZE"
    and p: "p < direct_span"
  shows "fbyte fs' k p = (if p div IDKFS_BLOCK_SIZE = j then Some (buf (p mod IDKFS_BLOCK_SIZE)) else fbyte fs k p)"
proof (cases "p div IDKFS_BLOCK_SIZE = j")
  case True
  with v fs' show ?thesis by (simp add: fbyte_def mem_simps)
next
  case False
  let ?v = "i_direct (inodes fs k) (p div IDKFS_BLOCK_SIZE)"
  have "unat ?v \<noteq> b" if "?v \<noteq> IDKFS_NULL_BLOCK"
  proof
    assume "unat ?v = b"
    then have "owns fs k (SDirect (p div IDKFS_BLOCK_SIZE)) b" "owns fs k (SDirect j) b"
      using that live p j v by (simp_all add: owns_def div_less_iff_less_mult)
    then show False using inv_inj[OF inv] False by blast
  qed
  then have "same_block fs fs' (unat ?v)" if "?v \<noteq> IDKFS_NULL_BLOCK"
    using that fs'(2) by (intro same_block_memcpy[of b]) auto
  with False fs'(1) show ?thesis by (simp add: fbyte_def same_block_def Let_def)
qed

lemma piece_bytes:
  assumes f2: "f2 = (if S then Some (memcpy tmp m src tot n r) else f1)"
    and tmp: "S \<Longrightarrow> Some (tmp r) = f1"
    and shift: "q \<le> p \<Longrightarrow> p < q + n \<Longrightarrow> r - m = p - q"
    and f1: "f1 = (if S \<and> f p = None then Some 0 else f p)"
    and inside: "(q \<le> p \<and> p < q + n) \<longleftrightarrow> (S \<and> m \<le> r \<and> r < m + n)"
    and touch: "touched q n p = S"
  shows "f2 = put_bytes f (\<lambda>i. src (tot + i)) q n p"
proof (cases "q \<le> p \<and> p < q + n")
  case True
  then have "S" "m \<le> r" "r < m + n" using inside by blast+
  with True show ?thesis by (simp add: f2 put_bytes_def memcpy_in shift)
next
  case False
  then have "memcpy tmp m src tot n r = tmp r" if S
    using inside that by (intro memcpy_out) linarith
  with False have "f2 = f1" using f2 tmp by simp
  with False f1 touch show ?thesis by (auto simp: put_bytes_def)
qed

lemma piece_touched:
  assumes "off + count \<le> direct_span" "tot < count"
  shows "touched (off + tot) (io_can off count tot) p = (p div IDKFS_BLOCK_SIZE = (off + tot) div IDKFS_BLOCK_SIZE)"
proof
  assume "touched (off + tot) (io_can off count tot) p"
  then obtain q where "off + tot \<le> q" "q < off + tot + io_can off count tot" "q div IDKFS_BLOCK_SIZE = p div IDKFS_BLOCK_SIZE"
    unfolding touched_def by blast
  then show "p div IDKFS_BLOCK_SIZE = (off + tot) div IDKFS_BLOCK_SIZE" using io_can_block(1)[OF assms, of q] by simp
next
  assume "p div IDKFS_BLOCK_SIZE = (off + tot) div IDKFS_BLOCK_SIZE"
  then show "touched (off + tot) (io_can off count tot) p"
    unfolding touched_def using io_can_pos[OF assms(2), of off] by (intro exI[of _ "off + tot"]) simp
qed

text \<open>One piece, once the target block \<open>b\<close> is mapped in \<open>fs1\<close>.\<close>

lemma write_piece:
  assumes live: "live fs k" and range: "off + count \<le> direct_span" "tot < count"
  defines "j \<equiv> (off + tot) div IDKFS_BLOCK_SIZE"
  assumes t: "write_target fs k j = Some (fs1, Some b)" and s: "step_ok k fs fs1"
    and v: "i_direct (inodes fs1 k) j \<noteq> IDKFS_NULL_BLOCK" "b = unat (i_direct (inodes fs1 k) j)"
    and f1: "\<And>p. p < direct_span \<Longrightarrow> fbyte fs1 k p =
      (if p div IDKFS_BLOCK_SIZE = j \<and> fbyte fs k p = None then Some 0 else fbyte fs k p)"
  shows "\<exists>fs2. write_step fs k src off count tot = Some (fs2, True) \<and> step_ok k fs fs2 \<and> inodes fs2 = inodes fs1
    \<and> bitmap fs2 = bitmap fs1 \<and> (\<forall>p < direct_span. fbyte fs2 k p
        = put_bytes (fbyte fs k) (\<lambda>i. src (tot + i)) (off + tot) (io_can off count tot) p)"
proof -
  note d = io_direct[OF range, folded j_def] and cb = io_can_block[OF range]
  let ?can = "io_can off count tot"
  have inv1: "block_inv fs1" and live1: "live fs1 k"
    using s live by (simp_all add: step_ok_inv step_ok_live)
  note ok = direct_block_ok(2,3)[OF inv1 live1 d(4) v(1), folded v(2)]
  let ?tmp = "memcpy zeros 0 (disk fs1) (block_ptr b) IDKFS_BLOCK_SIZE"
  let ?buf = "memcpy ?tmp (io_blk_off off tot) src tot ?can"
  obtain fs2 where w: "block_write fs1 b ?buf = Some fs2" "step_ok k fs1 fs2"
    and fs2: "fs2 = fs1\<lparr>disk := memcpy (disk fs1) (block_ptr b) ?buf 0 IDKFS_BLOCK_SIZE, dirty := True\<rparr>"
    using data_write_step[OF inv1 ok(2)] by blast
  have run: "write_step fs k src off count tot = Some (fs2, True)"
    using t w d(2) by (simp add: write_step_def block_read_Some[OF ok(1)])
  have bytes: "fbyte fs2 k p = put_bytes (fbyte fs k) (\<lambda>i. src (tot + i)) (off + tot) ?can p"
    if p: "p < direct_span" for p
  proof -
    have "fbyte fs2 k p = (if p div IDKFS_BLOCK_SIZE = j then Some (?buf (p mod IDKFS_BLOCK_SIZE)) else fbyte fs1 k p)"
      by (rule fbyte_data_write[OF inv1 live1 d(4) v, where buf = ?buf, OF _ _ p]) (simp_all add: fs2)
    moreover have "Some (?tmp (p mod IDKFS_BLOCK_SIZE)) = fbyte fs1 k p" if "p div IDKFS_BLOCK_SIZE = j"
      using that v by (simp add: fbyte_def mem_simps)
    moreover have "p mod IDKFS_BLOCK_SIZE - (off + tot) mod IDKFS_BLOCK_SIZE = p - (off + tot)"
      if "off + tot \<le> p" "p < off + tot + ?can"
      using cb(2)[of p] that by simp
    moreover have "(off + tot \<le> p \<and> p < off + tot + ?can) \<longleftrightarrow>
        (p div IDKFS_BLOCK_SIZE = j \<and> (off + tot) mod IDKFS_BLOCK_SIZE \<le> p mod IDKFS_BLOCK_SIZE
          \<and> p mod IDKFS_BLOCK_SIZE < (off + tot) mod IDKFS_BLOCK_SIZE + ?can)"
      unfolding j_def by (rule block_range_iff) (use d(3) in \<open>simp add: io_can_def\<close>)
    ultimately show ?thesis
      using f1[OF p] piece_touched[OF range, of p, folded j_def] unfolding d(3) by (intro piece_bytes)
  qed
  show ?thesis
    using run step_ok_trans[OF s w(2)] bytes by (intro exI[of _ fs2]) (simp add: fs2)
qed

text \<open>One iteration of the loop: either one more piece of the buffer is in the file, or a block is
  missing and none is free.\<close>

lemma write_step_direct:
  assumes inv: "block_inv fs" and live: "live fs k" and range: "off + count \<le> direct_span" "tot < count"
  obtains (piece) fs' where "write_step fs k src off count tot = Some (fs', True)" "step_ok k fs fs'"
      "\<And>p. p < direct_span \<Longrightarrow> fbyte fs' k p
         = put_bytes (fbyte fs k) (\<lambda>i. src (tot + i)) (off + tot) (io_can off count tot) p"
      "\<And>j. j < IDKFS_DIRECT_BLOCKS \<Longrightarrow> (i_direct (inodes fs' k) j = IDKFS_NULL_BLOCK) =
         (i_direct (inodes fs k) j = IDKFS_NULL_BLOCK \<and> j \<noteq> (off + tot) div IDKFS_BLOCK_SIZE)"
      "card (free_set (bitmap fs)) \<le> card (free_set (bitmap fs')) +
         (if i_direct (inodes fs k) ((off + tot) div IDKFS_BLOCK_SIZE) = IDKFS_NULL_BLOCK then 1 else 0)"
    | (full) fs' where "write_step fs k src off count tot = Some (fs', False)"
      "i_direct (inodes fs k) ((off + tot) div IDKFS_BLOCK_SIZE) = IDKFS_NULL_BLOCK" "free_set (bitmap fs) = {}"
proof -
  note d = io_direct[OF range]
  let ?j = "(off + tot) div IDKFS_BLOCK_SIZE"
  show thesis
  proof (cases rule: write_target_direct[OF inv live d(4)])
    case 1
    have "\<exists>fs2. write_step fs k src off count tot = Some (fs2, True) \<and> step_ok k fs fs2 \<and> inodes fs2 = inodes fs
      \<and> bitmap fs2 = bitmap fs \<and> (\<forall>p < direct_span. fbyte fs2 k p
        = put_bytes (fbyte fs k) (\<lambda>i. src (tot + i)) (off + tot) (io_can off count tot) p)"
      by (rule write_piece[OF live range 1(2) step_ok_refl[OF inv] 1(1) refl]) (use 1(1) in \<open>auto simp: fbyte_def\<close>)
    then show thesis using 1(1) by (elim exE conjE) (rule piece, auto)
  next
    case (2 fs1 b)
    have b: "b < IDKFS_TOTAL_BLOCKS" using 2(5) by (simp add: free_set_def)
    have v: "i_direct (inodes fs1 k) ?j \<noteq> IDKFS_NULL_BLOCK" "b = unat (i_direct (inodes fs1 k) ?j)"
      using 2(4) b by (simp_all add: block_word block_word_not_null)
    have f1: "fbyte fs1 k p = (if p div IDKFS_BLOCK_SIZE = ?j \<and> fbyte fs k p = None then Some 0 else fbyte fs k p)"
      if "p < direct_span" for p
      using fbyte_new_block[OF inv live 2(5,4,7) that] 2(1) by (simp add: fbyte_def)
    obtain fs2 where p: "write_step fs k src off count tot = Some (fs2, True)" "step_ok k fs fs2" "inodes fs2 = inodes fs1"
      "bitmap fs2 = bitmap fs1" "\<forall>p < direct_span. fbyte fs2 k p
        = put_bytes (fbyte fs k) (\<lambda>i. src (tot + i)) (off + tot) (io_can off count tot) p"
      using write_piece[OF live range 2(2,3) v f1, of src] by blast
    show thesis
    proof (rule piece[OF p(1,2)])
      show "card (free_set (bitmap fs)) \<le> card (free_set (bitmap fs2)) +
         (if i_direct (inodes fs k) ?j = IDKFS_NULL_BLOCK then 1 else 0)"
        using card.remove[OF finite_free_set 2(5)] 2(1,6) p(4) by simp
    qed (use 2(4) b p(3,5) in \<open>simp_all add: block_word_not_null\<close>)
  next
    case 3
    show thesis by (rule full[of fs]) (use 3 d(2) in \<open>simp_all add: write_step_def\<close>)
  qed
qed

subsection \<open>The whole loop\<close>

lemma touched_split: "touched q (n + m) p \<longleftrightarrow> touched q n p \<or> touched (q + n) m p"
proof
  assume "touched q (n + m) p"
  then obtain x where x: "q \<le> x" "x < q + (n + m)" "x div IDKFS_BLOCK_SIZE = p div IDKFS_BLOCK_SIZE"
    unfolding touched_def by blast
  then show "touched q n p \<or> touched (q + n) m p"
    unfolding touched_def by (cases "x < q + n") (force intro: exI[of _ x])+
next
  assume "touched q n p \<or> touched (q + n) m p"
  then obtain x where "q \<le> x \<and> x < q + n \<or> q + n \<le> x \<and> x < q + n + m" "x div IDKFS_BLOCK_SIZE = p div IDKFS_BLOCK_SIZE"
    unfolding touched_def by blast
  then show "touched q (n + m) p"
    unfolding touched_def by (intro exI[of _ x]) linarith
qed

lemma put_bytes_split:
  "put_bytes (put_bytes f s q n) (\<lambda>i. s (n + i)) (q + n) m = put_bytes f s q (n + m)"
  by (rule ext) (auto simp: put_bytes_def touched_split)

lemma put_bytes_none: "put_bytes f s q 0 = f"
  by (rule ext) (auto simp: put_bytes_def touched_def)

lemma put_bytes_cong: "(\<And>i. s i = s' i) \<Longrightarrow> f p = f' p \<Longrightarrow> put_bytes f s q n p = put_bytes f' s' q n p"
  by (simp add: put_bytes_def)

lemma touched_block: "touched q n p \<Longrightarrow> q + n \<le> direct_span \<Longrightarrow> p div IDKFS_BLOCK_SIZE < IDKFS_DIRECT_BLOCKS"
proof -
  assume "touched q n p" and le: "q + n \<le> direct_span"
  then obtain x where "x < q + n" and x: "x div IDKFS_BLOCK_SIZE = p div IDKFS_BLOCK_SIZE"
    unfolding touched_def by blast
  from \<open>x < q + n\<close> le have "x < direct_span" by simp
  then have "x div IDKFS_BLOCK_SIZE < IDKFS_DIRECT_BLOCKS" by (simp add: div_less_iff_less_mult)
  with x show ?thesis by simp
qed

lemma missing_bounded: "q + n \<le> direct_span \<Longrightarrow> j \<in> missing fs k q n \<Longrightarrow> j < IDKFS_DIRECT_BLOCKS"
  using touched_block[of q n "j * IDKFS_BLOCK_SIZE"] by (simp add: missing_def)

lemma finite_missing: "q + n \<le> direct_span \<Longrightarrow> finite (missing fs k q n)"
  by (rule finite_subset[of _ "{..<IDKFS_DIRECT_BLOCKS}"]) (auto dest: missing_bounded)

lemma missing_head: "0 < n \<Longrightarrow> i_direct (inodes fs k) (q div IDKFS_BLOCK_SIZE) = IDKFS_NULL_BLOCK \<Longrightarrow>
    q div IDKFS_BLOCK_SIZE \<in> missing fs k q n"
  unfolding missing_def touched_def by (auto intro: exI[of _ q])

lemma missing_step:
  assumes null: "\<And>j. j < IDKFS_DIRECT_BLOCKS \<Longrightarrow> (i_direct (inodes fs' k) j = IDKFS_NULL_BLOCK) =
         (i_direct (inodes fs k) j = IDKFS_NULL_BLOCK \<and> j \<noteq> q div IDKFS_BLOCK_SIZE)"
    and range: "q + (n + m) \<le> direct_span" "0 < n"
  shows "card (missing fs' k (q + n) m) +
      (if i_direct (inodes fs k) (q div IDKFS_BLOCK_SIZE) = IDKFS_NULL_BLOCK then 1 else 0)
    \<le> card (missing fs k q (n + m))"
proof -
  let ?A = "missing fs' k (q + n) m" and ?B = "missing fs k q (n + m)" and ?j = "q div IDKFS_BLOCK_SIZE"
  have fin: "finite ?B" by (rule finite_missing[OF range(1)])
  have sub: "?A \<subseteq> ?B - {?j}"
  proof
    fix x assume x: "x \<in> ?A"
    then have "x < IDKFS_DIRECT_BLOCKS" using range by (intro missing_bounded[of "q + n" m]) simp_all
    with x null[of x] show "x \<in> ?B - {?j}" by (auto simp: missing_def touched_split)
  qed
  show ?thesis
  proof (cases "i_direct (inodes fs k) ?j = IDKFS_NULL_BLOCK")
    case True
    then have "?j \<in> ?B" using range(2) by (intro missing_head) simp_all
    then have "card ?B = Suc (card (?B - {?j}))" by (rule card.remove[OF fin])
    with True card_mono[OF _ sub] fin show ?thesis by simp
  next
    case False
    with card_mono[OF fin, of ?A] sub show ?thesis by auto
  qed
qed

lemma write_loop_direct:
  assumes "block_inv fs" "live fs k" "off + count \<le> direct_span" "tot \<le> count"
  shows "(\<exists>fs'. write_loop fs k src off count tot = Some (fs', Some count) \<and> step_ok k fs fs' \<and>
      (\<forall>p < direct_span. fbyte fs' k p = put_bytes (fbyte fs k) (\<lambda>i. src (tot + i)) (off + tot) (count - tot) p)
      \<and> card (free_set (bitmap fs)) \<le> card (free_set (bitmap fs')) + card (missing fs k (off + tot) (count - tot)))
    \<or> (\<exists>fs'. write_loop fs k src off count tot = Some (fs', None)
      \<and> card (free_set (bitmap fs)) < card (missing fs k (off + tot) (count - tot)))"
  using assms
proof (induction fs k src off count tot rule: write_loop.induct)
  case step: (1 fs k src off count tot)
  show ?case
  proof (cases "tot < count")
    case False
    with step have "write_loop fs k src off count tot = Some (fs, Some count)"
      by (simp add: write_loop.simps[of fs])
    with False step show ?thesis
      by (intro disjI1 exI[of _ fs]) (simp add: step_ok_refl put_bytes_none)
  next
    case True
    let ?can = "io_can off count tot" and ?q = "off + tot" and ?m = "count - (tot + io_can off count tot)"
    have m: "count - tot = ?can + ?m" "0 < ?can" "?q + (?can + ?m) \<le> direct_span"
      using io_can_bound[OF True, of off] io_can_pos[OF True, of off] step(4) by simp_all
    show ?thesis
    proof (cases rule: write_step_direct[OF step(2,3,4) True, of src])
      case (1 fs1)
      note st = this
      have inv1: "block_inv fs1" and live1: "live fs1 k"
        using st(2) \<open>live fs k\<close> by (simp_all add: step_ok_inv step_ok_live)
      have run: "write_loop fs k src off count tot = write_loop fs1 k src off count (tot + ?can)"
        using True st(1) by (simp add: write_loop.simps[of fs])
      have less: "card (free_set (bitmap fs)) < card (missing fs k ?q (count - tot))"
        if "card (free_set (bitmap fs1)) < card (missing fs1 k (off + (tot + ?can)) ?m)"
        using missing_step[OF st(4) m(3,2)] st(5) that unfolding m(1) by (simp add: add.assoc)
      have spent: "card (free_set (bitmap fs)) \<le> card (free_set (bitmap fs2)) + card (missing fs k ?q (count - tot))"
        if "card (free_set (bitmap fs1)) \<le> card (free_set (bitmap fs2)) + card (missing fs1 k (off + (tot + ?can)) ?m)" for fs2
        using missing_step[OF st(4) m(3,2)] st(5) that unfolding m(1) by (simp add: add.assoc)
      have glue: "fbyte fs2 k p = put_bytes (fbyte fs k) (\<lambda>i. src (tot + i)) ?q (count - tot) p"
        if "fbyte fs2 k p = put_bytes (fbyte fs1 k) (\<lambda>i. src (tot + ?can + i)) (off + (tot + ?can)) ?m p"
          and p: "p < direct_span" for fs2 p
      proof -
        have "fbyte fs2 k p = put_bytes (put_bytes (fbyte fs k) (\<lambda>i. src (tot + i)) ?q ?can)
            (\<lambda>i. src (tot + (?can + i))) (?q + ?can) ?m p"
          unfolding that(1) add.assoc using st(3)[OF p] by (intro put_bytes_cong) (simp_all add: add.assoc)
        then show ?thesis
          unfolding m(1) put_bytes_split[symmetric] by simp
      qed
      have "tot + ?can \<le> count" by (rule io_can_bound[OF True])
      from step(1)[OF True st(1) refl TrueI inv1 live1 step(4) this] show ?thesis
        unfolding run using less spent glue step_ok_trans[OF st(2)] by blast
    next
      case (2 fs1)
      with True have "write_loop fs k src off count tot = Some (fs1, None)"
        by (simp add: write_loop.simps[of fs])
      moreover have "?q div IDKFS_BLOCK_SIZE \<in> missing fs k ?q (count - tot)"
        using True 2(2) by (intro missing_head) simp_all
      moreover have "finite (missing fs k ?q (count - tot))"
        unfolding m(1) by (rule finite_missing[OF m(3)])
      ultimately have "0 < card (missing fs k ?q (count - tot))" "write_loop fs k src off count tot = Some (fs1, None)"
        by (auto simp only: card_gt_0_iff)
      then show ?thesis using 2(3) by simp
    qed
  qed
qed

section \<open>\<open>idkfs_write\<close> and \<open>idkfs_read\<close> on the contents\<close>

lemma unat_add_span: "unat (a :: u64) + unat c \<le> direct_span \<Longrightarrow> unat (a + c) = unat a + unat c"
  by (simp add: unat_plus_simple[THEN iffD1] no_olen_add_nat)

lemma write_finish_fbyte: "fbyte (write_finish e fs k n) k p = fbyte fs k p"
  by (simp add: fbyte_def write_finish_kept Let_def)

lemma write_contents:
  assumes inv: "block_inv fs" and live: "live fs k" and range: "unat offset + unat count \<le> direct_span"
    and space: "card (missing fs k (unat offset) (unat count)) \<le> card (free_set (bitmap fs))"
  shows "\<exists>fs'. idkfs_write e fs k buf count offset = Some (fs', int (unat count))
    \<and> block_inv fs' \<and> live fs' k \<and> others_kept k fs fs' \<and> features fs' = features fs \<and> data_start fs' = data_start fs
    \<and> i_type (inodes fs' k) = i_type (inodes fs k) \<and> i_link_count (inodes fs' k) = i_link_count (inodes fs k)
    \<and> sb_free_inodes (sb fs') = sb_free_inodes (sb fs)
    \<and> i_size (inodes fs' k) = max (i_size (inodes fs k)) (offset + count)
    \<and> (\<forall>p < direct_span. fbyte fs' k p = put_bytes (fbyte fs k) buf (unat offset) (unat count) p)
    \<and> card (free_set (bitmap fs)) \<le> card (free_set (bitmap fs')) + card (missing fs k (unat offset) (unat count))
    \<and> fixed fs' = fixed fs \<and> allocates fs fs'"
proof -
  from write_loop_direct[OF inv live range, of 0 buf] space
  obtain fs1 where w: "write_loop fs k buf (unat offset) (unat count) 0 = Some (fs1, Some (unat count))"
    and s: "step_ok k fs fs1"
    and f: "\<forall>p < direct_span. fbyte fs1 k p = put_bytes (fbyte fs k) buf (unat offset) (unat count) p"
    and c: "card (free_set (bitmap fs)) \<le> card (free_set (bitmap fs1)) + card (missing fs k (unat offset) (unat count))"
    by (auto simp: not_less[symmetric])
  have "others_kept k fs (write_finish e fs1 k (offset + count))"
    using s by (intro others_kept_trans[OF _ write_finish_others]) (simp add: step_ok_def step_kept_def)
  moreover have "allocates fs (write_finish e fs1 k (offset + count))"
    using s by (intro allocates_trans[OF _ write_finish_allocates]) (simp add: step_ok_def)
  ultimately show ?thesis
    using w s f c live by (simp add: idkfs_write_alt step_ok_def step_kept_def write_finish_inv write_finish_kept write_finish_fixed live_def data_start_def write_finish_fbyte)
qed

lemma read_contents:
  assumes inv: "block_inv fs" and live: "live fs k" and size: "unat (i_size (inodes fs k)) \<le> direct_span"
    and range: "unat offset < unat (i_size (inodes fs k))" "unat offset + unat count < 2 ^ 64"
  defines "n \<equiv> min (unat count) (unat (i_size (inodes fs k)) - unat offset)"
  shows "\<exists>fs' t. idkfs_read e fs k buf count offset
      = Some (fs', \<lambda>i. if i < t then the (fbyte fs k (unat offset + i)) else buf i, int t)
    \<and> t \<le> n \<and> (\<forall>i < t. fbyte fs k (unat offset + i) \<noteq> None) \<and> (t < n \<longrightarrow> fbyte fs k (unat offset + t) = None)
    \<and> fs' = (if timestamps (features fs) then upd_inode fs k (\<lambda>i. i\<lparr>i_atime := now e\<rparr>) else fs)"
proof -
  let ?sz = "i_size (inodes fs k)"
  let ?c = "if offset + count > ?sz then ?sz - offset else count"
  have sum: "unat (offset + count) = unat offset + unat count"
    using range(2) by (simp add: no_olen_add_nat unat_plus_simple[THEN iffD1])
  have c: "unat ?c = n"
    using range(1) sum by (auto simp: n_def word_less_nat_alt unat_sub_if' word_le_nat_alt)
  have "unat offset + n \<le> direct_span" using size range(1) by (simp add: n_def)
  then obtain t where t: "read_loop fs k (unat offset) n 0 buf
      = Some (t, \<lambda>i. if i < t then the (fbyte fs k (unat offset + i)) else buf i)"
    "t \<le> n" "\<forall>i < t. fbyte fs k (unat offset + i) \<noteq> None" "t < n \<longrightarrow> fbyte fs k (unat offset + t) = None"
    using read_loop_spec[OF inv live, of "unat offset" n 0 buf] by auto
  have "\<not> offset \<ge> ?sz" using range(1) by (simp add: word_le_nat_alt)
  with t live show ?thesis
    by (auto simp: idkfs_read_def inode_at_def live_def Let_def c simp del: unat_sub_if')
qed

end
