(* ===== verification/Core_Dir.thy ===== *)
theory Core_Dir
  imports Core_Ops Core_File
begin

text \<open>
  Correctness of the directory operations of \<^verbatim>\<open>idkfs_core.c\<close>. The contents of a well-formed directory
  inode are a list of entries, \<open>dir_list\<close>; \<open>idkfs_dir_add\<close> appends to it, \<open>idkfs_dir_lookup\<close> is
  \<open>map_of\<close> on it and \<open>idkfs_dir_remove\<close> deletes the first entry of a name, all by the laws of the
  interface \<open>directory_table\<close> and the contents refinement of \<^verbatim>\<open>Core_File\<close>.
\<close>

section \<open>Directory contents\<close>

definition dir_content :: "IDKFS \<Rightarrow> nat \<Rightarrow> Directory" where
  "dir_content fs k = (if i_size (inodes fs k) = 0 then zero_Directory
     else mem_Directory (\<lambda>p. the (fbyte fs k p)))"

definition dir_list :: "IDKFS \<Rightarrow> nat \<Rightarrow> entry list" where
  "dir_list fs k = dir_ents (dir_content fs k)"

definition dir_ok :: "IDKFS \<Rightarrow> nat \<Rightarrow> bool" where
  "dir_ok fs k \<longleftrightarrow> live fs k \<and> dir_fits (dir_content fs k) \<and> (i_size (inodes fs k) = 0 \<or>
     i_size (inodes fs k) = word_of_nat sizeof_Directory \<and> (\<forall>p < sizeof_Directory. fbyte fs k p \<noteq> None))"

definition names_ok :: "IDKFS \<Rightarrow> nat \<Rightarrow> bool" where
  "names_ok fs k = names_sized (dir_content fs k)"

text \<open>There are enough free blocks for the direct blocks the directory still lacks.\<close>

definition dir_need :: "IDKFS \<Rightarrow> nat \<Rightarrow> nat" where
  "dir_need fs k = card (missing fs k 0 sizeof_Directory)"

definition avail :: "IDKFS \<Rightarrow> nat" where
  "avail fs = card (free_set (bitmap fs))"

definition dir_room :: "IDKFS \<Rightarrow> nat \<Rightarrow> bool" where
  "dir_room fs k \<longleftrightarrow> dir_need fs k \<le> avail fs"

definition accessed :: "env \<Rightarrow> IDKFS \<Rightarrow> nat \<Rightarrow> IDKFS" where
  "accessed e fs k = (if timestamps (features fs) then upd_inode fs k (\<lambda>i. i\<lparr>i_atime := now e\<rparr>) else fs)"

text \<open>What a directory operation on \<open>k\<close> keeps.\<close>

definition dir_step :: "nat \<Rightarrow> IDKFS \<Rightarrow> IDKFS \<Rightarrow> bool" where
  "dir_step k fs fs' \<longleftrightarrow> block_inv fs' \<and> others_kept k fs fs' \<and> dir_ok fs' k \<and> features fs' = features fs
     \<and> data_start fs' = data_start fs \<and> sb_free_inodes (sb fs') = sb_free_inodes (sb fs)
     \<and> i_type (inodes fs' k) = i_type (inodes fs k) \<and> i_link_count (inodes fs' k) = i_link_count (inodes fs k)
     \<and> avail fs + dir_need fs' k \<le> avail fs' + dir_need fs k \<and> fixed fs' = fixed fs \<and> allocates fs fs'"

lemma dir_step_room: "dir_step k fs fs' \<Longrightarrow> dir_room fs k \<Longrightarrow> dir_room fs' k"
  by (simp add: dir_step_def dir_room_def)

lemma dir_step_inv: "dir_step k fs fs' \<Longrightarrow> block_inv fs'"
  and dir_step_ok: "dir_step k fs fs' \<Longrightarrow> dir_ok fs' k"
  and dir_step_fixed: "dir_step k fs fs' \<Longrightarrow> fixed fs' = fixed fs"
  and dir_step_allocates: "dir_step k fs fs' \<Longrightarrow> allocates fs fs'"
  and dir_step_others: "dir_step k fs fs' \<Longrightarrow> others_kept k fs fs'"
  by (simp_all add: dir_step_def)

lemma dir_step_trans: "dir_step k fs fs1 \<Longrightarrow> dir_step k fs1 fs2 \<Longrightarrow> dir_step k fs fs2"
  by (auto simp: dir_step_def intro: others_kept_trans allocates_trans)

lemma dir_ok_live: "dir_ok fs k \<Longrightarrow> live fs k"
  by (simp add: dir_ok_def)

lemma dir_ok_at: "dir_ok fs k \<Longrightarrow> inode_at fs k = Some (inodes fs k)"
  by (simp add: dir_ok_def live_def inode_at_def)

lemma size_word: "unat (word_of_nat sizeof_Directory :: u64) = sizeof_Directory"
  by (simp add: layout_simps)

lemma size_word_ne: "(word_of_nat sizeof_Directory :: u64) \<noteq> 0"
  by (simp add: layout_simps)

lemma dir_content_cong:
  assumes "i_size (inodes fs' k) = i_size (inodes fs k)" "\<And>p. p < sizeof_Directory \<Longrightarrow> fbyte fs' k p = fbyte fs k p"
  shows "dir_content fs' k = dir_content fs k"
  using assms mem_Directory_cong[of "\<lambda>p. the (fbyte fs' k p)" "\<lambda>p. the (fbyte fs k p)"] by (simp add: dir_content_def)

lemma dir_ok_cong:
  assumes "i_size (inodes fs' k) = i_size (inodes fs k)" "\<And>p. p < sizeof_Directory \<Longrightarrow> fbyte fs' k p = fbyte fs k p"
    and "i_link_count (inodes fs' k) = i_link_count (inodes fs k)"
  shows "dir_ok fs' k = dir_ok fs k" "dir_list fs' k = dir_list fs k"
  using assms dir_content_cong[OF assms(1,2)] by (auto simp: dir_ok_def dir_list_def live_def)

lemma others_kept_dir:
  assumes "others_kept k fs fs'" "k' \<noteq> k" "live fs k'"
  shows "dir_ok fs' k' = dir_ok fs k'" "dir_list fs' k' = dir_list fs k'"
proof -
  have "fbyte fs' k' p = fbyte fs k' p" if "p < sizeof_Directory" for p
    using that by (intro others_kept_fbyte[OF assms]) (simp add: layout_simps)
  moreover have "inodes fs' k' = inodes fs k'" using assms by (simp add: others_kept_def)
  ultimately show "dir_ok fs' k' = dir_ok fs k'" "dir_list fs' k' = dir_list fs k'"
    using dir_ok_cong[of fs' k' fs] by simp_all
qed

section \<open>Loading and storing the struct\<close>

lemma accessed_simps [simp]:
  "bitmap (accessed e fs k) = bitmap fs" "sb (accessed e fs k) = sb fs" "disk (accessed e fs k) = disk fs"
  "features (accessed e fs k) = features fs" "disk_size (accessed e fs k) = disk_size fs"
  "i_size (inodes (accessed e fs k) k') = i_size (inodes fs k')"
  "i_type (inodes (accessed e fs k) k') = i_type (inodes fs k')"
  "i_direct (inodes (accessed e fs k) k') = i_direct (inodes fs k')"
  "i_indirect1 (inodes (accessed e fs k) k') = i_indirect1 (inodes fs k')"
  "i_link_count (inodes (accessed e fs k) k') = i_link_count (inodes fs k')"
  by (simp_all add: accessed_def)

lemma accessed_fbyte [simp]: "fbyte (accessed e fs k) k' p = fbyte fs k' p"
  by (simp add: fbyte_def Let_def)

lemma accessed_names [simp]: "names_ok (accessed e fs k) k' = names_ok fs k'"
  using dir_content_cong[of "accessed e fs k" k' fs] by (simp add: names_ok_def)

lemma accessed_view [simp]:
  "live (accessed e fs k) k' = live fs k'"
  "dir_list (accessed e fs k) k' = dir_list fs k'" "dir_ok (accessed e fs k) k' = dir_ok fs k'"
  "dir_need (accessed e fs k) k' = dir_need fs k'" "avail (accessed e fs k) = avail fs"
  using dir_ok_cong[of "accessed e fs k" k' fs] by (simp_all add: live_def dir_need_def avail_def missing_def)

lemma accessed_inv: "block_inv fs \<Longrightarrow> block_inv (accessed e fs k)"
  and accessed_others: "block_inv fs \<Longrightarrow> others_kept k fs (accessed e fs k)"
  and accessed_allocates: "block_inv fs \<Longrightarrow> allocates fs (accessed e fs k)"
  using inv_upd_inode[of fs "\<lambda>i. i\<lparr>i_atime := now e\<rparr>" k] by (simp_all add: accessed_def)

lemma accessed_fixed [simp]: "fixed (accessed e fs k) = fixed fs"
  by (simp add: accessed_def)

lemma accessed_step: "block_inv fs \<Longrightarrow> dir_ok fs k \<Longrightarrow> dir_step k fs (accessed e fs k)"
  by (simp add: dir_step_def accessed_inv accessed_others accessed_allocates data_start_def)

lemma dir_read_spec:
  assumes inv: "block_inv fs" and ok: "dir_ok fs k" and size: "i_size (inodes fs k) \<noteq> 0"
  shows "dir_read e fs k = Some (accessed e fs k, dir_content fs k)"
proof -
  have live: "live fs k" and sz: "i_size (inodes fs k) = word_of_nat sizeof_Directory"
    and mapped: "\<forall>p < sizeof_Directory. fbyte fs k p \<noteq> None"
    using ok size by (auto simp: dir_ok_def)
  let ?buf = "\<lambda>t i. if i < t then the (fbyte fs k (unat (0 :: u64) + i)) else stack_bytes e i"
  obtain t where r: "idkfs_read e fs k (stack_bytes e) (word_of_nat sizeof_Directory) 0
      = Some (accessed e fs k, ?buf t, int t)"
    and t: "t \<le> sizeof_Directory" "t < sizeof_Directory \<longrightarrow> fbyte fs k t = None"
    using read_contents[OF inv live, of 0 "word_of_nat sizeof_Directory" e "stack_bytes e"]
    by (auto simp: sz size_word accessed_def) (auto simp: layout_simps)
  have "t = sizeof_Directory" using t mapped by (metis le_neq_implies_less)
  then have "mem_Directory (?buf t) = dir_content fs k"
    using size by (auto simp: dir_content_def intro: mem_Directory_cong)
  with r show ?thesis by (simp add: dir_read_def)
qed

lemma dir_write_spec:
  assumes inv: "block_inv fs" and ok: "dir_ok fs k" and room: "dir_room fs k" and fits: "dir_fits d"
  shows "\<exists>fs'. dir_write e fs k d = Some fs' \<and> dir_step k fs fs' \<and> dir_list fs' k = dir_ents d
    \<and> names_ok fs' k = names_sized d"
proof -
  have sz: "i_size (inodes fs k) \<le> word_of_nat sizeof_Directory"
    using ok by (auto simp: dir_ok_def)
  obtain fs' where w: "idkfs_write e fs k (Directory_mem d) (word_of_nat sizeof_Directory) 0 = Some (fs', int sizeof_Directory)"
    and p: "block_inv fs'" "live fs' k" "others_kept k fs fs'" "features fs' = features fs" "data_start fs' = data_start fs"
      "i_type (inodes fs' k) = i_type (inodes fs k)" "i_link_count (inodes fs' k) = i_link_count (inodes fs k)"
      "sb_free_inodes (sb fs') = sb_free_inodes (sb fs)" "i_size (inodes fs' k) = word_of_nat sizeof_Directory"
    and f: "\<forall>p < direct_span. fbyte fs' k p = put_bytes (fbyte fs k) (Directory_mem d) 0 sizeof_Directory p"
    and spent: "avail fs \<le> avail fs' + dir_need fs k" and fixed: "fixed fs' = fixed fs" "allocates fs fs'"
    using write_contents[OF inv dir_ok_live[OF ok], of 0 "word_of_nat sizeof_Directory" e "Directory_mem d"] room sz
    by (auto simp: size_word dir_room_def dir_need_def avail_def max_absorb2) (auto simp: layout_simps)
  have b: "fbyte fs' k p = Some (Directory_mem d p)" if "p < sizeof_Directory" for p
    using f that by (simp add: put_bytes_def layout_simps)
  have c: "dir_content fs' k = norm_Directory d"
    using mem_Directory_cong[of "\<lambda>p. the (fbyte fs' k p)" "Directory_mem d"] b size_word_ne
    by (simp add: dir_content_def p(9) mem_Directory_mem)
  have "missing fs' k 0 sizeof_Directory = {}"
  proof -
    have "fbyte fs' k (j * IDKFS_BLOCK_SIZE) \<noteq> None" if t: "touched 0 sizeof_Directory (j * IDKFS_BLOCK_SIZE)" for j
    proof -
      have "j < IDKFS_DIRECT_BLOCKS" using touched_block[OF t] by (simp add: layout_simps)
      with t f show ?thesis by (auto simp: put_bytes_def)
    qed
    then show ?thesis by (fastforce simp: missing_def fbyte_def)
  qed
  then have "dir_need fs' k = 0" by (simp add: dir_need_def)
  moreover have "dir_ok fs' k" using p(2,9) b c fits by (simp add: dir_ok_def)
  ultimately show ?thesis
    using w p c fits spent fixed by (intro exI[of _ fs']) (simp add: dir_write_def dir_step_def dir_list_def names_ok_def)
qed

section \<open>The operations\<close>

lemma dir_ok_fits: "dir_ok fs k \<Longrightarrow> dir_fits (dir_content fs k)"
  by (simp add: dir_ok_def)

lemma dir_add_spec:
  assumes inv: "block_inv fs" and ok: "dir_ok fs k" and room: "dir_room fs k" and name: "nul_free name"
  shows "\<exists>fs'. idkfs_dir_add e fs k name ino type
      = Some (fs', if length (dir_list fs k) < IDKFS_MAX_DIRENTS then 0 else - 1)
    \<and> dir_step k fs fs'
    \<and> dir_list fs' k = (if length (dir_list fs k) < IDKFS_MAX_DIRENTS
         then dir_list fs k @ [(stored_name name, ino, ft_code type)] else dir_list fs k)
    \<and> (length name \<le> IDKFS_MAX_FILENAME \<longrightarrow> names_ok fs k \<longrightarrow> names_ok fs' k)"
proof -
  let ?d = "dir_content fs k"
  obtain fs1 where load: "(if i_size (inodes fs k) = 0 then Some (fs, zero_Directory) else dir_read e fs k) = Some (fs1, ?d)"
    and s1: "dir_step k fs fs1" and l1: "dir_list fs1 k = dir_list fs k" "names_ok fs1 k = names_ok fs k"
  proof (cases "i_size (inodes fs k) = 0")
    case True
    with inv ok room show thesis by (intro that[of fs]) (auto simp: dir_content_def dir_step_def)
  next
    case False
    with inv ok room show thesis
      by (intro that[of "accessed e fs k"]) (auto simp: dir_read_spec accessed_step)
  qed
  have len: "unat (dir_count ?d) = length (dir_list fs k)" by (simp add: dir_list_def)
  show ?thesis
  proof (cases "length (dir_list fs k) < IDKFS_MAX_DIRENTS")
    case False
    then show ?thesis
      using load s1 l1 len by (simp add: idkfs_dir_add_def dir_ok_at[OF ok])
  next
    case True
    then have put: "dir_fits (dir_put ?d name (ino, ft_code type))"
      "dir_ents (dir_put ?d name (ino, ft_code type)) = dir_list fs k @ [(stored_name name, ino, ft_code type)]"
      using dirtab.put_ents[OF dir_ok_fits[OF ok] _ name, of "(ino, ft_code type)"] by (simp_all add: dir_list_def)
    obtain fs' where w: "dir_write e fs1 k (dir_put ?d name (ino, ft_code type)) = Some fs'"
      "dir_step k fs1 fs'" "dir_list fs' k = dir_list fs k @ [(stored_name name, ino, ft_code type)]"
      "names_ok fs' k = names_sized (dir_put ?d name (ino, ft_code type))"
      using dir_write_spec[OF dir_step_inv[OF s1] dir_step_ok[OF s1] dir_step_room[OF s1 room] put(1), of e] put(2) by auto
    moreover have "names_ok fs' k" if "length name \<le> IDKFS_MAX_FILENAME" "names_ok fs k"
      using that True len name w(4) by (simp add: names_ok_def names_sized_put)
    ultimately show ?thesis using True load len dir_step_trans[OF s1 w(2)]
      by (simp add: idkfs_dir_add_def dir_ok_at[OF ok])
  qed
qed

lemma dir_search:
  assumes "dir_ok fs k" "nul_free name"
  shows "dir_find (dir_content fs k) name 0 = Some (first_index (stored_name name) (dir_list fs k))"
  using dirtab.search_first[OF dir_ok_fits[OF assms(1)] assms(2)] by (simp add: dir_list_def)

lemma dir_list_empty: "i_size (inodes fs k) = 0 \<Longrightarrow> dir_list fs k = []"
  by (simp add: dir_list_def dir_content_def dir_ents_def zero_Directory_def)

lemma names_ok_empty: "i_size (inodes fs k) = 0 \<Longrightarrow> names_ok fs k"
  by (simp add: names_ok_def names_sized_def dir_content_def zero_Directory_def)

lemma dir_list_nth: "i < length (dir_list fs k) \<Longrightarrow> dir_list fs k ! i = dirent (dir_entries (dir_content fs k) i)"
  by (simp add: dir_list_def dir_ents_def)

lemma dir_lookup_spec:
  assumes inv: "block_inv fs" and ok: "dir_ok fs k" and name: "nul_free name"
  shows "\<exists>fs' \<in> {fs, accessed e fs k}. idkfs_dir_lookup e fs k name
      = Some (fs', case map_of (dir_list fs k) (stored_name name) of None \<Rightarrow> - 1 | Some (ino, type) \<Rightarrow> sint ino)"
proof (cases "i_size (inodes fs k) = 0")
  case True
  then show ?thesis by (simp add: idkfs_dir_lookup_def dir_ok_at[OF ok] dir_list_empty)
next
  case False
  note run = idkfs_dir_lookup_def dir_ok_at[OF ok] dir_read_spec[OF inv ok False] dir_search[OF ok name]
  show ?thesis
  proof (cases "first_index (stored_name name) (dir_list fs k)")
    case None
    with False show ?thesis by (simp add: run map_of_first_index)
  next
    case (Some i)
    with first_index_Some[OF Some] False show ?thesis
      by (simp add: run map_of_first_index dir_list_nth dirent_def)
  qed
qed

lemma dir_remove_spec:
  assumes inv: "block_inv fs" and ok: "dir_ok fs k" and room: "dir_room fs k" and name: "nul_free name"
    and dir: "i_type (inodes fs k) = ft_code IDKFS_FT_DIR"
  shows "\<exists>fs'. idkfs_dir_remove e fs k name
      = Some (fs', if stored_name name \<in> fst ` set (dir_list fs k) then 0 else - ENOENT)
    \<and> dir_step k fs fs'
    \<and> dir_list fs' k = remove_first (stored_name name) (dir_list fs k)"
proof (cases "i_size (inodes fs k) = 0")
  case True
  with inv ok room dir show ?thesis
    by (simp add: idkfs_dir_remove_def dir_ok_at[OF ok] dir_list_empty dir_step_def remove_first_def)
next
  case False
  note run = idkfs_dir_remove_def dir_ok_at[OF ok] dir_read_spec[OF inv ok False] dir_search[OF ok name] dir
  show ?thesis
  proof (cases "first_index (stored_name name) (dir_list fs k)")
    case None
    with False accessed_step[OF inv ok, of e] room first_index_None[of "stored_name name" "dir_list fs k"]
    show ?thesis by (simp add: run remove_first_def)
  next
    case (Some i)
    then have i: "i < length (dir_list fs k)" and hit: "stored_name name \<in> fst ` set (dir_list fs k)"
      using first_index_Some[OF Some] first_index_None[of "stored_name name" "dir_list fs k"] Some by simp_all
    have del: "dir_fits (dir_delete (dir_content fs k) i)" "dir_ents (dir_delete (dir_content fs k) i) = drop_nth i (dir_list fs k)"
      using dirtab.delete_ents[OF dir_ok_fits[OF ok]] i by (simp_all add: dir_list_def)
    have s1: "dir_step k fs (accessed e fs k)" by (rule accessed_step[OF inv ok])
    obtain fs' where w: "dir_write e (accessed e fs k) k (dir_delete (dir_content fs k) i) = Some fs'"
      "dir_step k (accessed e fs k) fs'" "dir_list fs' k = drop_nth i (dir_list fs k)"
      using dir_write_spec[OF dir_step_inv[OF s1] dir_step_ok[OF s1] dir_step_room[OF s1 room] del(1), of e] del(2) by auto
    moreover have "unat (dir_count (dir_content fs k)) \<le> IDKFS_MAX_DIRENTS" using dir_ok_fits[OF ok] by (simp add: dir_fits_def)
    ultimately show ?thesis using Some hit False dir_step_trans[OF s1 w(2)]
      by (simp add: run remove_first_def)
  qed
qed

end
