(* ===== verification/Core_Create.thy ===== *)
theory Core_Create
  imports Core_Dir
begin

text \<open>
  Correctness of \<open>inode_alloc\<close>, \<open>idkfs_create\<close>, \<open>idkfs_mkdir\<close> and \<open>idkfs_mkfs\<close> of
  \<^verbatim>\<open>idkfs_core.c\<close>: which inode is taken, that the ownership invariant and the count of free inodes
  survive, what the parent directory lists afterwards, and that a formatted image satisfies the
  invariants with which all other results start.
\<close>

section \<open>Taking an inode\<close>

definition free_inode_set :: "IDKFS \<Rightarrow> nat set" where
  "free_inode_set fs = {i. i < IDKFS_MAX_INODES \<and> i_link_count (inodes fs i) = 0}"

definition inodes_counted :: "IDKFS \<Rightarrow> bool" where
  "inodes_counted fs \<longleftrightarrow> live fs IDKFS_ROOT_INODE \<and> unat (sb_free_inodes (sb fs)) = card (free_inode_set fs)"

lemma finite_free_inodes [simp]: "finite (free_inode_set fs)"
  by (simp add: free_inode_set_def)

lemma live_not_free: "live fs k \<Longrightarrow> k \<notin> free_inode_set fs"
  by (simp add: free_inode_set_def live_def)

lemma find_upt:
  "find P [a..<b] = Some i \<Longrightarrow> a \<le> i \<and> i < b \<and> P i \<and> (\<forall>j. a \<le> j \<longrightarrow> j < i \<longrightarrow> \<not> P j)"
proof -
  assume "find P [a..<b] = Some i"
  then obtain n where n: "n < b - a" "P (a + n)" "i = a + n" "\<forall>m < n. \<not> P (a + m)"
    by (auto simp: find_Some_iff)
  have "\<not> P j" if "a \<le> j" "j < i" for j
    using that n(3) n(4)[rule_format, of "j - a"] by simp
  with n show ?thesis by auto
qed

lemma inode_alloc_cases:
  assumes "inodes_counted fs"
  obtains (full) "inode_alloc fs = (fs, - 1)" "free_inode_set fs = {}"
    | (got) i where "inode_alloc fs = ((upd_inode fs i (\<lambda>_. fresh_Inode i))
          \<lparr>sb := (sb fs)\<lparr>sb_free_inodes := sb_free_inodes (sb fs) - 1\<rparr>\<rparr>, int i)"
        "i \<in> free_inode_set fs" "i \<noteq> 0" "\<forall>j \<in> free_inode_set fs. i \<le> j"
proof (cases "find (\<lambda>i. i_link_count (inodes fs i) = 0) [1..<IDKFS_MAX_INODES]")
  case None
  have "i_link_count (inodes fs 0) \<noteq> 0" using assms by (simp add: inodes_counted_def live_def)
  with None have "free_inode_set fs = {}"
    by (auto simp: free_inode_set_def find_None_iff) (metis One_nat_def Suc_leI gr0I)
  with None show thesis by (intro full) (simp_all add: inode_alloc_def)
next
  case (Some i)
  have "0 \<notin> free_inode_set fs" using assms by (intro live_not_free) (simp add: inodes_counted_def)
  then have "\<forall>j \<in> free_inode_set fs. j \<noteq> 0" by metis
  with find_upt[OF Some] Some show thesis
    by (intro got[of i]) (auto simp: inode_alloc_def free_inode_set_def, metis One_nat_def Suc_leI gr0I not_le)
qed

text \<open>Putting an inode that points to nothing into a dead slot.\<close>

definition blank :: "Inode \<Rightarrow> bool" where
  "blank x \<longleftrightarrow> (\<forall>j < IDKFS_DIRECT_BLOCKS. i_direct x j = IDKFS_NULL_BLOCK) \<and> i_indirect1 x = IDKFS_NULL_BLOCK"

definition install :: "IDKFS \<Rightarrow> nat \<Rightarrow> Inode \<Rightarrow> u32 \<Rightarrow> IDKFS" where
  "install fs i x n = (upd_inode fs i (\<lambda>_. x))\<lparr>sb := (sb fs)\<lparr>sb_free_inodes := n\<rparr>\<rparr>"

lemma install_simps [simp]:
  "bitmap (install fs i x n) = bitmap fs" "disk (install fs i x n) = disk fs" "disk_size (install fs i x n) = disk_size fs"
  "features (install fs i x n) = features fs" "inodes (install fs i x n) = (inodes fs)(i := x)"
  "sb_free_inodes (sb (install fs i x n)) = n" "sb_free_blocks (sb (install fs i x n)) = sb_free_blocks (sb fs)"
  "sb_data_start_block (sb (install fs i x n)) = sb_data_start_block (sb fs)"
  by (simp_all add: install_def)

lemma fixed_install [simp]: "fixed (install fs i x n) = fixed fs"
  by (rule fixed_cong) (simp_all add: install_def)

text \<open>An inode may be put into slot \<open>i\<close> without touching anybody's blocks.\<close>

lemma install_inv:
  assumes inv: "block_inv fs" and dead: "blank x \<or> i_link_count x = 0"
  shows "block_inv (install fs i x n)" "others_kept i fs (install fs i x n)" "allocates fs (install fs i x n)"
proof -
  let ?fs' = "install fs i x n"
  show kept: "others_kept i fs ?fs'" by (simp add: others_kept_def disk_same_block)
  have no: "\<not> owns ?fs' i s b" for s b
    using dead by (cases s) (auto simp: owns_def live_def blank_def)
  have shrink: "owns fs k s b" if "owns ?fs' k s b" for k s b
    using that no others_kept_owns[OF kept, of k s b] by (cases "k = i") auto
  then show "allocates fs ?fs'" by (intro allocates_shrink) simp_all
  from shrink show "block_inv ?fs'"
    using inv by (intro inv_keep[OF inv]) (auto simp: block_inv_def geometry_def data_start_def)
qed

lemma install_view:
  assumes "k \<noteq> i"
  shows "fbyte (install fs i x n) k p = fbyte fs k p" "live (install fs i x n) k = live fs k"
    "dir_ok (install fs i x n) k = dir_ok fs k" "dir_list (install fs i x n) k = dir_list fs k"
    "dir_need (install fs i x n) k = dir_need fs k" "names_ok (install fs i x n) k = names_ok fs k"
proof -
  show f: "fbyte (install fs i x n) k p = fbyte fs k p" for p
    using assms by (simp add: fbyte_def Let_def)
  show "live (install fs i x n) k = live fs k" "dir_need (install fs i x n) k = dir_need fs k"
    using assms by (simp_all add: live_def dir_need_def missing_def)
  show "dir_ok (install fs i x n) k = dir_ok fs k" "dir_list (install fs i x n) k = dir_list fs k"
    using assms f dir_ok_cong[of "install fs i x n" k fs] by simp_all
  show "names_ok (install fs i x n) k = names_ok fs k"
    using assms f dir_content_cong[of "install fs i x n" k fs] by (simp add: names_ok_def)
qed

lemma avail_install [simp]: "avail (install fs i x n) = avail fs"
  by (simp add: avail_def)

lemma install_empty_dir:
  assumes "i < IDKFS_MAX_INODES" "i_link_count x \<noteq> 0" "i_size x = 0"
  shows "dir_ok (install fs i x n) i" "dir_list (install fs i x n) i = []"
  using assms by (simp_all add: dir_ok_def live_def dir_content_def dir_fits_def zero_Directory_def dir_list_empty)

lemma touched_dir: "touched 0 sizeof_Directory (j * IDKFS_BLOCK_SIZE) \<Longrightarrow> j < 9"
  unfolding touched_def by (auto simp: layout_simps)

lemma dir_need_bound: "dir_need fs k \<le> 9"
proof -
  have "missing fs k 0 sizeof_Directory \<subseteq> {..<9}"
    using touched_dir by (auto simp: missing_def)
  from card_mono[OF _ this] show ?thesis by (simp add: dir_need_def)
qed

section \<open>\<open>idkfs_create\<close>\<close>

text \<open>The inode \<open>idkfs_create\<close> sets up before it enters it in the parent directory.\<close>

definition file_Inode :: "env \<Rightarrow> nat \<Rightarrow> SpeedTier \<Rightarrow> u16 \<Rightarrow> Inode" where
  "file_Inode e i tier mode = (fresh_Inode i)\<lparr>i_type := ft_code IDKFS_FT_FILE, i_tier := tier_code tier,
     i_mode := mode, i_link_count := 1, i_atime := now e, i_mtime := now e, i_ctime := now e\<rparr>"

lemma blank_fresh: "blank (fresh_Inode i)"
  by (simp add: blank_def fresh_Inode_def)

lemma file_Inode_simps [simp]:
  "blank (file_Inode e i tier mode)" "i_link_count (file_Inode e i tier mode) = 1" "i_size (file_Inode e i tier mode) = 0"
  "i_direct (file_Inode e i tier mode) = i_direct (fresh_Inode i)"
  using blank_fresh by (simp_all add: file_Inode_def blank_def) (simp add: fresh_Inode_def zero_Inode_def)

lemma free_inodes_install:
  assumes "i \<in> free_inode_set fs" "i_link_count x \<noteq> 0"
  shows "free_inode_set (install fs i x n) = free_inode_set fs - {i}"
  using assms by (auto simp: free_inode_set_def)

lemma counted_install:
  assumes c: "inodes_counted fs" and i: "i \<in> free_inode_set fs" and x: "i_link_count x \<noteq> 0"
  shows "inodes_counted (install fs i x (sb_free_inodes (sb fs) - 1))"
proof -
  have c1: "card (free_inode_set fs) = Suc (card (free_inode_set fs - {i}))"
    by (rule card.remove[OF finite_free_inodes i])
  have u: "unat (sb_free_inodes (sb fs)) = card (free_inode_set fs)" and l: "live fs 0"
    using c by (simp_all add: inodes_counted_def)
  have "unat (sb_free_inodes (sb fs)) \<noteq> 0" using c1 u by linarith
  then have "unat (sb_free_inodes (sb fs) - 1) = unat (sb_free_inodes (sb fs)) - 1"
    by (intro unat_minus_one) auto
  then have n: "unat (sb_free_inodes (sb fs) - 1) = card (free_inode_set fs - {i})"
    using c1 u by linarith
  have "i \<noteq> 0" using live_not_free[OF l] i by metis
  with n l show ?thesis
    unfolding inodes_counted_def free_inodes_install[OF i x] by (simp add: install_view)
qed

lemma counted_cong:
  assumes "\<And>k. i_link_count (inodes fs' k) = i_link_count (inodes fs k)" "sb_free_inodes (sb fs') = sb_free_inodes (sb fs)"
  shows "inodes_counted fs' = inodes_counted fs"
  using assms by (simp add: inodes_counted_def live_def free_inode_set_def)

lemma dir_step_links: "dir_step k fs fs' \<Longrightarrow> i_link_count (inodes fs' k') = i_link_count (inodes fs k')"
  by (cases "k' = k") (auto simp: dir_step_def others_kept_def)

lemma dir_step_counted: "dir_step k fs fs' \<Longrightarrow> inodes_counted fs' = inodes_counted fs"
  by (rule counted_cong) (simp_all add: dir_step_links, simp add: dir_step_def)

lemma dir_step_other: "dir_step k fs fs' \<Longrightarrow> k' \<noteq> k \<Longrightarrow> inodes fs' k' = inodes fs k'"
  by (simp add: dir_step_def others_kept_def)

text \<open>Every file and directory other than the ones named is as before, down to its bytes.\<close>

definition rest_kept :: "nat set \<Rightarrow> IDKFS \<Rightarrow> IDKFS \<Rightarrow> bool" where
  "rest_kept A fs fs' \<longleftrightarrow> (\<forall>k. k \<notin> A \<longrightarrow> inodes fs' k = inodes fs k
     \<and> (live fs k \<longrightarrow> dir_list fs' k = dir_list fs k \<and> (\<forall>p < direct_span. fbyte fs' k p = fbyte fs k p)))"

lemma others_rest: "others_kept k fs fs' \<Longrightarrow> k \<in> A \<Longrightarrow> rest_kept A fs fs'"
  unfolding rest_kept_def using others_kept_fbyte[of k fs fs'] others_kept_dir(2)[of k fs fs']
  by (metis others_kept_def)

lemma rest_trans: "rest_kept A fs fs1 \<Longrightarrow> rest_kept A fs1 fs2 \<Longrightarrow> rest_kept A fs fs2"
  by (fastforce simp: rest_kept_def live_def)

lemma rest_mono: "rest_kept A fs fs' \<Longrightarrow> A \<subseteq> B \<Longrightarrow> rest_kept B fs fs'"
  by (auto simp: rest_kept_def)

text \<open>The state once a new, empty inode \<open>x\<close> is in the free slot \<open>i\<close>.\<close>

lemma new_inode:
  assumes inv: "block_inv fs" and cnt: "inodes_counted fs" and i: "i \<in> free_inode_set fs"
    and x: "blank x" "i_link_count x \<noteq> 0" and p: "dir_ok fs parent"
  defines "fs1 \<equiv> install fs i x (sb_free_inodes (sb fs) - 1)"
  shows "parent \<noteq> i" "block_inv fs1" "inodes_counted fs1" "dir_ok fs1 parent" "dir_list fs1 parent = dir_list fs parent"
    "dir_need fs1 parent = dir_need fs parent" "avail fs1 = avail fs" "rest_kept {i} fs fs1" "allocates fs fs1"
    "names_ok fs1 parent = names_ok fs parent"
proof -
  show pi: "parent \<noteq> i" using i live_not_free[OF dir_ok_live[OF p]] by metis
  show "block_inv fs1" unfolding fs1_def using x by (intro install_inv(1)[OF inv]) simp
  show "allocates fs fs1" unfolding fs1_def using x by (intro install_inv(3)[OF inv]) simp
  show "inodes_counted fs1" unfolding fs1_def by (rule counted_install[OF cnt i x(2)])
  show "dir_ok fs1 parent" "dir_list fs1 parent = dir_list fs parent" "dir_need fs1 parent = dir_need fs parent"
    "avail fs1 = avail fs" "names_ok fs1 parent = names_ok fs parent"
    unfolding fs1_def using p by (simp_all add: install_view[OF pi])
  show "rest_kept {i} fs fs1"
    unfolding fs1_def by (rule others_rest[OF install_inv(2)[OF inv]]) (use x in simp_all)
qed

text \<open>Giving a new inode back.\<close>

lemma drop_inode:
  assumes inv: "block_inv fs2" and cnt: "inodes_counted fs" and i: "i \<in> free_inode_set fs" and p: "dir_ok fs2 parent" "parent \<noteq> i"
    and links: "\<And>k. k \<noteq> i \<Longrightarrow> i_link_count (inodes fs2 k) = i_link_count (inodes fs k)"
    and n: "sb_free_inodes (sb fs2) = sb_free_inodes (sb fs) - 1"
  defines "fs3 \<equiv> install fs2 i zero_Inode (sb_free_inodes (sb fs2) + 1)"
  shows "block_inv fs3" "free_inode_set fs3 = free_inode_set fs" "inodes_counted fs3" "dir_ok fs3 parent"
    "dir_list fs3 parent = dir_list fs2 parent" "rest_kept {i} fs2 fs3" "allocates fs2 fs3"
proof -
  show "block_inv fs3" unfolding fs3_def by (rule install_inv(1)[OF inv]) (simp add: zero_Inode_def)
  show "allocates fs2 fs3" unfolding fs3_def by (rule install_inv(3)[OF inv]) (simp add: zero_Inode_def)
  show fr: "free_inode_set fs3 = free_inode_set fs"
    unfolding fs3_def using i links by (auto simp: free_inode_set_def zero_Inode_def split: if_splits)
  have l: "live fs 0" and c: "unat (sb_free_inodes (sb fs)) = card (free_inode_set fs)"
    using cnt by (simp_all add: inodes_counted_def)
  have "i \<noteq> 0" using live_not_free[OF l] i by metis
  then have "live fs3 0" using l links[of 0] by (simp add: fs3_def live_def)
  with fr c n show "inodes_counted fs3" by (simp add: inodes_counted_def fs3_def)
  show "dir_ok fs3 parent" "dir_list fs3 parent = dir_list fs2 parent"
    unfolding fs3_def using p by (simp_all add: install_view)
  show "rest_kept {i} fs2 fs3"
    unfolding fs3_def by (rule others_rest[OF install_inv(2)[OF inv]]) (simp_all add: zero_Inode_def)
qed

lemma create_cases:
  assumes inv: "block_inv fs" and cnt: "inodes_counted fs" and ok: "dir_ok fs parent" and room: "dir_room fs parent"
    and name: "nul_free name"
  obtains (no_inode) "idkfs_create e fs parent name tier mode = Some (fs, - 1)" "free_inode_set fs = {}"
    | (made) fs' i where "idkfs_create e fs parent name tier mode = Some (fs', int i)"
        "i \<in> free_inode_set fs" "\<forall>j \<in> free_inode_set fs. i \<le> j" "length (dir_list fs parent) < IDKFS_MAX_DIRENTS"
        "block_inv fs'" "inodes_counted fs'" "dir_ok fs' parent" "inodes fs' i = file_Inode e i tier mode"
        "dir_list fs' parent = dir_list fs parent @ [(stored_name name, word_of_nat i, ft_code IDKFS_FT_FILE)]"
        "rest_kept {parent, i} fs fs'" "i_type (inodes fs' parent) = i_type (inodes fs parent)" "fixed fs' = fixed fs"
        "allocates fs fs'" "length name \<le> IDKFS_MAX_FILENAME \<longrightarrow> names_ok fs parent \<longrightarrow> names_ok fs' parent"
        "avail fs \<le> avail fs' + dir_need fs parent"
    | (dir_full) fs' where "idkfs_create e fs parent name tier mode = Some (fs', - 1)"
        "length (dir_list fs parent) = IDKFS_MAX_DIRENTS"
        "block_inv fs'" "inodes_counted fs'" "dir_ok fs' parent" "free_inode_set fs' = free_inode_set fs"
        "dir_list fs' parent = dir_list fs parent"
        "\<exists>i \<in> free_inode_set fs. rest_kept {parent, i} fs fs'" "i_type (inodes fs' parent) = i_type (inodes fs parent)" "fixed fs' = fixed fs"
        "allocates fs fs'"
proof (cases rule: inode_alloc_cases[OF cnt])
  case 1
  then show thesis by (intro no_inode) (simp_all add: idkfs_create_def)
next
  case (2 i)
  let ?x = "file_Inode e i tier mode" and ?ent = "(stored_name name, word_of_nat i, ft_code IDKFS_FT_FILE)"
  let ?fs1 = "install fs i ?x (sb_free_inodes (sb fs) - 1)"
  note n = new_inode[OF inv cnt 2(2) file_Inode_simps(1) _ ok, of e i tier mode, simplified]
  have i: "i < IDKFS_MAX_INODES" using 2(2) by (simp add: free_inode_set_def)
  have start: "upd_inode (fst (inode_alloc fs)) i (\<lambda>i. i\<lparr>i_type := ft_code IDKFS_FT_FILE, i_tier := tier_code tier,
          i_mode := mode, i_link_count := 1, i_atime := now e, i_mtime := now e, i_ctime := now e\<rparr>) = ?fs1"
    unfolding 2(1) by (simp add: install_def upd_inode_def file_Inode_def)
  obtain fs2 where add: "idkfs_dir_add e ?fs1 parent name (word_of_nat i) IDKFS_FT_FILE
      = Some (fs2, if length (dir_list fs parent) < IDKFS_MAX_DIRENTS then 0 else - 1)"
    and s2: "dir_step parent ?fs1 fs2" and l2: "dir_list fs2 parent = (if length (dir_list fs parent) < IDKFS_MAX_DIRENTS
         then dir_list fs parent @ [?ent] else dir_list fs parent)"
    and m2: "length name \<le> IDKFS_MAX_FILENAME \<longrightarrow> names_ok fs parent \<longrightarrow> names_ok fs2 parent"
    using dir_add_spec[OF n(2,4) _ name, of e "word_of_nat i" IDKFS_FT_FILE] room n(5-7) n(10)
    by (auto simp: dir_room_def)
  have k2: "rest_kept {parent, i} fs fs2"
    by (rule rest_trans[OF rest_mono[OF n(8)] others_rest[OF dir_step_others[OF s2]]]) simp_all
  show thesis
  proof (cases "length (dir_list fs parent) < IDKFS_MAX_DIRENTS")
    case True
    have "idkfs_create e fs parent name tier mode = Some (fs2, int i)"
      using add True start 2(1) by (simp add: idkfs_create_def)
    moreover have "inodes fs2 i = ?x" "i_type (inodes fs2 parent) = i_type (inodes fs parent)"
      using dir_step_other[OF s2, of i] n(1) s2 by (simp_all add: dir_step_def)
    moreover have "avail fs \<le> avail fs2 + dir_need fs parent" using s2 n(6,7) by (simp add: dir_step_def)
    ultimately show thesis
      using True 2 l2 m2 k2 s2 n(3) allocates_trans[OF n(9) dir_step_allocates[OF s2]] by (intro made[of fs2 i]) (simp_all add: dir_step_inv dir_step_ok dir_step_counted dir_step_fixed)
  next
    case False
    let ?fs3 = "install fs2 i zero_Inode (sb_free_inodes (sb fs2) + 1)"
    have run: "idkfs_create e fs parent name tier mode = Some (?fs3, - 1)"
      using add False start 2(1) i by (simp add: idkfs_create_def inode_free_def install_def)
    have "i_link_count (inodes fs2 k) = i_link_count (inodes fs k)" if "k \<noteq> i" for k
      using dir_step_links[OF s2, of k] that by simp
    note d = drop_inode[OF dir_step_inv[OF s2] cnt 2(2) dir_step_ok[OF s2] n(1) this]
    have sb2: "sb_free_inodes (sb fs2) = sb_free_inodes (sb fs) - 1" using s2 by (simp add: dir_step_def)
    have ty3: "i_type (inodes ?fs3 parent) = i_type (inodes fs parent)" using s2 n(1) by (simp add: dir_step_def)
    have "length (dir_list fs parent) = IDKFS_MAX_DIRENTS"
      using False dir_ok_fits[OF ok] by (simp add: dir_list_def dir_fits_def)
    moreover have "rest_kept {parent, i} fs ?fs3"
      by (rule rest_trans[OF k2 rest_mono[OF d(6)[OF _ sb2]]]) simp_all
    moreover have "allocates fs ?fs3"
      by (rule allocates_trans[OF n(9) allocates_trans[OF dir_step_allocates[OF s2] d(7)[OF _ sb2]]])
    ultimately show thesis
      using run d(1-5)[OF _ sb2] l2 False 2(2) ty3 dir_step_fixed[OF s2] by (intro dir_full[of ?fs3]) auto
  qed
qed

section \<open>\<open>idkfs_mkdir\<close>\<close>

definition dir_Inode :: "env \<Rightarrow> nat \<Rightarrow> u16 \<Rightarrow> Inode" where
  "dir_Inode e i mode = (fresh_Inode i)\<lparr>i_type := ft_code IDKFS_FT_DIR, i_tier := tier_code TIER_NORMAL,
     i_mode := mode, i_link_count := 2, i_atime := now e, i_mtime := now e, i_ctime := now e\<rparr>"

lemma dir_Inode_simps [simp]:
  "blank (dir_Inode e i mode)" "i_link_count (dir_Inode e i mode) = 2" "i_size (dir_Inode e i mode) = 0"
  "i_type (dir_Inode e i mode) = 2"
  using blank_fresh by (simp_all add: dir_Inode_def blank_def) (simp add: fresh_Inode_def zero_Inode_def)

lemma nul_free_dots [simp]: "nul_free dot" "nul_free dotdot"
  by (simp_all add: nul_free_def dot_def dotdot_def)

lemma stored_dots [simp]: "stored_name dot = dot" "stored_name dotdot = dotdot"
  by (simp_all add: stored_name_def dot_def dotdot_def)

lemma length_dots: "length dot \<le> IDKFS_MAX_FILENAME" "length dotdot \<le> IDKFS_MAX_FILENAME"
  by (simp_all add: dot_def dotdot_def)

text \<open>The two entries every directory starts with.\<close>

definition dot_entries :: "u32 \<Rightarrow> u32 \<Rightarrow> entry list" where
  "dot_entries self parent = [(dot, self, ft_code IDKFS_FT_DIR), (dotdot, parent, ft_code IDKFS_FT_DIR)]"

lemma add_dots:
  assumes inv: "block_inv fs" and ok: "dir_ok fs k" and empty: "dir_list fs k = []" and room: "dir_room fs k"
  shows "\<exists>fs1 fs2. idkfs_dir_add e fs k dot self IDKFS_FT_DIR = Some (fs1, 0)
    \<and> idkfs_dir_add e fs1 k dotdot parent IDKFS_FT_DIR = Some (fs2, 0)
    \<and> dir_step k fs fs2 \<and> dir_list fs2 k = dot_entries self parent \<and> (names_ok fs k \<longrightarrow> names_ok fs2 k)"
proof -
  obtain fs1 where 1: "idkfs_dir_add e fs k dot self IDKFS_FT_DIR = Some (fs1, 0)" "dir_step k fs fs1"
    "dir_list fs1 k = [(dot, self, ft_code IDKFS_FT_DIR)]" "names_ok fs k \<longrightarrow> names_ok fs1 k"
    using length_dots dir_add_spec[OF inv ok room nul_free_dots(1), of e self IDKFS_FT_DIR] empty by auto
  obtain fs2 where 2: "idkfs_dir_add e fs1 k dotdot parent IDKFS_FT_DIR = Some (fs2, 0)" "dir_step k fs1 fs2"
    "dir_list fs2 k = dot_entries self parent" "names_ok fs1 k \<longrightarrow> names_ok fs2 k"
    using length_dots dir_add_spec[OF dir_step_inv[OF 1(2)] dir_step_ok[OF 1(2)] dir_step_room[OF 1(2) room] nul_free_dots(2),
        of e parent IDKFS_FT_DIR] 1(3) by (auto simp: dot_entries_def)
  from 1 2 dir_step_trans[OF 1(2) 2(2)] show ?thesis by blast
qed

text \<open>The increment of the parent's link count.\<close>

lemma bump_links:
  assumes inv: "block_inv fs" and ok: "dir_ok fs k" and big: "i_link_count (inodes fs k) + 1 \<noteq> 0"
  defines "fs' \<equiv> upd_inode fs k (\<lambda>i. i\<lparr>i_link_count := i_link_count i + 1\<rparr>)"
  shows "block_inv fs'" "dir_ok fs' k" "dir_list fs' k' = dir_list fs k'" "rest_kept {k} fs fs'"
    "inodes_counted fs' = inodes_counted fs" "dir_ok fs' k' = dir_ok fs k'" "allocates fs fs'"
proof -
  have nz: "i_link_count (inodes fs k) \<noteq> 0" using ok by (simp add: dir_ok_def live_def)
  note u = inv_upd_inode[OF inv, of "\<lambda>i. i\<lparr>i_link_count := i_link_count i + 1\<rparr>" k, simplified, folded fs'_def]
  show "block_inv fs'" "allocates fs fs'" using u nz big by simp_all
  have f: "fbyte fs' k' p = fbyte fs k' p" for k' p by (simp add: fbyte_def fs'_def Let_def)
  have c: "dir_content fs' k' = dir_content fs k'" for k'
    by (rule dir_content_cong) (simp_all add: f, simp add: fs'_def)
  have l: "live fs' k' = live fs k'" for k' using nz big by (simp add: live_def fs'_def)
  have s: "i_size (inodes fs' k') = i_size (inodes fs k')" for k' by (simp add: fs'_def)
  show o: "dir_ok fs' k' = dir_ok fs k'" for k' by (simp add: dir_ok_def c l f s)
  from ok o show "dir_ok fs' k" by simp
  show "dir_list fs' k' = dir_list fs k'" by (simp add: dir_list_def c)
  show "rest_kept {k} fs fs'" using u nz big by (intro others_rest) simp_all
  have "free_inode_set fs' = free_inode_set fs"
    using nz big by (auto simp: free_inode_set_def fs'_def)
  then show "inodes_counted fs' = inodes_counted fs" by (simp add: inodes_counted_def l) (simp add: fs'_def)
qed

lemma others_need: "others_kept k fs fs' \<Longrightarrow> k' \<noteq> k \<Longrightarrow> dir_need fs' k' = dir_need fs k'"
  by (simp add: dir_need_def missing_def others_kept_def)

lemma mkdir_cases:
  assumes inv: "block_inv fs" and cnt: "inodes_counted fs" and ok: "dir_ok fs parent"
    and room: "dir_need fs parent + 9 \<le> avail fs"
    and links: "i_link_count (inodes fs parent) + 1 \<noteq> 0" and name: "nul_free name"
  obtains (no_inode) "idkfs_mkdir e fs parent name mode = Some (fs, - 1)" "free_inode_set fs = {}"
    | (made) fs' i where "idkfs_mkdir e fs parent name mode = Some (fs', int i)"
        "i \<in> free_inode_set fs" "\<forall>j \<in> free_inode_set fs. i \<le> j"
        "block_inv fs'" "inodes_counted fs'" "dir_ok fs' parent" "dir_ok fs' i" "i_type (inodes fs' i) = ft_code IDKFS_FT_DIR"
        "dir_list fs' i = dot_entries (word_of_nat i) (word_of_nat parent)"
        "dir_list fs' parent = (if length (dir_list fs parent) < IDKFS_MAX_DIRENTS
           then dir_list fs parent @ [(stored_name name, word_of_nat i, ft_code IDKFS_FT_DIR)] else dir_list fs parent)"
        "i_link_count (inodes fs' parent) = i_link_count (inodes fs parent) + 1"
        "rest_kept {parent, i} fs fs'" "i_type (inodes fs' parent) = i_type (inodes fs parent)" "fixed fs' = fixed fs"
        "allocates fs fs'"
proof (cases rule: inode_alloc_cases[OF cnt])
  case 1
  then show thesis by (intro no_inode) (simp_all add: idkfs_mkdir_def)
next
  case (2 i)
  let ?x = "dir_Inode e i mode"
  let ?fs1 = "install fs i ?x (sb_free_inodes (sb fs) - 1)"
  note n = new_inode[OF inv cnt 2(2) dir_Inode_simps(1) _ ok, of e i mode, simplified]
  have i: "i < IDKFS_MAX_INODES" using 2(2) by (simp add: free_inode_set_def)
  note d1 = install_empty_dir[OF i, of ?x fs "sb_free_inodes (sb fs) - 1", simplified]
  have start: "upd_inode (fst (inode_alloc fs)) i (\<lambda>i. i\<lparr>i_type := ft_code IDKFS_FT_DIR, i_tier := tier_code TIER_NORMAL,
          i_mode := mode, i_link_count := 2, i_atime := now e, i_mtime := now e, i_ctime := now e\<rparr>) = ?fs1"
    unfolding 2(1) by (simp add: install_def upd_inode_def dir_Inode_def)
  have "dir_room ?fs1 i" using room dir_need_bound[of ?fs1 i] by (simp add: dir_room_def)
  then obtain fs2 fs3 where add: "idkfs_dir_add e ?fs1 i dot (word_of_nat i) IDKFS_FT_DIR = Some (fs2, 0)"
      "idkfs_dir_add e fs2 i dotdot (word_of_nat parent) IDKFS_FT_DIR = Some (fs3, 0)"
    and s3: "dir_step i ?fs1 fs3" and l3: "dir_list fs3 i = dot_entries (word_of_nat i) (word_of_nat parent)"
    using add_dots[OF n(2) d1, of e "word_of_nat i" "word_of_nat parent"] by blast
  have p3: "dir_ok fs3 parent" "dir_list fs3 parent = dir_list fs parent" "dir_need fs3 parent = dir_need fs parent"
    using others_kept_dir[OF dir_step_others[OF s3] n(1) dir_ok_live[OF n(4)]] others_need[OF dir_step_others[OF s3] n(1)]
      n(4-6) by simp_all
  have "avail ?fs1 \<le> avail fs3 + dir_need ?fs1 i" using s3 by (simp add: dir_step_def)
  then have "dir_room fs3 parent"
    using room p3(3) dir_need_bound[of ?fs1 i] by (simp add: dir_room_def)
  then obtain fs4 r where add4: "idkfs_dir_add e fs3 parent name (word_of_nat i) IDKFS_FT_DIR = Some (fs4, r)"
    and s4: "dir_step parent fs3 fs4" and l4: "dir_list fs4 parent = (if length (dir_list fs parent) < IDKFS_MAX_DIRENTS
         then dir_list fs parent @ [(stored_name name, word_of_nat i, ft_code IDKFS_FT_DIR)] else dir_list fs parent)"
    using dir_add_spec[OF dir_step_inv[OF s3] p3(1) _ name, of e "word_of_nat i" IDKFS_FT_DIR] p3(2) by auto
  have i4: "dir_ok fs4 i" "dir_list fs4 i = dot_entries (word_of_nat i) (word_of_nat parent)"
    using others_kept_dir[OF dir_step_others[OF s4] _ dir_ok_live[OF dir_step_ok[OF s3]]] n(1) dir_step_ok[OF s3] l3 by auto
  have lk: "i_link_count (inodes fs4 parent) = i_link_count (inodes fs parent)"
    using dir_step_links[OF s4, of parent] dir_step_links[OF s3, of parent] n(1) by simp
  let ?fs5 = "upd_inode fs4 parent (\<lambda>i. i\<lparr>i_link_count := i_link_count i + 1\<rparr>)"
  note b = bump_links[OF dir_step_inv[OF s4] dir_step_ok[OF s4], unfolded lk, OF links]
  have run: "idkfs_mkdir e fs parent name mode = Some (?fs5, int i)"
    using add add4 start 2(1) dir_ok_at[OF dir_step_ok[OF s4]] by (simp add: idkfs_mkdir_def)
  have ty: "i_type (inodes ?fs5 i) = ft_code IDKFS_FT_DIR"
    using dir_step_other[OF s4, of i] s3 n(1) by (simp add: dir_step_def)
  have tp: "i_type (inodes ?fs5 parent) = i_type (inodes fs parent)"
    using s4 dir_step_other[OF s3 n(1)] n(1) by (simp add: dir_step_def)
  have "inodes_counted ?fs5"
    using b(5) dir_step_counted[OF s4] dir_step_counted[OF s3] n(3) by simp
  moreover have "rest_kept {parent, i} fs ?fs5"
    by (rule rest_trans[OF rest_mono[OF n(8)] rest_trans[OF others_rest[OF dir_step_others[OF s3]]
        rest_trans[OF others_rest[OF dir_step_others[OF s4]] rest_mono[OF b(4)]]]]) simp_all
  moreover have "allocates fs ?fs5"
    by (rule allocates_trans[OF n(9) allocates_trans[OF dir_step_allocates[OF s3] allocates_trans[OF dir_step_allocates[OF s4] b(7)]]])
  ultimately show thesis
    using b 2 i4 l4 lk ty tp dir_step_fixed[OF s4] dir_step_fixed[OF s3] by (intro made[OF run]) simp_all
qed

end
