(* ===== verification/Fuse_Path.thy ===== *)
theory Fuse_Path
  imports Fuse Core_Create
begin

text \<open>
  Path resolution of the FUSE front end. A walk through the directory tree is a pure function on the
  listings of the directories, \<open>tree_walk\<close>; \<open>resolve_path\<close> computes it and changes access times only.
  \<open>tree_ok\<close> is the well-formedness of the whole tree under which no path leads outside of the inode
  table.
\<close>

section \<open>States that differ in access times only\<close>

definition erase_atime :: "IDKFS \<Rightarrow> IDKFS" where
  "erase_atime fs = fs\<lparr>inodes := (\<lambda>k. (inodes fs k)\<lparr>i_atime := 0\<rparr>)\<rparr>"

definition same_files :: "IDKFS \<Rightarrow> IDKFS \<Rightarrow> bool" where
  "same_files fs fs' \<longleftrightarrow> erase_atime fs' = erase_atime fs"

lemma same_files_refl [simp]: "same_files fs fs"
  by (simp add: same_files_def)

lemma same_files_trans: "same_files fs fs1 \<Longrightarrow> same_files fs1 fs2 \<Longrightarrow> same_files fs fs2"
  by (simp add: same_files_def)

lemma same_files_accessed: "same_files fs (accessed e fs k)"
  by (auto simp: same_files_def erase_atime_def accessed_def upd_inode_def fun_eq_iff)

lemma same_files_fields:
  assumes "same_files fs fs'"
  shows "sb fs' = sb fs" "bitmap fs' = bitmap fs" "disk fs' = disk fs" "disk_size fs' = disk_size fs"
    "features fs' = features fs" "(inodes fs' k)\<lparr>i_atime := 0\<rparr> = (inodes fs k)\<lparr>i_atime := 0\<rparr>"
proof -
  have e: "erase_atime fs' = erase_atime fs" using assms by (simp add: same_files_def)
  have "sb (erase_atime fs') = sb (erase_atime fs)" "bitmap (erase_atime fs') = bitmap (erase_atime fs)"
    "disk (erase_atime fs') = disk (erase_atime fs)" "disk_size (erase_atime fs') = disk_size (erase_atime fs)"
    "features (erase_atime fs') = features (erase_atime fs)"
    "inodes (erase_atime fs') k = inodes (erase_atime fs) k"
    by (simp_all only: e)
  then show "sb fs' = sb fs" "bitmap fs' = bitmap fs" "disk fs' = disk fs" "disk_size fs' = disk_size fs"
    "features fs' = features fs" "(inodes fs' k)\<lparr>i_atime := 0\<rparr> = (inodes fs k)\<lparr>i_atime := 0\<rparr>"
    by (simp_all add: erase_atime_def)
qed

lemma same_files_inode:
  assumes "same_files fs fs'"
  shows "i_type (inodes fs' k) = i_type (inodes fs k)" "i_size (inodes fs' k) = i_size (inodes fs k)"
    "i_link_count (inodes fs' k) = i_link_count (inodes fs k)" "i_direct (inodes fs' k) = i_direct (inodes fs k)"
    "i_indirect1 (inodes fs' k) = i_indirect1 (inodes fs k)" "i_mode (inodes fs' k) = i_mode (inodes fs k)"
proof -
  note e = same_files_fields(6)[OF assms, of k]
  from arg_cong[OF e, of i_type] show "i_type (inodes fs' k) = i_type (inodes fs k)" by simp
  from arg_cong[OF e, of i_size] show "i_size (inodes fs' k) = i_size (inodes fs k)" by simp
  from arg_cong[OF e, of i_link_count] show "i_link_count (inodes fs' k) = i_link_count (inodes fs k)" by simp
  from arg_cong[OF e, of i_direct] show "i_direct (inodes fs' k) = i_direct (inodes fs k)" by simp
  from arg_cong[OF e, of i_indirect1] show "i_indirect1 (inodes fs' k) = i_indirect1 (inodes fs k)" by simp
  from arg_cong[OF e, of i_mode] show "i_mode (inodes fs' k) = i_mode (inodes fs k)" by simp
qed

lemma same_files_view:
  assumes s: "same_files fs fs'"
  shows "fbyte fs' k p = fbyte fs k p" "live fs' k = live fs k" "dir_ok fs' k = dir_ok fs k"
    "dir_list fs' k = dir_list fs k" "block_inv fs' = block_inv fs" "dir_need fs' k = dir_need fs k" "avail fs' = avail fs"
    "free_inode_set fs' = free_inode_set fs" "inodes_counted fs' = inodes_counted fs"
    "fixed fs' = fixed fs" "allocates fs fs'" "owns fs' k s b = owns fs k s b"
proof -
  note f = same_files_fields(1-5)[OF s] and i = same_files_inode[OF s]
  show b: "fbyte fs' k p = fbyte fs k p" for k p by (simp add: fbyte_def i f Let_def)
  show l: "live fs' k = live fs k" for k by (simp add: live_def i)
  show "dir_ok fs' k = dir_ok fs k" "dir_list fs' k = dir_list fs k"
    using dir_ok_cong[of fs' k fs] b i by simp_all
  show o: "owns fs' k s b = owns fs k s b" for k s b
    by (rule owns_cong) (simp_all add: i disk_same_block f)
  show "block_inv fs' = block_inv fs"
    unfolding block_inv_def o by (simp add: geometry_def data_start_def f)
  show "allocates fs fs'" by (rule allocates_shrink) (simp_all add: o f)
  show "dir_need fs' k = dir_need fs k" "avail fs' = avail fs"
    by (simp_all add: dir_need_def missing_def avail_def i f)
  show fr: "free_inode_set fs' = free_inode_set fs" by (simp add: free_inode_set_def i)
  show "inodes_counted fs' = inodes_counted fs" by (simp add: inodes_counted_def l fr f)
  show "fixed fs' = fixed fs" by (rule fixed_cong) (simp_all add: f)
qed

section \<open>Tokens\<close>

lemma tokens_wf: "t \<in> set (tokens s) \<Longrightarrow> t \<noteq> [] \<and> slash \<notin> set t \<and> set t \<subseteq> set s"
proof (induction s rule: tokens.induct)
  case (1 s)
  let ?r = "dropWhile (\<lambda>c. c = slash) s"
  have sub: "set (drop n (dropWhile P ?r)) \<subseteq> set s" "set ?r \<subseteq> set s" for n P
    by (meson set_drop_subset set_dropWhileD subset_iff)+
  have unf: "tokens s = (if ?r = [] then []
      else takeWhile (\<lambda>c. c \<noteq> slash) ?r # tokens (drop 1 (dropWhile (\<lambda>c. c \<noteq> slash) ?r)))"
    by (subst tokens.simps) (simp only: Let_def)
  show ?case
  proof (cases "?r = []")
    case True
    with "1.prems" show ?thesis by (simp only: unf if_True) simp
  next
    case False
    then have hd: "hd ?r \<noteq> slash" using hd_dropWhile[of "\<lambda>c. c = slash" s] by simp
    from "1.prems" False consider "t = takeWhile (\<lambda>c. c \<noteq> slash) ?r"
      | "t \<in> set (tokens (drop 1 (dropWhile (\<lambda>c. c \<noteq> slash) ?r)))"
      by (auto simp only: unf if_False list.set insert_iff)
    then show ?thesis
    proof cases
      case 1
      then have "t \<noteq> []" using hd False by (cases ?r) auto
      moreover have "slash \<notin> set t" using 1 by (auto dest: set_takeWhileD)
      moreover have "set t \<subseteq> set s" using 1 sub(2) by (auto dest: set_takeWhileD)
      ultimately show ?thesis by simp
    next
      case 2
      from "1.IH"[OF refl False 2] sub(1)[of 1] show ?thesis by auto
    qed
  qed
qed

lemma tokens_nul_free: "nul_free s \<Longrightarrow> t \<in> set (tokens s) \<Longrightarrow> nul_free t"
  using tokens_wf[of t s] by (auto simp: nul_free_def)

text \<open>Printing a list of components as an absolute path.\<close>

definition path_of :: "cstr list \<Rightarrow> cstr" where
  "path_of ts = concat (map (\<lambda>t. slash # t) ts)"

definition component :: "cstr \<Rightarrow> bool" where
  "component t \<longleftrightarrow> t \<noteq> [] \<and> slash \<notin> set t"

lemma path_of_Cons: "path_of (t # ts) = slash # t @ path_of ts"
  by (simp add: path_of_def)

lemma path_of_start: "path_of ts = [] \<or> (\<exists>r. path_of ts = slash # r)"
  by (cases ts) (auto simp: path_of_def)

lemma tokens_path_of: "list_all component ts \<Longrightarrow> tokens (path_of ts) = ts"
proof (induction ts)
  case Nil
  show ?case by (simp add: path_of_def tokens.simps[of "[]"])
next
  case (Cons t ts)
  then have t: "t \<noteq> []" "\<forall>c \<in> set t. c \<noteq> slash" by (auto simp: component_def)
  have r: "dropWhile (\<lambda>c. c = slash) (path_of (t # ts)) = t @ path_of ts"
    using t by (cases t) (auto simp: path_of_Cons)
  have "takeWhile (\<lambda>c. c \<noteq> slash) (t @ path_of ts) = t"
    "dropWhile (\<lambda>c. c \<noteq> slash) (t @ path_of ts) = path_of ts"
    using t path_of_start[of ts] by (auto simp: takeWhile_append2 dropWhile_append2)
  moreover have "tokens (drop 1 (path_of ts)) = tokens (path_of ts)"
    using path_of_start[of ts]
    by (auto simp: tokens.simps[of "slash # _"]) (simp_all add: tokens.simps)
  ultimately show ?case
    using t(1) Cons r by (subst tokens.simps) (simp add: Let_def)
qed

section \<open>Walking the tree\<close>

fun tree_walk :: "IDKFS \<Rightarrow> nat \<Rightarrow> cstr list \<Rightarrow> int" where
  "tree_walk fs cur [] = int cur"
| "tree_walk fs cur (t # ts) =
     (if i_type (inodes fs cur) \<noteq> ft_code IDKFS_FT_DIR then - ENOTDIR
      else case map_of (dir_list fs cur) (stored_name t) of
        None \<Rightarrow> - ENOENT
      | Some (ino, type) \<Rightarrow> tree_walk fs (unat ino) ts)"

definition tree_ok :: "IDKFS \<Rightarrow> bool" where
  "tree_ok fs \<longleftrightarrow> block_inv fs \<and> live fs IDKFS_ROOT_INODE \<and> i_type (inodes fs IDKFS_ROOT_INODE) = ft_code IDKFS_FT_DIR
     \<and> (\<forall>k. live fs k \<longrightarrow> i_type (inodes fs k) = ft_code IDKFS_FT_DIR \<longrightarrow>
          dir_ok fs k \<and> (\<forall>en \<in> set (dir_list fs k). live fs (unat (fst (snd en)))))"

lemma tree_ok_dir: "tree_ok fs \<Longrightarrow> live fs k \<Longrightarrow> i_type (inodes fs k) = ft_code IDKFS_FT_DIR \<Longrightarrow> dir_ok fs k"
  by (simp add: tree_ok_def)

lemma tree_ok_entry:
  assumes "tree_ok fs" "live fs k" "i_type (inodes fs k) = ft_code IDKFS_FT_DIR"
    and "map_of (dir_list fs k) n = Some (ino, type)"
  shows "live fs (unat ino)"
  using assms map_of_SomeD[OF assms(4)] by (force simp: tree_ok_def)

lemma live_sint: "live fs (unat ino) \<Longrightarrow> sint (ino :: u32) = int (unat ino)"
proof -
  assume "live fs (unat ino)"
  then have "int (unat ino) < int 4096" by (simp only: live_def of_nat_less_iff)
  then have "uint ino < 4096" by simp
  moreover have "- (2 ^ 31) \<le> uint ino" by (rule order_trans[OF _ uint_ge_0]) simp
  ultimately have "signed_take_bit 31 (uint ino) = uint ino" by (intro signed_take_bit_int_eq_self) simp_all
  then show ?thesis by (simp add: sint_uint)
qed

lemma tree_ok_same: "same_files fs fs' \<Longrightarrow> tree_ok fs' = tree_ok fs"
  using same_files_view[of fs fs'] same_files_inode[of fs fs'] by (simp add: tree_ok_def)

lemma tree_walk_same: "same_files fs fs' \<Longrightarrow> tree_walk fs' k ts = tree_walk fs k ts"
  using same_files_view(4)[of fs fs'] same_files_inode(1)[of fs fs']
  by (induction fs k ts rule: tree_walk.induct) (auto split: option.splits)

lemma tree_walk_live: "tree_ok fs \<Longrightarrow> live fs k \<Longrightarrow> 0 \<le> tree_walk fs k ts \<Longrightarrow> live fs (nat (tree_walk fs k ts))"
  by (induction fs k ts rule: tree_walk.induct) (auto split: option.splits if_splits dest: tree_ok_entry)

lemma resolve_tokens_spec:
  assumes "tree_ok fs" "live fs cur" "\<forall>t \<in> set toks. nul_free t"
  shows "\<exists>fs'. resolve_tokens e fs cur toks = Some (fs', tree_walk fs cur toks) \<and> same_files fs fs'"
  using assms
proof (induction toks arbitrary: fs cur)
  case Nil
  then show ?case by simp
next
  case (Cons t toks)
  have at: "inode_at fs cur = Some (inodes fs cur)" using Cons.prems(2) by (simp add: inode_at_def live_def)
  show ?case
  proof (cases "i_type (inodes fs cur) = ft_code IDKFS_FT_DIR")
    case False
    then show ?thesis by (simp add: at)
  next
    case True
    have ok: "dir_ok fs cur" and inv: "block_inv fs"
      using Cons.prems True by (auto simp: tree_ok_def)
    let ?hit = "map_of (dir_list fs cur) (stored_name t)"
    obtain fs1 where l: "idkfs_dir_lookup e fs cur t
        = Some (fs1, case ?hit of None \<Rightarrow> - 1 | Some (ino, type) \<Rightarrow> sint ino)"
      and s: "same_files fs fs1"
      using dir_lookup_spec[OF inv ok, of t e] Cons.prems(3) same_files_accessed by fastforce
    show ?thesis
    proof (cases ?hit)
      case None
      with True l s show ?thesis by (simp add: at)
    next
      case (Some v)
      then obtain ino type where v: "?hit = Some (ino, type)" by (cases v) auto
      have live: "live fs (unat ino)" using tree_ok_entry[OF Cons.prems(1,2) True v] .
      obtain fs' where "resolve_tokens e fs1 (unat ino) toks = Some (fs', tree_walk fs1 (unat ino) toks)" "same_files fs1 fs'"
        using Cons.IH[of fs1 "unat ino"] Cons.prems live s by (auto simp: tree_ok_same same_files_view)
      with True l s v live_sint[OF live] same_files_trans[OF s] tree_walk_same[OF s] show ?thesis
        by (simp add: at)
    qed
  qed
qed

lemma resolve_path_spec:
  assumes "tree_ok fs" "nul_free path"
  shows "\<exists>fs'. resolve_path e fs path = Some (fs', tree_walk fs 0 (tokens (take 4095 path))) \<and> same_files fs fs'"
proof (cases "path = [slash]")
  case True
  moreover have "tokens [slash] = []" by (simp add: tokens.simps[of "[slash]"])
  ultimately show ?thesis by (simp add: resolve_path_def)
next
  case False
  have "nul_free (take 4095 path)" using assms(2) by (auto simp: nul_free_def dest: in_set_takeD)
  then have "\<forall>t \<in> set (tokens (take 4095 path)). nul_free t" using tokens_nul_free by blast
  with resolve_tokens_spec[OF assms(1)] assms(1) False show ?thesis
    by (simp add: resolve_path_def tree_ok_def)
qed

end
