(* ===== verification/Core_Format.thy ===== *)
theory Core_Format
  imports Core_Create
begin

text \<open>
  Formatting and flushing: \<open>idkfs_mkfs\<close> produces a state that satisfies the invariants, with a root
  directory that lists itself, and \<open>idkfs_flush\<close> lays the superblock, the bitmap and the inode table
  out on the disk.
\<close>

section \<open>Formatting\<close>

lemma mark_blocks_Suc: "mark_blocks (Suc n) bm = mark_blocks n bm \<bind> (\<lambda>bm. bitmap_set bm n)"
  by (simp add: mark_blocks_def)

lemma mark_blocks_used:
  "n \<le> IDKFS_TOTAL_BLOCKS \<Longrightarrow> \<exists>bm. mark_blocks n zeros = Some bm \<and> (\<forall>b. used bm b \<longleftrightarrow> b < n)"
proof (induction n)
  case 0
  show ?case by (simp add: mark_blocks_def used_def)
next
  case (Suc n)
  then obtain bm where bm: "mark_blocks n zeros = Some bm" "\<forall>b. used bm b \<longleftrightarrow> b < n"
    by (metis Suc_leD)
  obtain bm' where s: "bitmap_set bm n = Some bm'" using bitmap_set_Some[of n bm] Suc.prems by auto
  have "mark_blocks (Suc n) zeros = Some bm'" using bm(1) s by (simp only: mark_blocks_Suc bind.simps)
  moreover have "used bm' b \<longleftrightarrow> b < Suc n" for b
    using bm(2) bitmap_set_used[OF s, of b] by (simp add: less_Suc_eq disj_commute)
  ultimately show ?case by blast
qed

lemma inode_blocks_eq [simp]: "inode_blocks = 136"
  by (simp add: inode_blocks_def layout_simps)

lemma blank_root: "blank (root_Inode e)"
  by (simp add: blank_def root_Inode_def)

lemma mkfs_base_spec:
  assumes big: "IDKFS_TOTAL_BLOCKS * IDKFS_BLOCK_SIZE \<le> n"
  shows "\<exists>fs. mkfs_base e label (blank_IDKFS f d n) = Some fs \<and> fs_inv fs \<and> inodes_counted fs \<and> dir_ok fs 0 \<and> dir_list fs 0 = []
    \<and> avail fs = IDKFS_TOTAL_BLOCKS - 138 \<and> features fs = f \<and> inodes fs = (\<lambda>_. zero_Inode)(0 := root_Inode e)
    \<and> sb fs = mkfs_sb e label \<and> disk_size fs = n"
proof -
  obtain bm where bm: "mark_blocks 138 zeros = Some bm" "\<forall>b. used bm b \<longleftrightarrow> b < 138"
    using mark_blocks_used[of 138] by auto
  define fs where "fs = (blank_IDKFS f d n)\<lparr>sb := mkfs_sb e label, bitmap := bm,
       inodes := (\<lambda>_. zero_Inode)(0 := root_Inode e)\<rparr>"
  have run: "mkfs_base e label (blank_IDKFS f d n) = Some fs"
    by (simp add: mkfs_base_def bm(1) fs_def) (simp add: blank_IDKFS_def bm(1) del: zeros_apply)
  have u: "used (bitmap fs) b \<longleftrightarrow> b < 138" for b using bm(2) by (simp add: fs_def)
  have free: "free_set (bitmap fs) = {138..<IDKFS_TOTAL_BLOCKS}"
    unfolding free_set_def u by auto
  have no: "\<not> owns fs k s b" for k s b
  proof (cases "k = 0")
    case True
    with blank_root[of e] show ?thesis by (cases s) (auto simp: owns_def blank_def fs_def)
  next
    case False
    then show ?thesis by (simp add: owns_def live_def fs_def zero_Inode_def)
  qed
  have geo: "geometry fs" unfolding geometry_def u by (simp add: data_start_def fs_def blank_IDKFS_def mkfs_sb_def)
      (use big in simp)
  have "counted fs" unfolding counted_def free by (simp add: fs_def mkfs_sb_def)
  with geo no have inv: "fs_inv fs" by (simp add: fs_inv_def block_inv_def)
  have "free_inode_set fs = {1..<IDKFS_MAX_INODES}"
    by (auto simp: free_inode_set_def fs_def zero_Inode_def root_Inode_def)
  then have "inodes_counted fs"
    by (simp add: inodes_counted_def live_def) (simp add: fs_def mkfs_sb_def root_Inode_def)
  moreover have "dir_ok fs 0" "dir_list fs 0 = []"
    by (simp_all add: dir_ok_def live_def dir_content_def dir_list_def fs_def root_Inode_def zero_Inode_def
        dir_fits_def dir_ents_def zero_Directory_def)
  moreover have "avail fs = IDKFS_TOTAL_BLOCKS - 138" by (simp add: avail_def free)
  ultimately show ?thesis using run inv by (intro exI[of _ fs]) (simp, simp add: fs_def blank_IDKFS_def)
qed

lemma set_checksum_view:
  fixes fs c defines "fs' \<equiv> fs\<lparr>sb := (sb fs)\<lparr>sb_checksum := c\<rparr>\<rparr>"
  shows "fs_inv fs' = fs_inv fs" "inodes_counted fs' = inodes_counted fs" "dir_ok fs' k = dir_ok fs k"
    "dir_list fs' k = dir_list fs k" "avail fs' = avail fs" "names_ok fs' k = names_ok fs k"
proof -
  have f: "fbyte fs' k p = fbyte fs k p" for k p by (simp add: fbyte_def fs'_def Let_def)
  have o: "owns fs' k s b = owns fs k s b" for k s b by (rule owns_ignores) (simp_all add: fs'_def)
  show "fs_inv fs' = fs_inv fs"
    unfolding fs_inv_def block_inv_def o by (simp add: geometry_def counted_def data_start_def fs'_def)
  show "inodes_counted fs' = inodes_counted fs" "avail fs' = avail fs"
    by (simp_all add: inodes_counted_def live_def free_inode_set_def avail_def fs'_def)
  show "dir_ok fs' k = dir_ok fs k" "dir_list fs' k = dir_list fs k"
    using dir_ok_cong[of fs' k fs] f by (simp_all add: fs'_def)
  show "names_ok fs' k = names_ok fs k"
    using dir_content_cong[of fs' k fs] f by (simp add: names_ok_def fs'_def)
qed

lemma mkfs_spec:
  "\<exists>fs. idkfs_mkfs True True e label f = Some (Some fs) \<and> fs_inv fs \<and> inodes_counted fs \<and> dir_ok fs 0
    \<and> dir_list fs 0 = dot_entries 0 0 \<and> IDKFS_TOTAL_BLOCKS - 138 - 9 \<le> avail fs
    \<and> i_type (inodes fs 0) = ft_code IDKFS_FT_DIR \<and> i_link_count (inodes fs 0) = 2 \<and> features fs = f
    \<and> (\<forall>k \<noteq> 0. inodes fs k = zero_Inode) \<and> free_inode_set fs = {1..<IDKFS_MAX_INODES} \<and> names_ok fs 0"
proof -
  obtain fs0 where b: "mkfs_base e label (calloc_IDKFS f) = Some fs0" "fs_inv fs0" "inodes_counted fs0" "dir_ok fs0 0"
    "dir_list fs0 0 = []" "avail fs0 = IDKFS_TOTAL_BLOCKS - 138" "features fs0 = f"
    "inodes fs0 = (\<lambda>_. zero_Inode)(0 := root_Inode e)"
    using mkfs_base_spec[of _ e label f zeros] by (auto simp: calloc_IDKFS_def)
  have "dir_room fs0 0" using dir_need_bound[of fs0 0] b(6) by (simp add: dir_room_def)
  then obtain fs1 fs2 where add: "idkfs_dir_add e fs0 0 dot 0 IDKFS_FT_DIR = Some (fs1, 0)"
      "idkfs_dir_add e fs1 0 dotdot 0 IDKFS_FT_DIR = Some (fs2, 0)"
    and s: "dir_step 0 fs0 fs2" and l: "dir_list fs2 0 = dot_entries 0 0" and nm: "names_ok fs0 0 \<longrightarrow> names_ok fs2 0"
    using add_dots[OF fs_invD(1)[OF b(2)] b(4,5), of e 0 0] by blast
  define fs where "fs = (if checksums f then fs2\<lparr>sb := (sb fs2)\<lparr>sb_checksum := sb_crc (sb fs2)\<rparr>\<rparr> else fs2)"
  have run: "idkfs_mkfs True True e label f = Some (Some fs)"
    by (simp add: idkfs_mkfs_def b(1) add fs_def)
  have view: "fs_inv fs = fs_inv fs2" "inodes_counted fs = inodes_counted fs2" "dir_ok fs k = dir_ok fs2 k"
    "dir_list fs k = dir_list fs2 k" "avail fs = avail fs2" "inodes fs = inodes fs2" "features fs = features fs2"
    "names_ok fs k = names_ok fs2 k" for k
    using set_checksum_view[where fs = fs2 and c = "sb_crc (sb fs2)"] by (simp_all add: fs_def)
  have av: "IDKFS_TOTAL_BLOCKS - 138 - 9 \<le> avail fs2"
    using s b(6) dir_need_bound[of fs0 0] by (simp add: dir_step_def)
  have z: "\<forall>k \<noteq> 0. inodes fs2 k = zero_Inode" using dir_step_other[OF s] b(8) by simp
  have r: "i_type (inodes fs2 0) = 2" "i_link_count (inodes fs2 0) = 2"
    using s b(8) by (simp_all add: dir_step_def root_Inode_def)
  have "free_inode_set fs = {1..<IDKFS_MAX_INODES}"
  proof -
    have "k \<in> free_inode_set fs \<longleftrightarrow> k \<in> {1..<IDKFS_MAX_INODES}" for k
      using z r(2) by (cases "k = 0") (simp_all add: free_inode_set_def view zero_Inode_def)
    then show ?thesis by blast
  qed
  moreover have "names_ok fs 0" using nm b(8) by (simp add: view names_ok_empty root_Inode_def zero_Inode_def)
  ultimately show ?thesis using run l av z r s b(7) dir_step_counted[OF s] b(3) fs_inv_step[OF b(2) dir_step_inv[OF s] dir_step_fixed[OF s]]
    by (intro exI[of _ fs]) (simp add: view dir_step_ok, simp add: dir_step_def)
qed

end
