(* ===== verification/Core_Theorems.thy ===== *)
theory Core_Theorems
  imports Core_Format
begin

text \<open>
  The properties of \<^verbatim>\<open>idkfs_core.c\<close> that the rest of the development and its users rely on. Every
  hypothesis is met by a freshly formatted image, which the witnesses use.
\<close>

definition demo_env :: env where
  "demo_env = \<lparr>now = 1700000000, stack_bytes = zeros\<rparr>"

lemma mkfs_start:
  obtains fs where "idkfs_mkfs True True e label f = Some (Some fs)" "fs_inv fs" "inodes_counted fs" "dir_ok fs 0"
    "dir_list fs 0 = dot_entries 0 0" "65389 \<le> avail fs" "i_type (inodes fs 0) = ft_code IDKFS_FT_DIR"
    "i_link_count (inodes fs 0) = 2" "features fs = f" "live fs 0" "free_inode_set fs = {1..<IDKFS_MAX_INODES}"
    "dir_room fs 0" "unat (sb_free_blocks (sb fs)) = avail fs" "block_inv fs"
proof -
  obtain fs where "idkfs_mkfs True True e label f = Some (Some fs)" "fs_inv fs" "inodes_counted fs" "dir_ok fs 0"
    "dir_list fs 0 = dot_entries 0 0" "65389 \<le> avail fs" "i_type (inodes fs 0) = ft_code IDKFS_FT_DIR"
    "i_link_count (inodes fs 0) = 2" "features fs = f" "free_inode_set fs = {1..<IDKFS_MAX_INODES}"
    using mkfs_spec[of e label f] by auto
  then show thesis
    using dir_need_bound[of fs 0] by (intro that[of fs]) (simp_all add: dir_ok_live dir_room_def fs_inv_def counted_def avail_def)
qed

section \<open>Files\<close>

text \<open>C3: In a state that satisfies the block-ownership invariant, \<open>idkfs_write\<close> on a live inode never
  makes an undefined access, whatever the offset and the length; it returns the number of bytes
  asked for or -1, it keeps the invariant (every block of a live inode in the data area, marked
  used and in one slot only; \<open>free_blocks\<close> the number of clear bits), and it changes no other inode
  and no byte of a block that another inode owns.\<close>

theorem idkfs_write_safe:
  assumes "fs_inv fs" "live fs k"
  shows "\<exists>fs' r. idkfs_write e fs k buf count offset = Some (fs', r) \<and> r \<in> {- 1, int (unat count)}
    \<and> fs_inv fs' \<and> (\<forall>k'. k' \<noteq> k \<longrightarrow> inodes fs' k' = inodes fs k')
    \<and> (\<forall>k' s b i. k' \<noteq> k \<longrightarrow> owns fs k' s b \<longrightarrow> i < IDKFS_BLOCK_SIZE \<longrightarrow>
         disk fs' (block_ptr b + i) = disk fs (block_ptr b + i))"
proof -
  obtain fs' r where "idkfs_write e fs k buf count offset = Some (fs', r)" "r \<in> {- 1, int (unat count)}"
    and inv: "block_inv fs'" "fixed fs' = fixed fs" and o: "others_kept k fs fs'"
    using idkfs_write_spec[OF fs_invD(1)[OF assms(1)] assms(2), of e buf count offset] by blast
  with fs_inv_step[OF assms(1) inv] show ?thesis by (fastforce simp: others_kept_def same_block_def)
qed

theorem idkfs_write_safe_witness:
  "\<exists>fs fs' r. idkfs_mkfs True True demo_env [] features_default = Some (Some fs)
    \<and> idkfs_write demo_env fs 0 zeros 10000 60000 = Some (fs', r) \<and> r \<in> {- 1, 10000} \<and> fs_inv fs'"
proof (rule mkfs_start[of demo_env "[]" features_default])
  fix fs assume "idkfs_mkfs True True demo_env [] features_default = Some (Some fs)" "fs_inv fs" "live fs 0"
  then show ?thesis
    using idkfs_write_safe[of fs 0 demo_env zeros 10000 60000] by auto
qed

text \<open>C4: Within the direct blocks, \<open>idkfs_write\<close> refines an update of the file's contents: if the
  missing blocks fit into the free ones, it returns the full count, the bytes written are the bytes
  of the buffer, newly mapped blocks are zero around them, every other byte of the file and every
  byte of every other file is as before, and the size becomes the maximum of the old size and the
  end of the write.\<close>

theorem idkfs_write_refines:
  assumes "fs_inv fs" "live fs k" "unat offset + unat count \<le> IDKFS_DIRECT_BLOCKS * IDKFS_BLOCK_SIZE"
    and "card (missing fs k (unat offset) (unat count)) \<le> unat (sb_free_blocks (sb fs))"
  shows "\<exists>fs'. idkfs_write e fs k buf count offset = Some (fs', int (unat count))
    \<and> fs_inv fs' \<and> i_size (inodes fs' k) = max (i_size (inodes fs k)) (offset + count)
    \<and> (\<forall>p < IDKFS_DIRECT_BLOCKS * IDKFS_BLOCK_SIZE.
         fbyte fs' k p = put_bytes (fbyte fs k) buf (unat offset) (unat count) p
         \<and> (\<forall>k'. k' \<noteq> k \<longrightarrow> live fs k' \<longrightarrow> fbyte fs' k' p = fbyte fs k' p))"
proof -
  have "unat offset + unat count \<le> direct_span" using assms(3) by simp
  moreover have "card (missing fs k (unat offset) (unat count)) \<le> card (free_set (bitmap fs))"
    using assms(1,4) by (simp add: fs_inv_def counted_def)
  ultimately obtain fs' where w: "idkfs_write e fs k buf count offset = Some (fs', int (unat count))"
      "i_size (inodes fs' k) = max (i_size (inodes fs k)) (offset + count)"
      "\<forall>p < direct_span. fbyte fs' k p = put_bytes (fbyte fs k) buf (unat offset) (unat count) p"
    and o: "others_kept k fs fs'" and inv: "block_inv fs'" "fixed fs' = fixed fs"
    using write_contents[OF fs_invD(1)[OF assms(1)] assms(2), of offset count e buf] by auto
  with others_kept_fbyte[OF o] fs_inv_step[OF assms(1) inv] show ?thesis by auto
qed

theorem idkfs_write_refines_witness:
  "\<exists>fs fs'. idkfs_mkfs True True demo_env [] features_default = Some (Some fs)
    \<and> idkfs_write demo_env fs 0 (\<lambda>_. 7) 100 40000 = Some (fs', 100) \<and> fbyte fs' 0 40050 = Some 7"
proof (rule mkfs_start[of demo_env "[]" features_default])
  fix fs assume fs: "idkfs_mkfs True True demo_env [] features_default = Some (Some fs)" "fs_inv fs" "live fs 0"
    and av: "65389 \<le> avail fs" "unat (sb_free_blocks (sb fs)) = avail fs"
  have "missing fs 0 40000 100 \<subseteq> {..<IDKFS_DIRECT_BLOCKS}"
    by (auto dest: missing_bounded[of 40000 100 _ fs 0, simplified])
  from card_mono[OF _ this] have "card (missing fs 0 40000 100) \<le> 12" by simp
  with fs av idkfs_write_refines[of fs 0 40000 100 demo_env "\<lambda>_. 7"] show ?thesis
    by (auto simp: put_bytes_def)
qed

text \<open>C11: \<open>idkfs_read\<close> within the direct blocks returns the file's contents: at or past the end of the
  file it returns 0 and touches nothing; otherwise it copies the bytes from the offset on up to the
  requested count, the end of the file or the first hole, whichever comes first, returns how many it
  copied, leaves the rest of the buffer alone and changes nothing but the access time.\<close>

theorem idkfs_read_refines:
  assumes "block_inv fs" "live fs k" "unat (i_size (inodes fs k)) \<le> IDKFS_DIRECT_BLOCKS * IDKFS_BLOCK_SIZE"
    and "unat offset + unat count < 2 ^ 64"
  shows "if i_size (inodes fs k) \<le> offset then idkfs_read e fs k buf count offset = Some (fs, buf, 0)
    else \<exists>t. idkfs_read e fs k buf count offset
        = Some (accessed e fs k, \<lambda>i. if i < t then the (fbyte fs k (unat offset + i)) else buf i, int t)
      \<and> (let n = min (unat count) (unat (i_size (inodes fs k)) - unat offset) in
          t \<le> n \<and> (\<forall>i < t. fbyte fs k (unat offset + i) \<noteq> None) \<and> (t < n \<longrightarrow> fbyte fs k (unat offset + t) = None))"
proof (cases "i_size (inodes fs k) \<le> offset")
  case True
  with assms(2) show ?thesis by (simp add: idkfs_read_def inode_at_def live_def)
next
  case False
  then have "unat offset < unat (i_size (inodes fs k))" by (simp add: word_le_nat_alt)
  from read_contents[OF assms(1,2) _ this assms(4), of e buf] assms(3) False show ?thesis
    by (simp add: accessed_def Let_def)
qed

theorem idkfs_read_refines_witness:
  "\<exists>fs t. idkfs_mkfs True True demo_env [] features_default = Some (Some fs) \<and> t \<le> 100
    \<and> idkfs_read demo_env fs 0 zeros 100 4
        = Some (accessed demo_env fs 0, \<lambda>i. if i < t then the (fbyte fs 0 (unat (4 :: u64) + i)) else zeros i, int t)"
proof (rule mkfs_start[of demo_env "[]" features_default])
  fix fs assume fs: "idkfs_mkfs True True demo_env [] features_default = Some (Some fs)" "block_inv fs" "live fs 0"
    and ok: "dir_ok fs 0" "dir_list fs 0 = dot_entries 0 0"
  have sz: "i_size (inodes fs 0) = 33412"
    using ok dir_list_empty[of fs 0] by (auto simp: dir_ok_def dot_entries_def layout_simps)
  with fs idkfs_read_refines[of fs 0 4 100 demo_env zeros] show ?thesis
    by (simp add: Let_def) blast
qed

text \<open>C5: Round trip, for a file of at most 49152 bytes, the span of its 12 direct blocks: a write of at
  least one byte that ends within this span and finds the free blocks it needs writes all of its bytes, and a
  read of the same range in the state it leaves, at whatever time and into whatever buffer, reads all of
  the range and puts exactly the bytes written into the buffer, whose other bytes stay.\<close>

theorem idkfs_write_read_roundtrip:
  assumes "fs_inv fs" "live fs k" "unat offset + unat count \<le> IDKFS_DIRECT_BLOCKS * IDKFS_BLOCK_SIZE" "0 < unat count"
    and "unat (i_size (inodes fs k)) \<le> IDKFS_DIRECT_BLOCKS * IDKFS_BLOCK_SIZE"
    and "card (missing fs k (unat offset) (unat count)) \<le> unat (sb_free_blocks (sb fs))"
  shows "\<exists>fs' fs''. idkfs_write e fs k buf count offset = Some (fs', int (unat count))
    \<and> idkfs_read e' fs' k buf' count offset
        = Some (fs'', \<lambda>i. if i < unat count then buf i else buf' i, int (unat count))"
proof -
  have r: "unat offset + unat count \<le> direct_span" using assms(3) by simp
  have "card (missing fs k (unat offset) (unat count)) \<le> card (free_set (bitmap fs))"
    using assms(1,6) by (simp add: fs_inv_def counted_def)
  from write_contents[OF fs_invD(1)[OF assms(1)] assms(2) r this, of e buf] obtain fs' where
    w: "idkfs_write e fs k buf count offset = Some (fs', int (unat count))" "block_inv fs'" "live fs' k"
      "i_size (inodes fs' k) = max (i_size (inodes fs k)) (offset + count)"
    and f: "\<forall>p < direct_span. fbyte fs' k p = put_bytes (fbyte fs k) buf (unat offset) (unat count) p"
    by blast
  have sum: "unat (offset + count) = unat offset + unat count" by (rule unat_add_span[OF r])
  have sz: "unat (i_size (inodes fs' k)) = max (unat (i_size (inodes fs k))) (unat offset + unat count)"
    unfolding w(4) by (simp add: max_def word_le_nat_alt sum)
  have at: "fbyte fs' k (unat offset + i) = Some (buf i)" if "i < unat count" for i
    using f that r by (simp add: put_bytes_def)
  have small: "unat (i_size (inodes fs' k)) \<le> direct_span" "unat offset < unat (i_size (inodes fs' k))"
    "unat offset + unat count < 2 ^ 64"
    using sz r assms(4,5) by auto
  have n: "min (unat count) (unat (i_size (inodes fs' k)) - unat offset) = unat count" using sz by simp
  obtain fs'' t where rd: "idkfs_read e' fs' k buf' count offset
      = Some (fs'', \<lambda>i. if i < t then the (fbyte fs' k (unat offset + i)) else buf' i, int t)"
    and t: "t \<le> unat count" "t < unat count \<longrightarrow> fbyte fs' k (unat offset + t) = None"
    using read_contents[OF w(2,3) small, of e' buf'] unfolding n by blast
  have "t = unat count" using t at[of t] by (cases "t < unat count") auto
  with rd at have "idkfs_read e' fs' k buf' count offset
      = Some (fs'', \<lambda>i. if i < unat count then buf i else buf' i, int (unat count))"
    by (auto simp: fun_eq_iff)
  with w(1) show ?thesis by blast
qed

theorem idkfs_write_read_roundtrip_witness:
  "\<exists>fs fs' fs''. idkfs_mkfs True True demo_env [] features_default = Some (Some fs)
    \<and> idkfs_write demo_env fs 0 (mem_of [1, 2, 3]) 3 4095 = Some (fs', 3)
    \<and> idkfs_read demo_env fs' 0 zeros 3 4095 = Some (fs'', \<lambda>i. if i < 3 then mem_of [1, 2, 3] i else zeros i, 3)"
proof (rule mkfs_start[of demo_env "[]" features_default])
  fix fs assume fs: "idkfs_mkfs True True demo_env [] features_default = Some (Some fs)" "fs_inv fs" "live fs 0"
    and ok: "dir_ok fs 0" and av: "65389 \<le> avail fs" "unat (sb_free_blocks (sb fs)) = avail fs"
  have sz: "unat (i_size (inodes fs 0)) \<le> IDKFS_DIRECT_BLOCKS * IDKFS_BLOCK_SIZE"
    using ok by (auto simp: dir_ok_def layout_simps)
  have "missing fs 0 4095 3 \<subseteq> {..<IDKFS_DIRECT_BLOCKS}"
    by (auto dest: missing_bounded[of 4095 3 _ fs 0, simplified])
  from card_mono[OF _ this] have "card (missing fs 0 4095 3) \<le> 12" by simp
  with fs sz av idkfs_write_read_roundtrip[of fs 0 4095 3 demo_env "mem_of [1, 2, 3]" demo_env zeros] show ?thesis
    by auto
qed

section \<open>Directories\<close>

text \<open>C23: \<open>idkfs_dir_add\<close> on a well-formed directory with room for its blocks: with fewer than 128
  entries it returns 0 and appends the entry (the name cut to 255 bytes) after the existing ones,
  with 128 it returns -1 and the listing stays; the directory stays well-formed, the block
  invariant holds, and the listing of every other live directory and the contents of every other
  file are untouched.\<close>

theorem idkfs_dir_add_refines:
  assumes "fs_inv fs" "dir_ok fs k" "dir_room fs k" "nul_free name"
  shows "\<exists>fs' r. idkfs_dir_add e fs k name ino type = Some (fs', r) \<and> fs_inv fs' \<and> dir_ok fs' k
    \<and> (if length (dir_list fs k) < IDKFS_MAX_DIRENTS
       then r = 0 \<and> dir_list fs' k = dir_list fs k @ [(stored_name name, ino, ft_code type)]
       else r = - 1 \<and> dir_list fs' k = dir_list fs k)
    \<and> rest_kept {k} fs fs'"
proof -
  from dir_add_spec[OF fs_invD(1)[OF assms(1)] assms(2-4), of e ino type] obtain fs' where
    "idkfs_dir_add e fs k name ino type = Some (fs', if length (dir_list fs k) < IDKFS_MAX_DIRENTS then 0 else - 1)"
    and s: "dir_step k fs fs'" and "dir_list fs' k = (if length (dir_list fs k) < IDKFS_MAX_DIRENTS
         then dir_list fs k @ [(stored_name name, ino, ft_code type)] else dir_list fs k)"
    by blast
  moreover have "rest_kept {k} fs fs'" using others_rest[OF dir_step_others[OF s]] by simp
  moreover have "fs_inv fs'" by (rule fs_inv_step[OF assms(1) dir_step_inv[OF s] dir_step_fixed[OF s]])
  ultimately show ?thesis using s by (simp add: dir_step_ok)
qed

theorem idkfs_dir_add_refines_witness:
  "\<exists>fs fs'. idkfs_mkfs True True demo_env [] features_default = Some (Some fs)
    \<and> idkfs_dir_add demo_env fs 0 [97] 5 IDKFS_FT_FILE = Some (fs', 0)
    \<and> dir_list fs' 0 = [([46], 0, 2), ([46, 46], 0, 2), ([97], 5, 1)]"
proof (rule mkfs_start[of demo_env "[]" features_default])
  fix fs assume "idkfs_mkfs True True demo_env [] features_default = Some (Some fs)" "fs_inv fs" "dir_ok fs 0"
    "dir_room fs 0" "dir_list fs 0 = dot_entries 0 0"
  then show ?thesis
    using idkfs_dir_add_refines[of fs 0 "[97]" demo_env 5 IDKFS_FT_FILE]
    by (simp add: nul_free_def dot_entries_def dot_def dotdot_def stored_name_def) blast
qed

text \<open>\<open>idkfs_dir_lookup\<close> on a well-formed directory is the lookup in its list of entries: the
  inode number of the first entry whose name is the argument cut to 255 bytes, read as a signed
  32-bit number, or -1 if there is none; nothing but the access time changes.\<close>

theorem idkfs_dir_lookup_refines:
  assumes "block_inv fs" "dir_ok fs k" "nul_free name"
  shows "\<exists>fs' \<in> {fs, accessed e fs k}. idkfs_dir_lookup e fs k name = Some (fs',
    case map_of (dir_list fs k) (stored_name name) of None \<Rightarrow> - 1 | Some (ino, type) \<Rightarrow> sint ino)"
  using dir_lookup_spec[OF assms] by blast

theorem idkfs_dir_lookup_refines_witness:
  "\<exists>fs fs'. idkfs_mkfs True True demo_env [] features_default = Some (Some fs)
    \<and> idkfs_dir_lookup demo_env fs 0 dotdot = Some (fs', 0)"
proof (rule mkfs_start[of demo_env "[]" features_default])
  fix fs assume "idkfs_mkfs True True demo_env [] features_default = Some (Some fs)" "block_inv fs" "dir_ok fs 0"
    "dir_list fs 0 = dot_entries 0 0"
  then show ?thesis
    using idkfs_dir_lookup_refines[of fs 0 dotdot demo_env]
    by (auto simp: dot_entries_def dot_def dotdot_def stored_name_def nul_free_def)
qed

text \<open>C22: \<open>idkfs_dir_remove\<close> on a well-formed directory with pairwise different names returns 0 and
  removes exactly the named entry, so that afterwards the lookup of that name fails and every other
  lookup is as before; an absent name gives \<open>-ENOENT\<close> and leaves the listing; the block invariant
  and everything outside of this directory are kept.\<close>

theorem idkfs_dir_remove_refines:
  assumes "fs_inv fs" "dir_ok fs k" "dir_room fs k" "nul_free name" "i_type (inodes fs k) = ft_code IDKFS_FT_DIR"
    and "distinct (map fst (dir_list fs k))"
  shows "\<exists>fs' r. idkfs_dir_remove e fs k name = Some (fs', r) \<and> fs_inv fs' \<and> dir_ok fs' k
    \<and> r = (if stored_name name \<in> fst ` set (dir_list fs k) then 0 else - ENOENT)
    \<and> map_of (dir_list fs' k) = (map_of (dir_list fs k))(stored_name name := None)
    \<and> rest_kept {k} fs fs'"
proof -
  from dir_remove_spec[OF fs_invD(1)[OF assms(1)] assms(2-5), of e] obtain fs' where
    r: "idkfs_dir_remove e fs k name = Some (fs', if stored_name name \<in> fst ` set (dir_list fs k) then 0 else - ENOENT)"
    and s: "dir_step k fs fs'" and l: "dir_list fs' k = remove_first (stored_name name) (dir_list fs k)"
    by blast
  have "map_of (dir_list fs' k) = (map_of (dir_list fs k))(stored_name name := None)"
    unfolding l by (rule map_of_remove_first[OF assms(6)])
  moreover have "rest_kept {k} fs fs'" using others_rest[OF dir_step_others[OF s]] by simp
  moreover have "fs_inv fs'" by (rule fs_inv_step[OF assms(1) dir_step_inv[OF s] dir_step_fixed[OF s]])
  ultimately show ?thesis using r s by (simp add: dir_step_ok)
qed

theorem idkfs_dir_remove_refines_witness:
  "\<exists>fs fs'. idkfs_mkfs True True demo_env [] features_default = Some (Some fs)
    \<and> idkfs_dir_remove demo_env fs 0 dotdot = Some (fs', 0) \<and> map_of (dir_list fs' 0) dotdot = None"
proof (rule mkfs_start[of demo_env "[]" features_default])
  fix fs assume "idkfs_mkfs True True demo_env [] features_default = Some (Some fs)" "fs_inv fs" "dir_ok fs 0"
    "dir_room fs 0" "dir_list fs 0 = dot_entries 0 0" "i_type (inodes fs 0) = ft_code IDKFS_FT_DIR"
  then show ?thesis
    using idkfs_dir_remove_refines[of fs 0 dotdot demo_env]
    by (auto simp: dot_entries_def dot_def dotdot_def stored_name_def nul_free_def)
qed

section \<open>Creation\<close>

text \<open>C6: \<open>idkfs_create\<close> in a well-formed parent with room: without a free inode it returns -1 and
  changes nothing; otherwise, with fewer than 128 entries in the parent, it takes the free inode of
  the lowest number, makes it an empty file of the given tier and mode with one link, appends its
  name to the parent and returns its number; with a full parent it returns -1 and gives the inode
  back. In every case the block invariant and the count of free inodes hold and no other file or
  directory changes.\<close>

theorem idkfs_create_correct:
  assumes "fs_inv fs" "inodes_counted fs" "dir_ok fs parent" "dir_room fs parent" "nul_free name"
  shows "\<exists>fs' r. idkfs_create e fs parent name tier mode = Some (fs', r) \<and> fs_inv fs' \<and> inodes_counted fs' \<and>
    (if free_inode_set fs = {} then r = - 1 \<and> fs' = fs
     else if length (dir_list fs parent) < IDKFS_MAX_DIRENTS then
       let i = Min (free_inode_set fs) in
       r = int i \<and> inodes fs' i = file_Inode e i tier mode
       \<and> dir_list fs' parent = dir_list fs parent @ [(stored_name name, word_of_nat i, ft_code IDKFS_FT_FILE)]
       \<and> rest_kept {parent, i} fs fs'
     else r = - 1 \<and> free_inode_set fs' = free_inode_set fs \<and> dir_list fs' parent = dir_list fs parent
       \<and> (\<exists>i \<in> free_inode_set fs. rest_kept {parent, i} fs fs'))"
proof (cases rule: create_cases[OF fs_invD(1)[OF assms(1)] assms(2-5), of e tier mode])
  case 1
  with assms show ?thesis by simp
next
  case (2 fs' i)
  then have "Min (free_inode_set fs) = i" "free_inode_set fs \<noteq> {}" by (auto intro: Min_eqI)
  with 2 fs_inv_step[OF assms(1) 2(5,12)] show ?thesis by (simp add: Let_def)
next
  case (3 fs')
  show ?thesis
  proof (cases "free_inode_set fs = {}")
    case True
    then have "inode_alloc fs = (fs, - 1)" using inode_alloc_cases[OF assms(2)] by (metis empty_iff)
    with True assms show ?thesis by (simp add: idkfs_create_def)
  next
    case False
    with 3 fs_inv_step[OF assms(1) 3(3,10)] show ?thesis by simp
  qed
qed

theorem idkfs_create_correct_witness:
  "\<exists>fs fs'. idkfs_mkfs True True demo_env [] features_default = Some (Some fs)
    \<and> idkfs_create demo_env fs 0 [97] TIER_FAST 420 = Some (fs', 1)
    \<and> inodes fs' 1 = file_Inode demo_env 1 TIER_FAST 420
    \<and> dir_list fs' 0 = dot_entries 0 0 @ [([97], 1, 1)]"
proof (rule mkfs_start[of demo_env "[]" features_default])
  fix fs assume fs: "idkfs_mkfs True True demo_env [] features_default = Some (Some fs)" "fs_inv fs" "inodes_counted fs"
    "dir_ok fs 0" "dir_room fs 0" "dir_list fs 0 = dot_entries 0 0" and fr: "free_inode_set fs = {1..<4096}"
  have "Min {1..<4096 :: nat} = 1" by (rule Min_eqI) auto
  then show ?thesis
    using fs idkfs_create_correct[of fs 0 "[97]" demo_env TIER_FAST 420]
    by (simp add: nul_free_def stored_name_def dot_entries_def Let_def fr) blast
qed

text \<open>C25: \<open>idkfs_mkdir\<close> with enough free blocks takes the lowest free inode and makes it a directory
  that lists itself as ``.'' and the parent as ``..'', adds one to the parent's link count and keeps
  the invariants and every other file. It reports success even when the parent already has 128
  entries: then the parent's listing does not change and the new directory has no name.\<close>

theorem idkfs_mkdir_correct:
  assumes "fs_inv fs" "inodes_counted fs" "dir_ok fs parent" "dir_need fs parent + 9 \<le> avail fs"
    and "i_link_count (inodes fs parent) + 1 \<noteq> 0" "nul_free name" "free_inode_set fs \<noteq> {}"
  shows "\<exists>fs'. let i = Min (free_inode_set fs) in
      idkfs_mkdir e fs parent name mode = Some (fs', int i) \<and> fs_inv fs' \<and> inodes_counted fs'
    \<and> i_type (inodes fs' i) = ft_code IDKFS_FT_DIR \<and> dir_ok fs' i
    \<and> dir_list fs' i = dot_entries (word_of_nat i) (word_of_nat parent)
    \<and> dir_list fs' parent = (if length (dir_list fs parent) < IDKFS_MAX_DIRENTS
        then dir_list fs parent @ [(stored_name name, word_of_nat i, ft_code IDKFS_FT_DIR)]
        else dir_list fs parent)
    \<and> i_link_count (inodes fs' parent) = i_link_count (inodes fs parent) + 1
    \<and> rest_kept {parent, i} fs fs'"
proof (cases rule: mkdir_cases[OF fs_invD(1)[OF assms(1)] assms(2-6), of e mode])
  case 1
  with assms(7) show ?thesis by simp
next
  case (2 fs' i)
  then have "Min (free_inode_set fs) = i" by (auto intro: Min_eqI)
  with 2 fs_inv_step[OF assms(1) 2(4,14)] show ?thesis by (intro exI[of _ fs']) (simp add: Let_def)
qed

theorem idkfs_mkdir_correct_witness:
  "\<exists>fs fs'. idkfs_mkfs True True demo_env [] features_default = Some (Some fs)
    \<and> idkfs_mkdir demo_env fs 0 [97] 493 = Some (fs', 1) \<and> dir_list fs' 1 = dot_entries 1 0
    \<and> dir_list fs' 0 = dot_entries 0 0 @ [([97], 1, 2)] \<and> i_link_count (inodes fs' 0) = 3"
proof (rule mkfs_start[of demo_env "[]" features_default])
  fix fs assume fs: "idkfs_mkfs True True demo_env [] features_default = Some (Some fs)" "fs_inv fs" "inodes_counted fs"
    "dir_ok fs 0" "dir_list fs 0 = dot_entries 0 0" "i_link_count (inodes fs 0) = 2" "65389 \<le> avail fs"
    and fr: "free_inode_set fs = {1..<4096}"
  have "Min {1..<4096 :: nat} = 1" by (rule Min_eqI) auto
  moreover have "dir_need fs 0 + 9 \<le> avail fs" using dir_need_bound[of fs 0] fs(7) by simp
  ultimately show ?thesis
    using fs idkfs_mkdir_correct[of fs 0 "[97]" demo_env 493]
    by (simp add: nul_free_def stored_name_def dot_entries_def Let_def fr) blast
qed

text \<open>C10: \<open>idkfs_mkfs\<close> always returns when its allocations succeed, and the image it returns satisfies
  the block invariant and the count of free inodes, has a root directory of type directory with two
  links that lists itself as ``.'' and ``..'', no other live inode, and all but at most nine blocks
  of the data area free.\<close>

theorem idkfs_mkfs_correct:
  "\<exists>fs. idkfs_mkfs True True e label f = Some (Some fs) \<and> fs_inv fs \<and> inodes_counted fs \<and> dir_ok fs 0
    \<and> dir_list fs 0 = dot_entries 0 0 \<and> 65536 - 138 - 9 \<le> unat (sb_free_blocks (sb fs))
    \<and> i_type (inodes fs 0) = ft_code IDKFS_FT_DIR \<and> i_link_count (inodes fs 0) = 2
    \<and> free_inode_set fs = {1..<IDKFS_MAX_INODES} \<and> features fs = f"
  by (rule mkfs_start[of e label f]) auto

section \<open>Behaviour past the direct blocks\<close>

lemma write_target_first_indirect:
  assumes inv: "block_inv fs" and live: "live fs k" and none: "i_indirect1 (inodes fs k) = IDKFS_NULL_BLOCK"
    and idx: "idx < IDKFS_PTRS_PER_BLOCK" and space: "2 \<le> avail fs"
  shows "\<exists>fs' b. write_target fs k (12 + idx) = Some (fs', Some b) \<and> live fs' k \<and> data_start fs \<le> b
    \<and> i_indirect1 (inodes fs' k) \<noteq> IDKFS_NULL_BLOCK \<and> block_inv fs' \<and> 0 < b
    \<and> (\<forall>j < IDKFS_PTRS_PER_BLOCK. ptr_at fs' (unat (i_indirect1 (inodes fs' k))) j = (if j = idx then word_of_nat b else 0))"
proof -
  have at: "inode_at fs k = Some (inodes fs k)" using live by (simp add: live_def inode_at_def)
  have get: "inode_get_block fs k (12 + idx) = Some IDKFS_NULL_BLOCK"
    using idx none by (simp add: inode_get_block_def at)
  obtain fs1 b where a1: "alloc_zeroed fs = Some (fs1, int b)" "took fs b fs1"
    by (rule alloc_zeroed_cases[OF inv]) (use space in \<open>auto simp: avail_def\<close>)
  have inv1: "block_inv fs1" using a1(2) by (simp add: took_def)
  have in1: "inodes fs1 = inodes fs" using a1(2) by (simp add: took_def)
  have ne: "free_set (bitmap fs1) \<noteq> {}"
  proof
    assume "free_set (bitmap fs1) = {}"
    then have "free_set (bitmap fs) \<subseteq> {b}" using a1(2) by (auto simp: took_def)
    from card_mono[OF _ this] show False using space by (simp add: avail_def)
  qed
  obtain fs2 ib where a2: "alloc_zeroed fs1 = Some (fs2, int ib)" "took fs1 ib fs2"
    by (rule alloc_zeroed_cases[OF inv1]) (use ne in auto)
  have inv2: "block_inv fs2" using a2(2) by (simp add: took_def)
  have in2: "inodes fs2 = inodes fs" using a2(2) in1 by (simp add: took_def)
  let ?fs3 = "upd_inode fs2 k (\<lambda>i. i\<lparr>i_indirect1 := word_of_nat ib\<rparr>)"
  have live2: "live fs2 k" using live in2 by (simp add: live_def)
  have sp: "spare fs2 ib" "spare fs2 b" and bib: "b \<noteq> ib"
    using took_spare[OF inv1 a2(2)] took_keeps_spare[OF a2(2) took_spare[OF inv a1(2)]] a1(2) a2(2)
    by (auto simp: took_def)
  have att: "attached k SInd ib fs2 ?fs3"
    by (rule attach_ind[OF inv2 live2 sp(1)]) (rule took_zero[OF a2(2)])
  have w: "unat (word_of_nat ib :: u32) = ib" "(word_of_nat ib :: u32) \<noteq> IDKFS_NULL_BLOCK"
    using sp(1) by (simp_all add: spare_def block_word block_word_not_null)
  have ind: "owns ?fs3 k SInd ib" and inv3: "block_inv ?fs3" and sp3: "spare ?fs3 b"
    using att sp(2) bib by (simp_all add: attached_def)
  let ?ptrs = "memcpy zeros 0 (disk fs2) (block_ptr ib) IDKFS_BLOCK_SIZE"
  let ?fs4 = "?fs3\<lparr>disk := memcpy (disk fs2) (block_ptr ib) (wr32 ?ptrs (4 * idx) (word_of_nat b)) 0 IDKFS_BLOCK_SIZE, dirty := True\<rparr>"
  let ?fs5 = "upd_inode ?fs4 k (\<lambda>i. i\<lparr>i_block_count := i_block_count i + 1\<rparr>)"
  have inv4: "block_inv ?fs4" using attach_ptr[OF inv3 ind sp3 idx] by (simp add: attached_def)
  have ok: "block_ok ?fs3 ib" using sp(1) by (intro geometry_block_ok[OF inv_geometry[OF inv3]]) (simp add: spare_def)
  have "inode_map_block fs k (12 + idx) = Some (?fs4, int b)"
    using a1(1) a2(1) idx none in1 in2 live w
    by (simp add: inode_map_block_def inode_at_def live_def block_read_Some[OF ok] block_write_Some[OF ok])
  then have run: "write_target fs k (12 + idx) = Some (?fs5, Some b)"
    by (simp add: write_target_def get)
  have z: "ptr_at fs2 ib j = 0" if "j < IDKFS_PTRS_PER_BLOCK" for j by (rule took_zero[OF a2(2) that])
  have "ptr_at ?fs5 ib j = (if j = idx then word_of_nat b else 0)" if "j < IDKFS_PTRS_PER_BLOCK" for j
    using ptr_at_write[of ?fs5 fs2 ib idx "word_of_nat b" j] that idx z[OF that] by simp
  moreover have "block_inv ?fs5" by (rule inv_upd_inode(1)[OF inv4]) simp_all
  moreover have "data_start fs \<le> b" "0 < b" using sp(2) a1(2) a2(2) by (simp_all add: spare_def took_def)
  moreover have "live ?fs5 k" using live2 by (simp add: live_def)
  ultimately show ?thesis using run w by (intro exI[of _ ?fs5] exI[of _ b]) simp
qed

text \<open>C29: The indirect block is zero-filled when it is allocated, and a zero entry of it is not taken
  for a missing block: once a live inode has its first indirect block, the write of any other
  logical block of the indirect range is directed to block 0 of the disk, the block of the
  superblock, and no block is allocated.\<close>

theorem indirect_write_hits_superblock:
  assumes "fs_inv fs" "live fs k" "i_indirect1 (inodes fs k) = IDKFS_NULL_BLOCK" "2 \<le> unat (sb_free_blocks (sb fs))"
    and "idx < IDKFS_PTRS_PER_BLOCK" "j < IDKFS_PTRS_PER_BLOCK" "j \<noteq> idx"
  shows "\<exists>fs' b. write_target fs k (12 + idx) = Some (fs', Some b) \<and> data_start fs \<le> b
    \<and> write_target fs' k (12 + j) = Some (fs', Some 0)"
proof -
  have "2 \<le> avail fs" using assms(1,4) by (simp add: fs_inv_def counted_def avail_def)
  from write_target_first_indirect[OF fs_invD(1)[OF assms(1)] assms(2,3,5) this] obtain fs' b where
    w: "write_target fs k (12 + idx) = Some (fs', Some b)" "live fs' k" "data_start fs \<le> b" "block_inv fs'"
      "i_indirect1 (inodes fs' k) \<noteq> IDKFS_NULL_BLOCK"
      "ptr_at fs' (unat (i_indirect1 (inodes fs' k))) j = 0"
    using assms(6,7) by auto
  have "block_ok fs' (unat (i_indirect1 (inodes fs' k)))"
    using inv_owned[OF w(4) owns_SInd[OF w(2,5)]] by (intro geometry_block_ok[OF inv_geometry[OF w(4)]]) simp
  then have "inode_get_block fs' k (12 + j) = Some 0"
    using w(2,5,6) assms(6) rd32_block_read[of j fs']
    by (simp add: inode_get_block_def inode_at_def live_def block_read_Some)
  then have "write_target fs' k (12 + j) = Some (fs', Some 0)"
    by (simp add: write_target_def IDKFS_NULL_BLOCK_def)
  with w show ?thesis by blast
qed

theorem indirect_write_hits_superblock_witness:
  "\<exists>fs fs' b. mkfs_base demo_env [] (calloc_IDKFS features_default) = Some fs
    \<and> write_target fs 0 12 = Some (fs', Some b) \<and> data_start fs \<le> b \<and> write_target fs' 0 13 = Some (fs', Some 0)"
proof -
  obtain fs where fs: "mkfs_base demo_env [] (calloc_IDKFS features_default) = Some fs" "fs_inv fs" "dir_ok fs 0"
    "avail fs = 65398" "inodes fs = (\<lambda>_. zero_Inode)(0 := root_Inode demo_env)"
    using mkfs_base_spec[of _ demo_env "[]" features_default zeros] by (auto simp: calloc_IDKFS_def)
  have "i_indirect1 (inodes fs 0) = IDKFS_NULL_BLOCK" using fs(5) by (simp add: root_Inode_def)
  moreover have "2 \<le> unat (sb_free_blocks (sb fs))"
    using fs(2,4) by (simp add: fs_inv_def counted_def avail_def)
  ultimately show ?thesis
    using indirect_write_hits_superblock[of fs 0 0 1] fs(1,2) dir_ok_live[OF fs(3)] by auto
qed

text \<open>Past the range of the indirect block (logical block 1036 and up), \<open>inode_map_block\<close> fails
  with -1 but has already taken a free block: the block is marked used and counted
  as used, and no inode points to it, so that it is lost.\<close>

theorem map_past_indirect_leaks_block:
  assumes "block_inv fs" "live fs k" "free_set (bitmap fs) \<noteq> {}" "IDKFS_DIRECT_BLOCKS + IDKFS_PTRS_PER_BLOCK \<le> l"
  shows "\<exists>fs' b. inode_map_block fs k l = Some (fs', - 1) \<and> b \<in> free_set (bitmap fs)
    \<and> free_set (bitmap fs') = free_set (bitmap fs) - {b} \<and> (\<forall>k s. \<not> owns fs' k s b)
    \<and> free_gap fs' = free_gap fs"
proof -
  obtain fs1 b where a: "alloc_zeroed fs = Some (fs1, int b)" "took fs b fs1"
    by (rule alloc_zeroed_cases[OF assms(1)]) (use assms(3) in auto)
  have t: "b \<in> free_set (bitmap fs)" "free_set (bitmap fs1) = free_set (bitmap fs) - {b}" "unowned fs1 b"
    "inodes fs1 = inodes fs" "fixed fs1 = fixed fs"
    using a(2) by (simp_all add: took_def)
  have "\<not> l < IDKFS_DIRECT_BLOCKS" "\<not> l - IDKFS_DIRECT_BLOCKS < IDKFS_PTRS_PER_BLOCK" using assms(4) by simp_all
  then have "inode_map_block fs k l = Some (fs1, - 1)"
    using a(1) assms(2) t(4) by (simp add: inode_map_block_def inode_at_def live_def Let_def)
  moreover have "free_gap fs1 = free_gap fs" by (rule fixedD(1)[OF t(5)])
  ultimately show ?thesis using t by (auto simp: unowned_def)
qed

theorem map_past_indirect_leaks_block_witness:
  "\<exists>fs fs' b. idkfs_mkfs True True demo_env [] features_default = Some (Some fs)
    \<and> inode_map_block fs 0 1036 = Some (fs', - 1) \<and> b \<in> free_set (bitmap fs) \<and> (\<forall>k s. \<not> owns fs' k s b)
    \<and> b \<notin> free_set (bitmap fs')"
proof (rule mkfs_start[of demo_env "[]" features_default])
  fix fs assume fs: "idkfs_mkfs True True demo_env [] features_default = Some (Some fs)" "block_inv fs" "live fs 0"
    "65389 \<le> avail fs"
  then have "free_set (bitmap fs) \<noteq> {}" by (auto simp: avail_def)
  with map_past_indirect_leaks_block[of fs 0 1036] fs obtain fs' b where
    "inode_map_block fs 0 1036 = Some (fs', - 1)" "b \<in> free_set (bitmap fs)" "\<forall>k s. \<not> owns fs' k s b"
    "free_set (bitmap fs') = free_set (bitmap fs) - {b}"
    by auto
  with fs(1) show ?thesis by blast
qed

end
