(* ===== verification/Fuse_Ops.thy ===== *)
theory Fuse_Ops
  imports Fuse_Path Core_Theorems
begin

text \<open>
  Correctness of the FUSE operations that change the tree: \<open>fuse_create\<close>, \<open>fuse_unlink\<close> and the
  directory listing, stated on the walks of \<^verbatim>\<open>Fuse_Path\<close>.
\<close>

section \<open>The parent of a path\<close>

lemma strrchr_none: "slash \<notin> set t \<Longrightarrow> strrchr_slash t = None"
  by (induction t) auto

lemma strrchr_last: "slash \<notin> set t \<Longrightarrow> strrchr_slash (xs @ slash # t) = Some (length xs)"
  by (induction xs) (auto simp: strrchr_none)

lemma path_of_snoc: "path_of (ts @ [t]) = path_of ts @ slash # t"
  by (simp add: path_of_def)

lemma path_of_Nil: "list_all component ts \<Longrightarrow> path_of ts = [] \<longleftrightarrow> ts = []"
  by (cases ts) (auto simp: path_of_def)

lemma path_of_not_root: "list_all component ts \<Longrightarrow> path_of ts \<noteq> [slash]"
  by (cases ts) (auto simp: path_of_def component_def)

text \<open>What a path of components denotes.\<close>

definition good_path :: "cstr list \<Rightarrow> cstr \<Rightarrow> bool" where
  "good_path ts t \<longleftrightarrow> list_all component (ts @ [t]) \<and> nul_free (path_of (ts @ [t]))
     \<and> length (path_of (ts @ [t])) \<le> 4095 \<and> length t \<le> IDKFS_MAX_FILENAME"

lemma good_path_names: "good_path ts t \<Longrightarrow> nul_free t \<and> stored_name t = t \<and> nul_free (path_of ts) \<and> length (path_of ts) \<le> 4095"
  by (auto simp: good_path_def path_of_snoc nul_free_def stored_name_def)

lemma resolve_whole:
  assumes "tree_ok fs" "good_path ts t"
  shows "\<exists>fs'. resolve_path e fs (path_of (ts @ [t])) = Some (fs', tree_walk fs 0 (ts @ [t])) \<and> same_files fs fs'"
  using resolve_path_spec[OF assms(1), of "path_of (ts @ [t])" e] assms(2) tokens_path_of[of "ts @ [t]"]
  by (auto simp: good_path_def)

lemma resolve_parent_spec:
  assumes ok: "tree_ok fs" and g: "good_path ts t"
  shows "\<exists>fs'. resolve_parent e fs (path_of (ts @ [t])) = Some (fs',
      if tree_walk fs 0 ts < 0 then Inl (tree_walk fs 0 ts) else Inr (nat (tree_walk fs 0 ts), t)) \<and> same_files fs fs'"
proof -
  let ?p = "path_of (ts @ [t])"
  have c: "slash \<notin> set t" "list_all component ts" using g by (auto simp: good_path_def component_def)
  have tk: "take 4095 ?p = ?p" using g by (simp add: good_path_def)
  have sl: "strrchr_slash ?p = Some (length (path_of ts))"
    unfolding path_of_snoc by (rule strrchr_last[OF c(1)])
  have nm: "take IDKFS_MAX_FILENAME (drop (length (path_of ts) + 1) ?p) = t"
    using g by (simp add: path_of_snoc good_path_def)
  show ?thesis
  proof (cases "ts = []")
    case True
    then show ?thesis
      using sl nm by (simp add: resolve_parent_def tk Let_def path_of_def)
  next
    case False
    have pre: "take (length (path_of ts)) ?p = path_of ts" by (simp add: path_of_snoc)
    have ne: "length (path_of ts) \<noteq> 0" using path_of_Nil[OF c(2)] False by simp
    obtain fs' where "resolve_path e fs (path_of ts) = Some (fs', tree_walk fs 0 ts)" "same_files fs fs'"
      using resolve_path_spec[OF ok, of "path_of ts" e] good_path_names[OF g] tokens_path_of[OF c(2)] by auto
    with sl nm pre ne show ?thesis
      by (simp add: resolve_parent_def tk Let_def)
  qed
qed

section \<open>Creating a file\<close>

text \<open>A walk that succeeds still leads to the same inode when directories only gain names.\<close>

lemma tree_walk_extend:
  assumes "\<And>k. live fs k \<Longrightarrow> i_type (inodes fs k) = ft_code IDKFS_FT_DIR \<Longrightarrow>
      i_type (inodes fs' k) = ft_code IDKFS_FT_DIR \<and> map_of (dir_list fs k) \<subseteq>\<^sub>m map_of (dir_list fs' k)"
    and "tree_ok fs" "live fs k" "0 \<le> tree_walk fs k ts"
  shows "tree_walk fs' k ts = tree_walk fs k ts"
  using assms(3,4)
proof (induction ts arbitrary: k)
  case (Cons t ts)
  then have d: "i_type (inodes fs k) = ft_code IDKFS_FT_DIR" by (auto split: if_splits)
  with Cons obtain ino type where v: "map_of (dir_list fs k) (stored_name t) = Some (ino, type)"
    by (auto split: option.splits)
  moreover have "map_of (dir_list fs' k) (stored_name t) = Some (ino, type)"
    using assms(1)[OF Cons.prems(1) d] v by (auto simp: map_le_def dom_def)
  ultimately show ?case
    using Cons d assms(1)[OF Cons.prems(1) d] tree_ok_entry[OF assms(2) Cons.prems(1) d v] by simp
qed simp

lemma tree_walk_snoc:
  "tree_walk fs k ts = int p \<Longrightarrow> i_type (inodes fs p) = ft_code IDKFS_FT_DIR \<Longrightarrow>
    map_of (dir_list fs p) (stored_name t) = Some (ino, type) \<Longrightarrow> tree_walk fs k (ts @ [t]) = int (unat ino)"
  by (induction ts arbitrary: k) (auto split: if_splits option.splits)

lemma map_le_append: "map_of xs \<subseteq>\<^sub>m map_of (xs @ ys)"
  by (auto simp: map_le_def map_add_def split: option.splits)

lemma word_inode: "i \<in> free_inode_set fs \<Longrightarrow> unat (word_of_nat i :: u32) = i"
  by (simp add: free_inode_set_def unat_of_nat take_bit_nat_eq_self)

text \<open>A new file in directory \<open>p\<close> keeps the tree well-formed and every existing path.\<close>

lemma create_tree:
  assumes ok: "tree_ok fs" and p: "live fs p" "i_type (inodes fs p) = ft_code IDKFS_FT_DIR"
    and i: "i \<in> free_inode_set fs"
    and fs': "block_inv fs'" "dir_ok fs' p" "i_type (inodes fs' p) = i_type (inodes fs p)"
      "dir_list fs' p = dir_list fs p @ [(n, word_of_nat i, ty)]" "rest_kept {p, i} fs fs'"
    and new: "live fs' i" "i_type (inodes fs' i) \<noteq> ft_code IDKFS_FT_DIR"
  shows "tree_ok fs'" "0 \<le> tree_walk fs 0 ts \<Longrightarrow> tree_walk fs' 0 ts = tree_walk fs 0 ts"
proof -
  have same: "inodes fs' k = inodes fs k" if "k \<noteq> p" "k \<noteq> i" for k
    using fs'(5) that by (simp add: rest_kept_def)
  have live: "live fs' k" if "live fs k" for k
    using that same[of k] new(1) dir_ok_live[OF fs'(2)] by (cases "k = p \<or> k = i") (auto simp: live_def)
  have ni: "k \<noteq> i" if "live fs k" for k using live_not_free[OF that] i by metis
  have root: "live fs 0" "i_type (inodes fs 0) = ft_code IDKFS_FT_DIR" using ok by (simp_all add: tree_ok_def)
  have ty: "i_type (inodes fs' k) = i_type (inodes fs k)" if "live fs k" for k
    using same[of k] fs'(3) ni[OF that] by (cases "k = p") auto
  have dl: "dir_list fs' k = (if k = p then dir_list fs p @ [(n, word_of_nat i, ty)] else dir_list fs k)" if "live fs k" for k
    using that ni[OF that] fs'(4,5) by (auto simp: rest_kept_def)
  have dok: "dir_ok fs' k" if "live fs k" "dir_ok fs k" "k \<noteq> p" for k
  proof -
    have "fbyte fs' k x = fbyte fs k x" if "x < sizeof_Directory" for x
      using that \<open>live fs k\<close> \<open>k \<noteq> p\<close> ni[OF \<open>live fs k\<close>] fs'(5) by (simp add: rest_kept_def layout_simps)
    with that same[of k] ni[of k] show ?thesis using dir_ok_cong(1)[of fs' k fs] by simp
  qed
  have ent: "\<forall>en \<in> set (dir_list fs k). live fs' (unat (fst (snd en)))"
    if "live fs k" "i_type (inodes fs k) = ft_code IDKFS_FT_DIR" for k
    using ok that live by (simp add: tree_ok_def)
  show "tree_ok fs'"
    unfolding tree_ok_def
  proof (intro conjI allI impI)
    fix k assume k: "live fs' k" "i_type (inodes fs' k) = ft_code IDKFS_FT_DIR"
    then have ki: "k \<noteq> i" using new(2) by auto
    have lk: "live fs k" using k(1) same[of k] ki p(1) by (cases "k = p") (auto simp: live_def)
    show "dir_ok fs' k" using dok[OF lk] fs'(2) tree_ok_dir[OF ok lk] ty[OF lk] k(2) by (cases "k = p") auto
    have "\<forall>en \<in> set (dir_list fs k). live fs' (unat (fst (snd en)))" using ent[OF lk] ty[OF lk] k(2) by simp
    then show "\<forall>en \<in> set (dir_list fs' k). live fs' (unat (fst (snd en)))"
      using dl[OF lk] word_inode[OF i] new(1) by (auto split: if_splits)
  qed (use root live ty[OF root(1)] fs'(1) in auto)
  assume "0 \<le> tree_walk fs 0 ts"
  then show "tree_walk fs' 0 ts = tree_walk fs 0 ts"
    using ok root(1) by (intro tree_walk_extend[of fs]) (auto simp: ty dl map_le_append)
qed

text \<open>\<open>fuse_create\<close> of a path whose parent is a directory that has room, in a well-formed tree with
  a free inode: if the parent has fewer than 128 entries and not yet this name, it returns the lowest free
  inode as the handle, the path resolves to that inode afterwards, every path that resolved before
  resolves to the same inode, the tree stays well-formed and \<open>free_blocks\<close> right if it was.\<close>

theorem fuse_create_resolves:
  assumes ok: "tree_ok fs" "inodes_counted fs" and g: "good_path ts t"
    and p: "tree_walk fs 0 ts = int p" "i_type (inodes fs p) = ft_code IDKFS_FT_DIR" "dir_room fs p"
    and new: "t \<notin> fst ` set (dir_list fs p)" "length (dir_list fs p) < IDKFS_MAX_DIRENTS" "free_inode_set fs \<noteq> {}"
  shows "\<exists>fs'. let i = Min (free_inode_set fs) in
      fuse_create e fs (path_of (ts @ [t])) mode = Some (fs', Inr (word_of_nat i))
    \<and> tree_walk fs' 0 (ts @ [t]) = int i
    \<and> (\<forall>us. 0 \<le> tree_walk fs 0 us \<longrightarrow> tree_walk fs' 0 us = tree_walk fs 0 us)
    \<and> tree_ok fs' \<and> inodes_counted fs' \<and> (counted fs \<longrightarrow> counted fs')"
proof -
  obtain fs1 where r: "resolve_parent e fs (path_of (ts @ [t])) = Some (fs1, Inr (p, t))" and s: "same_files fs fs1"
    using resolve_parent_spec[OF ok(1) g, of e] p(1) by auto
  note v = same_files_view[OF s] and nm = good_path_names[OF g]
  have ok1: "tree_ok fs1" using ok(1) tree_ok_same[OF s] by simp
  have live: "live fs p" using tree_walk_live[OF ok(1), of 0 ts] ok(1) p(1) by (simp add: tree_ok_def)
  have d: "dir_ok fs p" by (rule tree_ok_dir[OF ok(1) live p(2)])
  have room1: "dir_room fs1 p" using p(3) by (simp add: dir_room_def v)
  have inv1: "block_inv fs1" "inodes_counted fs1" "dir_ok fs1 p" using ok d by (simp_all add: v tree_ok_def)
  have nt: "nul_free t" using nm by simp
  show ?thesis
  proof (cases rule: create_cases[OF inv1 room1 nt, of e TIER_NORMAL "ucast mode"])
    case 1
    then show ?thesis using new(3) by (simp add: v)
  next
    case (2 fs' i)
    have min: "Min (free_inode_set fs) = i" using 2(2,3) by (auto simp: v intro: Min_eqI)
    have newi: "live fs' i" "i_type (inodes fs' i) \<noteq> ft_code IDKFS_FT_DIR"
      using 2(2,8) by (simp_all add: live_def free_inode_set_def) (simp add: file_Inode_def)
    have l: "dir_list fs' p = dir_list fs1 p @ [(t, word_of_nat i, ft_code IDKFS_FT_FILE)]" using 2(9) nm by simp
    have p1: "live fs1 p" "i_type (inodes fs1 p) = ft_code IDKFS_FT_DIR"
      using live p(2) same_files_inode(1)[OF s] by (simp_all add: v)
    note t = create_tree[OF ok1 p1 2(2,5,7,11) l 2(10) newi]
    have w: "tree_walk fs1 0 us = tree_walk fs 0 us" for us by (rule tree_walk_same[OF s])
    have "tree_walk fs' 0 (ts @ [t]) = int (unat (word_of_nat i :: u32))"
    proof (rule tree_walk_snoc)
      show "tree_walk fs' 0 ts = int p" using t(2)[of ts] p(1) by (simp add: w)
      show "i_type (inodes fs' p) = ft_code IDKFS_FT_DIR" using 2(11) p1(2) by simp
      show "map_of (dir_list fs' p) (stored_name t) = Some (word_of_nat i, ft_code IDKFS_FT_FILE)"
        using new(1) nm unfolding l by (simp add: map_of_snoc v del: map_of_append)
    qed
    then have "tree_walk fs' 0 (ts @ [t]) = int i" using word_inode[OF 2(2)] by simp
    moreover have "fuse_create e fs (path_of (ts @ [t])) mode = Some (fs', Inr (word_of_nat i))"
      using r 2(1) by (simp add: fuse_create_def)
    moreover have "counted fs' = counted fs" using 2(12) v(10) by (intro fixed_counted) simp
    ultimately show ?thesis
      using t 2(6) min by (intro exI[of _ fs']) (simp add: Let_def w)
  next
    case (3 fs')
    then show ?thesis using new(2) by (simp add: v)
  qed
qed

lemma mkfs_tree:
  assumes "idkfs_mkfs True True e label f = Some (Some fs)"
  shows "tree_ok fs" "inodes_counted fs" "dir_room fs 0" "dir_list fs 0 = dot_entries 0 0"
    "free_inode_set fs = {1..<IDKFS_MAX_INODES}" "i_type (inodes fs 0) = ft_code IDKFS_FT_DIR"
    "Min (free_inode_set fs) = 1" "fs_inv fs" "65389 \<le> avail fs" "dir_ok fs 0"
proof -
  obtain fs1 where r: "idkfs_mkfs True True e label f = Some (Some fs1)" "fs_inv fs1" "inodes_counted fs1" "dir_ok fs1 0"
    "dir_list fs1 0 = dot_entries 0 0" "i_type (inodes fs1 0) = ft_code IDKFS_FT_DIR" "live fs1 0"
    "free_inode_set fs1 = {1..<IDKFS_MAX_INODES}" "dir_room fs1 0" "65389 \<le> avail fs1"
    by (rule mkfs_start)
  have eq: "fs1 = fs" using assms r(1) by simp
  have z: "k = 0" if "live fs k" for k
    using live_not_free[OF that] that r(8) eq by (auto simp: live_def)
  have "dir_ok fs k \<and> (\<forall>en \<in> set (dir_list fs k). live fs (unat (fst (snd en))))" if "live fs k" for k
    using z[OF that] r unfolding eq by (auto simp: dot_entries_def)
  with r fs_invD(1)[OF r(2)] show "tree_ok fs" unfolding eq tree_ok_def by simp
  show "inodes_counted fs" "dir_room fs 0" "dir_list fs 0 = dot_entries 0 0" "i_type (inodes fs 0) = ft_code IDKFS_FT_DIR"
    "fs_inv fs" "65389 \<le> avail fs" "dir_ok fs 0"
    using r eq by simp_all
  show f: "free_inode_set fs = {1..<IDKFS_MAX_INODES}" using r eq by simp
  show "Min (free_inode_set fs) = 1" unfolding f by (rule Min_eqI) auto
qed

theorem fuse_create_resolves_witness:
  "\<exists>fs fs'. idkfs_mkfs True True demo_env [] features_default = Some (Some fs)
    \<and> fuse_create demo_env fs [47, 97] 420 = Some (fs', Inr 1) \<and> tree_walk fs' 0 [[97]] = 1 \<and> tree_ok fs'"
proof (rule mkfs_start[of demo_env "[]" features_default])
  fix fs assume fs: "idkfs_mkfs True True demo_env [] features_default = Some (Some fs)"
  note m = mkfs_tree[OF fs]
  have g: "good_path [] [97]" by (simp add: good_path_def component_def path_of_def nul_free_def)
  show ?thesis
    using fuse_create_resolves[OF m(1,2) g, of 0 demo_env 420] m(3-7) fs
    by (auto simp: path_of_def dot_entries_def dot_def dotdot_def Let_def simp del: tree_walk.simps(2))
qed

end
