(* ===== verification/Fuse_Unlink.thy ===== *)
theory Fuse_Unlink
  imports Fuse_Ops
begin

text \<open>
  \<open>fuse_unlink\<close>: releasing the blocks of a file, removing its name and freeing its inode. For files
  within the direct blocks the operation keeps every invariant. Files with an indirect block are the matter of
  \<^verbatim>\<open>Fuse_Indirect\<close>.
\<close>

section \<open>Releasing the direct blocks\<close>

text \<open>The blocks the slots \<open>A\<close> of \<open>direct[]\<close> point to.\<close>

definition direct_blocks :: "IDKFS \<Rightarrow> nat \<Rightarrow> nat set \<Rightarrow> nat set" where
  "direct_blocks fs k A = (\<lambda>j. unat (i_direct (inodes fs k) j)) ` {j \<in> A. i_direct (inodes fs k) j \<noteq> IDKFS_NULL_BLOCK}"

definition release_ok :: "nat \<Rightarrow> IDKFS \<Rightarrow> IDKFS \<Rightarrow> bool" where
  "release_ok k fs fs' \<longleftrightarrow> step_kept k fs fs' \<and> i_indirect1 (inodes fs' k) = i_indirect1 (inodes fs k) \<and> disk fs' = disk fs
     \<and> (\<forall>k s b. owns fs' k s b \<longrightarrow> owns fs k s b)"

lemma release_ok_refl: "block_inv fs \<Longrightarrow> release_ok k fs fs"
  by (simp add: release_ok_def step_kept_refl)

lemma release_ok_trans: "release_ok k fs fs1 \<Longrightarrow> release_ok k fs1 fs2 \<Longrightarrow> release_ok k fs fs2"
  by (auto simp: release_ok_def intro: step_kept_trans)

lemma release_direct_spec:
  assumes inv: "block_inv fs" and live: "live fs k" and b: "b < IDKFS_DIRECT_BLOCKS"
  shows "\<exists>fs'. release_direct k b fs = Some fs' \<and> release_ok k fs fs'
    \<and> i_direct (inodes fs' k) = (i_direct (inodes fs k))(b := IDKFS_NULL_BLOCK)
    \<and> free_set (bitmap fs') = free_set (bitmap fs) \<union> direct_blocks fs k {b}"
proof (cases "i_direct (inodes fs k) b = IDKFS_NULL_BLOCK")
  case True
  moreover from this have "direct_blocks fs k {b} = {}" by (auto simp: direct_blocks_def)
  ultimately show ?thesis using inv by (simp add: release_direct_def release_ok_refl fun_upd_idem)
next
  case False
  let ?v = "unat (i_direct (inodes fs k) b)"
  have o: "owns fs k (SDirect b) ?v" using False live b by (simp add: owns_def)
  note r = inv_owned[OF inv o]
  obtain bm where bm: "bitmap_clear (bitmap fs) ?v = Some bm" using bitmap_clear_Some[of ?v] r by auto
  define fs' where "fs' = upd_inode (fs\<lparr>bitmap := bm, sb := (sb fs)\<lparr>sb_free_blocks := sb_free_blocks (sb fs) + 1\<rparr>\<rparr>) k
      (\<lambda>i. i\<lparr>i_direct := (i_direct i)(b := IDKFS_NULL_BLOCK)\<rparr>)"
  have run: "release_direct k b fs = Some fs'"
    using False bm by (simp add: release_direct_def release_block_def Let_def fs'_def)
  have u: "used (bitmap fs') x = (x \<noteq> ?v \<and> used (bitmap fs) x)" for x
    using bitmap_clear_used[OF bm] by (simp add: fs'_def)
  have kept: "others_kept k fs fs'" by (auto simp: others_kept_def fs'_def disk_same_block)
  have own: "owns fs k' s x \<and> x \<noteq> ?v" if x: "owns fs' k' s x" for k' s x
  proof (cases "k' = k")
    case False
    with x others_kept_owns[OF kept] inv_inj[OF inv o] show ?thesis by blast
  next
    case True
    have "slot_val fs' k s = (if s = SDirect b then IDKFS_NULL_BLOCK else slot_val fs k s)"
      by (cases s) (auto simp: fs'_def ptr_at_def)
    with x True have "s \<noteq> SDirect b" "owns fs k s x" by (auto simp: owns_def live_def fs'_def split: if_splits)
    with True inv_inj[OF inv o] show ?thesis by blast
  qed
  have fr: "free_set (bitmap fs') = insert ?v (free_set (bitmap fs))"
    using r unfolding free_set_def u by auto
  have "?v \<notin> free_set (bitmap fs)" using r by (simp add: free_set_def)
  then have "free_gap fs' = free_gap fs" unfolding free_gap_def fr by (simp add: fs'_def)
  then have fixed: "fixed fs' = fixed fs" by (simp add: fixed_def) (simp add: fs'_def)
  have ds: "data_start fs' = data_start fs" by (simp add: fs'_def data_start_def)
  have "geometry fs'" using inv_geometry[OF inv] r by (auto simp: geometry_def ds u) (simp add: fs'_def)
  then have "block_inv fs'"
    unfolding block_inv_def using own inv_owned[OF inv] inv_inj[OF inv] by (metis u ds)
  then have "release_ok k fs fs'"
    using kept ds fixed own by (simp add: release_ok_def step_kept_def) (simp add: fs'_def)
  moreover have "direct_blocks fs k {b} = {?v}" using False by (auto simp: direct_blocks_def)
  ultimately show ?thesis using run fr by (simp add: fs'_def)
qed

lemma release_directs_spec:
  assumes "block_inv fs" "live fs k" "\<forall>b \<in> set bs. b < IDKFS_DIRECT_BLOCKS"
  shows "\<exists>fs'. release_directs k bs fs = Some fs' \<and> release_ok k fs fs'
    \<and> i_direct (inodes fs' k) = (\<lambda>j. if j \<in> set bs then IDKFS_NULL_BLOCK else i_direct (inodes fs k) j)
    \<and> free_set (bitmap fs') = free_set (bitmap fs) \<union> direct_blocks fs k (set bs)"
  using assms
proof (induction bs arbitrary: fs)
  case Nil
  then show ?case by (simp add: release_ok_refl direct_blocks_def)
next
  case (Cons b bs)
  obtain fs1 where 1: "release_direct k b fs = Some fs1" "release_ok k fs fs1"
    "i_direct (inodes fs1 k) = (i_direct (inodes fs k))(b := IDKFS_NULL_BLOCK)"
    "free_set (bitmap fs1) = free_set (bitmap fs) \<union> direct_blocks fs k {b}"
    using release_direct_spec[OF Cons.prems(1,2), of b] Cons.prems(3) by auto
  have s: "step_kept k fs fs1" using 1(2) by (simp add: release_ok_def)
  obtain fs2 where 2: "release_directs k bs fs1 = Some fs2" "release_ok k fs1 fs2"
    "i_direct (inodes fs2 k) = (\<lambda>j. if j \<in> set bs then IDKFS_NULL_BLOCK else i_direct (inodes fs1 k) j)"
    "free_set (bitmap fs2) = free_set (bitmap fs1) \<union> direct_blocks fs1 k (set bs)"
    using Cons.IH[OF step_kept_inv[OF s]] Cons.prems step_kept_live[OF s] by auto
  have "direct_blocks fs k {b} \<union> direct_blocks fs1 k (set bs) = direct_blocks fs k (set (b # bs))"
    by (auto simp: direct_blocks_def 1(3) split: if_splits)
  then show ?case
    using 1 2 release_ok_trans[OF 1(2) 2(2)] by (auto simp: fun_eq_iff)
qed

lemma release_file_spec:
  assumes inv: "block_inv fs" and live: "live fs k" and ind: "i_indirect1 (inodes fs k) = IDKFS_NULL_BLOCK"
  shows "\<exists>fs'. release_file k fs = Some fs' \<and> block_inv fs' \<and> others_kept k fs fs'
    \<and> sb_free_inodes (sb fs') = sb_free_inodes (sb fs) \<and> i_type (inodes fs' k) = i_type (inodes fs k)
    \<and> i_link_count (inodes fs' k) = i_link_count (inodes fs k)
    \<and> blank (inodes fs' k) \<and> free_set (bitmap fs') = free_set (bitmap fs) \<union> direct_blocks fs k {..<IDKFS_DIRECT_BLOCKS}
    \<and> fixed fs' = fixed fs \<and> stays_low fs fs'"
proof -
  obtain fs1 where 1: "release_directs k [0..<IDKFS_DIRECT_BLOCKS] fs = Some fs1" "release_ok k fs fs1"
    "i_direct (inodes fs1 k) = (\<lambda>j. if j < IDKFS_DIRECT_BLOCKS then IDKFS_NULL_BLOCK else i_direct (inodes fs k) j)"
    "free_set (bitmap fs1) = free_set (bitmap fs) \<union> direct_blocks fs k {..<IDKFS_DIRECT_BLOCKS}"
    using release_directs_spec[OF inv live, of "[0..<IDKFS_DIRECT_BLOCKS]"] by (auto simp: atLeast0LessThan)
  let ?f = "\<lambda>i. i\<lparr>i_size := 0, i_block_count := 0\<rparr>"
  have s: "step_kept k fs fs1" and i1: "i_indirect1 (inodes fs1 k) = IDKFS_NULL_BLOCK"
    using 1(2) ind by (simp_all add: release_ok_def)
  note u = inv_upd_inode[OF step_kept_inv[OF s], of ?f k, simplified]
  have run: "release_file k fs = Some (upd_inode fs1 k ?f)"
    using 1(1) i1 by (simp add: release_file_def release_indirect_def)
  have "others_kept k fs (upd_inode fs1 k ?f)"
    using others_kept_trans[of k fs fs1] s u(2) by (simp add: step_kept_def)
  moreover have "owns (upd_inode fs1 k ?f) k' s b \<Longrightarrow> owns fs k' s b" for k' s b
    using 1(2) u(3) by (simp add: release_ok_def)
  then have "stays_low fs (upd_inode fs1 k ?f)" by (rule stays_low_shrink)
  ultimately show ?thesis
    using run u(1) s 1 i1 by (intro exI[of _ "upd_inode fs1 k ?f"]) (simp add: step_kept_def blank_def)
qed

lemma direct_blocks_card:
  assumes inv: "block_inv fs" and live: "live fs k"
  shows "card (free_set (bitmap fs) \<union> direct_blocks fs k {..<IDKFS_DIRECT_BLOCKS})
    = avail fs + card {j. j < IDKFS_DIRECT_BLOCKS \<and> i_direct (inodes fs k) j \<noteq> IDKFS_NULL_BLOCK}"
proof -
  let ?J = "{j. j < IDKFS_DIRECT_BLOCKS \<and> i_direct (inodes fs k) j \<noteq> IDKFS_NULL_BLOCK}"
  let ?b = "\<lambda>j. unat (i_direct (inodes fs k) j)"
  have B: "direct_blocks fs k {..<IDKFS_DIRECT_BLOCKS} = ?b ` ?J" by (simp add: direct_blocks_def)
  have o: "owns fs k (SDirect j) (?b j)" if "j \<in> ?J" for j using that live by (simp add: owns_def)
  have "inj_on ?b ?J"
  proof (rule inj_onI)
    fix i j assume i: "i \<in> ?J" and j: "j \<in> ?J" and eq: "?b i = ?b j"
    have "owns fs k (SDirect i) (?b j)" using o[OF i] unfolding eq .
    from inv_inj[OF inv this o[OF j]] show "i = j" by simp
  qed
  then have "card (?b ` ?J) = card ?J" by (rule card_image)
  moreover have "free_set (bitmap fs) \<inter> ?b ` ?J = {}"
  proof -
    have "?b j \<notin> free_set (bitmap fs)" if "j \<in> ?J" for j
      using inv_owned[OF inv o[OF that]] by (simp add: free_set_def)
    then show ?thesis by blast
  qed
  moreover have "finite ?J" by simp
  ultimately show ?thesis
    unfolding B avail_def by (subst card_Un_disjoint) simp_all
qed

section \<open>Unlinking a file\<close>

lemma counted_free:
  assumes c: "inodes_counted fs" and k: "live fs k" "k \<noteq> 0"
  shows "inodes_counted (install fs k zero_Inode (sb_free_inodes (sb fs) + 1))"
    "k \<in> free_inode_set (install fs k zero_Inode (sb_free_inodes (sb fs) + 1))"
proof -
  let ?fs = "install fs k zero_Inode (sb_free_inodes (sb fs) + 1)"
  have f: "free_inode_set ?fs = insert k (free_inode_set fs)"
    using k by (auto simp: free_inode_set_def live_def zero_Inode_def split: if_splits)
  then show "k \<in> free_inode_set ?fs" by simp
  have u: "unat (sb_free_inodes (sb fs)) = card (free_inode_set fs)" and l: "live fs 0"
    using c by (simp_all add: inodes_counted_def)
  have "card (free_inode_set fs) \<le> card {..<IDKFS_MAX_INODES}"
    by (rule card_mono) (auto simp: free_inode_set_def)
  then have "unat (sb_free_inodes (sb fs) + 1) = unat (sb_free_inodes (sb fs)) + 1"
    using u by (simp add: unat_word_ariths)
  then show "inodes_counted ?fs"
    using u l k live_not_free[OF k(1)] unfolding inodes_counted_def f by (simp add: install_view)
qed

lemma mapped_need: "dir_ok fs k \<Longrightarrow> i_size (inodes fs k) \<noteq> 0 \<Longrightarrow> dir_need fs k = 0"
proof -
  assume "dir_ok fs k" and "i_size (inodes fs k) \<noteq> 0"
  then have m: "fbyte fs k p \<noteq> None" if "p < sizeof_Directory" for p using that by (auto simp: dir_ok_def)
  have "i_direct (inodes fs k) j \<noteq> IDKFS_NULL_BLOCK" if "touched 0 sizeof_Directory (j * IDKFS_BLOCK_SIZE)" for j
    using touched_dir[OF that] m[of "j * IDKFS_BLOCK_SIZE"] by (auto simp: fbyte_def layout_simps)
  then have "missing fs k 0 sizeof_Directory = {}" by (auto simp: missing_def)
  then show ?thesis by (simp add: dir_need_def)
qed

text \<open>The part of \<open>fuse_unlink\<close> after the path is resolved: file \<open>k\<close>, named \<open>t\<close> in directory \<open>p\<close>.\<close>

lemma unlink_core:
  assumes inv: "block_inv fs" "inodes_counted fs" and k: "live fs k" "k \<noteq> 0" "p \<noteq> k" "i_indirect1 (inodes fs k) = IDKFS_NULL_BLOCK"
    and p: "dir_ok fs p" "i_type (inodes fs p) = ft_code IDKFS_FT_DIR" "t \<in> fst ` set (dir_list fs p)"
    and t: "nul_free t" "stored_name t = t"
  shows "\<exists>fs3 fs4. release_file k fs = Some fs3 \<and> idkfs_dir_remove e fs3 p t = Some (fs4, 0) \<and> block_inv fs4
    \<and> inodes_counted fs4 \<and> live fs4 k
    \<and> dir_list fs4 p = remove_first t (dir_list fs p)
    \<and> avail fs + card {j. j < IDKFS_DIRECT_BLOCKS \<and> i_direct (inodes fs k) j \<noteq> IDKFS_NULL_BLOCK} \<le> avail fs4
    \<and> rest_kept {p, k} fs fs4 \<and> dir_ok fs4 p \<and> i_type (inodes fs4 p) = i_type (inodes fs p) \<and> fixed fs4 = fixed fs
    \<and> stays_low fs fs4"
proof -
  obtain fs3 where r3: "release_file k fs = Some fs3" "block_inv fs3" "others_kept k fs fs3"
    "sb_free_inodes (sb fs3) = sb_free_inodes (sb fs)" "i_type (inodes fs3 k) = i_type (inodes fs k)"
    "i_link_count (inodes fs3 k) = i_link_count (inodes fs k)"
    "free_set (bitmap fs3) = free_set (bitmap fs) \<union> direct_blocks fs k {..<IDKFS_DIRECT_BLOCKS}" "fixed fs3 = fixed fs"
    "stays_low fs fs3"
    using release_file_spec[OF inv(1) k(1,4)] by blast
  have p3: "dir_ok fs3 p" "dir_list fs3 p = dir_list fs p" "inodes fs3 p = inodes fs p"
    using others_kept_dir[OF r3(3) k(3) dir_ok_live[OF p(1)]] p(1) r3(3) k(3) by (simp_all add: others_kept_def)
  have "i_size (inodes fs3 p) \<noteq> 0" using dir_list_empty[of fs3 p] p3(2) p(3) by auto
  then have need: "dir_need fs3 p = 0" by (rule mapped_need[OF p3(1)])
  obtain fs4 where r4: "idkfs_dir_remove e fs3 p t = Some (fs4, 0)" and s4: "dir_step p fs3 fs4"
    and l4: "dir_list fs4 p = remove_first t (dir_list fs p)"
    using dir_remove_spec[OF r3(2) p3(1) _ t(1), of e] need p(2,3) p3(2,3) by (auto simp: dir_room_def t)
  have links: "i_link_count (inodes fs3 k') = i_link_count (inodes fs k')" for k'
    using r3(3,6) by (cases "k' = k") (auto simp: others_kept_def)
  have "inodes_counted fs4" using counted_cong[of fs3 fs, OF links r3(4)] inv(2) dir_step_counted[OF s4] by simp
  moreover have "live fs4 k" using k(1) r3(6) dir_step_links[OF s4, of k] by (simp add: live_def)
  moreover have "avail fs3 = avail fs + card {j. j < IDKFS_DIRECT_BLOCKS \<and> i_direct (inodes fs k) j \<noteq> IDKFS_NULL_BLOCK}"
    using direct_blocks_card[OF inv(1) k(1)] r3(7) by (simp add: avail_def[of fs3])
  then have "avail fs + card {j. j < IDKFS_DIRECT_BLOCKS \<and> i_direct (inodes fs k) j \<noteq> IDKFS_NULL_BLOCK} \<le> avail fs4"
    using s4 need by (simp add: dir_step_def)
  moreover have "rest_kept {p, k} fs fs4"
    by (rule rest_trans[OF others_rest[OF r3(3)] others_rest[OF dir_step_others[OF s4]]]) simp_all
  moreover have "i_type (inodes fs4 p) = i_type (inodes fs p)" using s4 p3(3) by (simp add: dir_step_def)
  moreover have "fixed fs4 = fixed fs" using dir_step_fixed[OF s4] r3(8) by simp
  moreover have "stays_low fs fs4" by (rule stays_low_then[OF r3(9) dir_step_allocates[OF s4]])
  ultimately show ?thesis using r3(1) r4 l4 dir_step_inv[OF s4] dir_step_ok[OF s4] by blast
qed

text \<open>C13: \<open>fuse_unlink\<close> of a file that has no indirect block, in a well-formed tree whose parent
  directory has pairwise different names, returns 0, removes exactly this name from the parent,
  frees the inode and at least the file's blocks, and keeps the block invariant, the counts of free
  inodes and blocks and the contents of every other file and directory.\<close>

theorem fuse_unlink_correct:
  assumes ok: "tree_ok fs" "inodes_counted fs" and g: "good_path ts t"
    and p: "tree_walk fs 0 ts = int p" "i_type (inodes fs p) = ft_code IDKFS_FT_DIR" "distinct (map fst (dir_list fs p))"
    and f: "map_of (dir_list fs p) t = Some (ino, type)" "i_type (inodes fs (unat ino)) \<noteq> ft_code IDKFS_FT_DIR"
      "i_indirect1 (inodes fs (unat ino)) = IDKFS_NULL_BLOCK"
  shows "\<exists>fs'. fuse_unlink e fs (path_of (ts @ [t])) = Some (fs', 0) \<and> block_inv fs' \<and> inodes_counted fs' \<and> (counted fs \<longrightarrow> counted fs')
    \<and> map_of (dir_list fs' p) = (map_of (dir_list fs p))(t := None) \<and> unat ino \<in> free_inode_set fs'
    \<and> avail fs + card {j. j < IDKFS_DIRECT_BLOCKS \<and> i_direct (inodes fs (unat ino)) j \<noteq> IDKFS_NULL_BLOCK} \<le> avail fs'
    \<and> (\<forall>k x. k \<noteq> p \<longrightarrow> k \<noteq> unat ino \<longrightarrow> live fs k \<longrightarrow> x < IDKFS_DIRECT_BLOCKS * IDKFS_BLOCK_SIZE \<longrightarrow>
         fbyte fs' k x = fbyte fs k x)"
proof -
  let ?k = "unat ino" and ?path = "path_of (ts @ [t])"
  obtain fs1 where r1: "resolve_parent e fs ?path = Some (fs1, Inr (p, t))" and s1: "same_files fs fs1"
    using resolve_parent_spec[OF ok(1) g, of e] p(1) by auto
  have nm: "nul_free t" "stored_name t = t" using good_path_names[OF g] by simp_all
  have lp: "live fs p" using tree_walk_live[OF ok(1), of 0 ts] ok(1) p(1) by (simp add: tree_ok_def)
  have w: "tree_walk fs 0 (ts @ [t]) = int ?k" by (rule tree_walk_snoc[OF p(1,2)]) (simp add: nm f)
  obtain fs2 where r2: "resolve_path e fs1 ?path = Some (fs2, int ?k)" and s2: "same_files fs fs2"
    using resolve_whole[of fs1 ts t e] ok(1) g tree_ok_same[OF s1] tree_walk_same[OF s1] w same_files_trans[OF s1] by auto
  note v = same_files_view[OF s2] and i = same_files_inode[OF s2]
  have lk: "live fs ?k" by (rule tree_ok_entry[OF ok(1) lp p(2) f(1)])
  have k0: "?k \<noteq> 0" "p \<noteq> ?k" using f(2) p(2) ok(1) unfolding tree_ok_def by metis+
  have hit: "t \<in> fst ` set (dir_list fs p)" using f(1) by (metis domI dom_map_of_conv_image_fst)
  have c: "block_inv fs2" "inodes_counted fs2" "live fs2 ?k" "i_indirect1 (inodes fs2 ?k) = IDKFS_NULL_BLOCK"
    "dir_ok fs2 p" "i_type (inodes fs2 p) = ft_code IDKFS_FT_DIR" "t \<in> fst ` set (dir_list fs2 p)"
    using ok lk f(3) tree_ok_dir[OF ok(1) lp p(2)] p(2) hit by (simp_all add: v i tree_ok_def)
  obtain fs3 fs4 where u: "release_file ?k fs2 = Some fs3" "idkfs_dir_remove e fs3 p t = Some (fs4, 0)"
    "block_inv fs4" "inodes_counted fs4" "live fs4 ?k"
    "dir_list fs4 p = remove_first t (dir_list fs p)"
    "avail fs + card {j. j < IDKFS_DIRECT_BLOCKS \<and> i_direct (inodes fs ?k) j \<noteq> IDKFS_NULL_BLOCK} \<le> avail fs4"
    "rest_kept {p, ?k} fs2 fs4" "fixed fs4 = fixed fs"
    using unlink_core[OF c(1-3) k0 c(4-7) nm, of e] by (auto simp: v i)
  then have same: "\<forall>k' x. k' \<noteq> p \<longrightarrow> k' \<noteq> ?k \<longrightarrow> live fs k' \<longrightarrow> x < direct_span \<longrightarrow> fbyte fs4 k' x = fbyte fs k' x"
    by (simp add: rest_kept_def v)
  let ?fs5 = "install fs4 ?k zero_Inode (sb_free_inodes (sb fs4) + 1)"
  have run: "fuse_unlink e fs ?path = Some (?fs5, 0)"
    using r1 r2 u(1,2,5) c(3) f(2) i(1)
    by (simp add: fuse_unlink_def inode_at_def live_def inode_free_def install_def)
  have "map_of (dir_list ?fs5 p) = (map_of (dir_list fs p))(t := None)"
    using map_of_remove_first[OF p(3)] u(6) k0(2) by (simp add: install_view)
  moreover have "block_inv ?fs5" by (rule install_inv(1)[OF u(3)]) (simp add: zero_Inode_def)
  moreover have "counted ?fs5 = counted fs" using u(9) by (intro fixed_counted) simp
  ultimately show ?thesis
    using run u(7) same counted_free[OF u(4,5) k0(1)] by (intro exI[of _ ?fs5]) (simp add: install_view)
qed

text \<open>Creating files in the root directory, for the witnesses.\<close>

lemma create_in_root:
  assumes ok: "tree_ok fs" "inodes_counted fs" "i_type (inodes fs 0) = ft_code IDKFS_FT_DIR" "names_ok fs 0" "dir_room fs 0"
    and free: "free_inode_set fs = {i..<IDKFS_MAX_INODES}" "i < IDKFS_MAX_INODES" "length (dir_list fs 0) < IDKFS_MAX_DIRENTS"
    and n: "nul_free n" "length n \<le> IDKFS_MAX_FILENAME"
  obtains fs' where "idkfs_create e fs 0 n TIER_NORMAL 420 = Some (fs', int i)" "tree_ok fs'" "inodes_counted fs'"
    "i_type (inodes fs' 0) = ft_code IDKFS_FT_DIR" "names_ok fs' 0" "dir_room fs' 0"
    "free_inode_set fs' = {Suc i..<IDKFS_MAX_INODES}" "dir_list fs' 0 = dir_list fs 0 @ [(n, word_of_nat i, 1)]"
    "inodes fs' i = file_Inode e i TIER_NORMAL 420" "avail fs \<le> avail fs' + 9"
proof -
  have root: "live fs 0" using ok(1) by (simp add: tree_ok_def)
  have d: "block_inv fs" "dir_ok fs 0" using ok(1) tree_ok_dir[OF ok(1) root ok(3)] by (simp_all add: tree_ok_def)
  have sn: "stored_name n = n" using n(2) by (simp add: stored_name_def)
  show thesis
  proof (cases rule: create_cases[OF d(1) ok(2) d(2) ok(5) n(1), of e TIER_NORMAL 420])
    case 1
    then show thesis using free by simp
  next
    case (2 fs' j)
    have j: "j = i" using 2(2,3) free(1,2) by (simp add: le_antisym)
    have new: "live fs' i" "i_type (inodes fs' i) \<noteq> ft_code IDKFS_FT_DIR"
      using 2(2,8) j by (simp_all add: live_def free_inode_set_def) (simp add: file_Inode_def)
    have l: "dir_list fs' 0 = dir_list fs 0 @ [(n, word_of_nat i, ft_code IDKFS_FT_FILE)]" using 2(9) sn j by simp
    have t: "tree_ok fs'" by (rule create_tree(1)[OF ok(1) root ok(3) 2(2,5,7,11) _ 2(10)]) (use l new j in simp_all)
    have "i_size (inodes fs' 0) \<noteq> 0" using dir_list_empty[of fs' 0] l by auto
    then have "dir_room fs' 0" using mapped_need[OF 2(7)] by (simp add: dir_room_def)
    moreover have "free_inode_set fs' = {Suc i..<IDKFS_MAX_INODES}"
    proof -
      have z: "0 \<notin> free_inode_set fs" "0 \<notin> free_inode_set fs'" "i \<notin> free_inode_set fs'"
        using live_not_free[OF root] live_not_free[OF dir_ok_live[OF 2(7)]] live_not_free[OF new(1)] .
      have "k \<in> free_inode_set fs' \<longleftrightarrow> k \<in> free_inode_set fs \<and> k \<noteq> i" for k
      proof (cases "k = 0 \<or> k = i")
        case True
        with z show ?thesis by metis
      next
        case False
        with 2(10) j have "inodes fs' k = inodes fs k" by (simp add: rest_kept_def)
        with False show ?thesis by (simp add: free_inode_set_def)
      qed
      then show ?thesis unfolding free(1) set_eq_iff by (simp add: Suc_le_eq less_le conj_ac) blast
    qed
    moreover have "avail fs \<le> avail fs' + 9" using 2(15) dir_need_bound[of fs 0] by linarith
    ultimately show thesis using 2 ok(3,4) n(2) l j t by (intro that[of fs']) simp_all
  next
    case (3 fs')
    then show thesis using free(3) by simp
  qed
qed

text \<open>A formatted image with one file.\<close>

lemma demo_file:
  obtains fs fs1 where "idkfs_mkfs True True demo_env [] features_default = Some (Some fs)"
    "idkfs_create demo_env fs 0 [97] TIER_NORMAL 420 = Some (fs1, 1)" "tree_ok fs1" "inodes_counted fs1"
    "i_type (inodes fs1 0) = ft_code IDKFS_FT_DIR" "dir_list fs1 0 = dot_entries 0 0 @ [([97], 1, 1)]"
    "inodes fs1 1 = file_Inode demo_env 1 TIER_NORMAL 420"
    "names_ok fs1 0" "dir_room fs1 0" "free_inode_set fs1 = {2..<IDKFS_MAX_INODES}" "2 \<le> avail fs1"
proof -
  obtain fs where fs: "idkfs_mkfs True True demo_env [] features_default = Some (Some fs)" "names_ok fs 0"
    using mkfs_spec[of demo_env "[]" features_default] by blast
  note m = mkfs_tree[OF fs(1)]
  have n: "nul_free [97]" "length [97 :: u8] \<le> IDKFS_MAX_FILENAME" by (simp_all add: nul_free_def)
  obtain fs1 where "idkfs_create demo_env fs 0 [97] TIER_NORMAL 420 = Some (fs1, int 1)" "tree_ok fs1" "inodes_counted fs1"
    "i_type (inodes fs1 0) = ft_code IDKFS_FT_DIR" "names_ok fs1 0" "dir_room fs1 0"
    "free_inode_set fs1 = {Suc 1..<IDKFS_MAX_INODES}" "dir_list fs1 0 = dir_list fs 0 @ [([97], word_of_nat 1, 1)]"
    "inodes fs1 1 = file_Inode demo_env 1 TIER_NORMAL 420" "avail fs \<le> avail fs1 + 9"
    by (rule create_in_root[OF m(1,2,6) fs(2) m(3,5) _ _ n, where e = demo_env]) (simp_all add: m(4) dot_entries_def)
  with fs m(4,9) show thesis by (intro that[of fs fs1]) (simp_all add: numeral_2_eq_2)
qed

text \<open>And one with two, created in this order.\<close>

lemma demo_files:
  obtains fs fs1 fs2 where "idkfs_mkfs True True demo_env [] features_default = Some (Some fs)"
    "idkfs_create demo_env fs 0 [97] TIER_NORMAL 420 = Some (fs1, 1)"
    "idkfs_create demo_env fs1 0 [98] TIER_NORMAL 420 = Some (fs2, 2)" "tree_ok fs2"
    "i_type (inodes fs2 0) = ft_code IDKFS_FT_DIR" "names_ok fs2 0"
    "dir_list fs2 0 = dot_entries 0 0 @ [([97], 1, 1), ([98], 2, 1)]"
proof (rule demo_file)
  fix fs fs1 assume fs: "idkfs_mkfs True True demo_env [] features_default = Some (Some fs)"
    "idkfs_create demo_env fs 0 [97] TIER_NORMAL 420 = Some (fs1, 1)" "tree_ok fs1" "inodes_counted fs1"
    "i_type (inodes fs1 0) = ft_code IDKFS_FT_DIR" "dir_list fs1 0 = dot_entries 0 0 @ [([97], 1, 1)]"
    "names_ok fs1 0" "dir_room fs1 0" "free_inode_set fs1 = {2..<IDKFS_MAX_INODES}"
  have n: "nul_free [98]" "length [98 :: u8] \<le> IDKFS_MAX_FILENAME" by (simp_all add: nul_free_def)
  obtain fs2 where "idkfs_create demo_env fs1 0 [98] TIER_NORMAL 420 = Some (fs2, int 2)" "tree_ok fs2"
    "i_type (inodes fs2 0) = ft_code IDKFS_FT_DIR" "names_ok fs2 0" "dir_list fs2 0 = dir_list fs1 0 @ [([98], word_of_nat 2, 1)]"
    by (rule create_in_root[OF fs(3-5,7-9) _ _ n, where e = demo_env]) (simp_all add: fs(6) dot_entries_def)
  with fs show thesis by (intro that[of fs fs1 fs2]) simp_all
qed

theorem fuse_unlink_correct_witness:
  "\<exists>fs fs1 fs2. idkfs_mkfs True True demo_env [] features_default = Some (Some fs)
    \<and> idkfs_create demo_env fs 0 [97] TIER_NORMAL 420 = Some (fs1, 1)
    \<and> fuse_unlink demo_env fs1 [47, 97] = Some (fs2, 0) \<and> map_of (dir_list fs2 0) [97] = None \<and> 1 \<in> free_inode_set fs2"
proof (rule demo_file)
  fix fs fs1 assume fs: "idkfs_mkfs True True demo_env [] features_default = Some (Some fs)"
    "idkfs_create demo_env fs 0 [97] TIER_NORMAL 420 = Some (fs1, 1)" "tree_ok fs1" "inodes_counted fs1"
    "i_type (inodes fs1 0) = ft_code IDKFS_FT_DIR" "dir_list fs1 0 = dot_entries 0 0 @ [([97], 1, 1)]"
    "inodes fs1 1 = file_Inode demo_env 1 TIER_NORMAL 420"
  have g: "good_path [] [97]" by (simp add: good_path_def component_def path_of_def nul_free_def)
  have "i_type (inodes fs1 1) \<noteq> ft_code IDKFS_FT_DIR" "i_indirect1 (inodes fs1 1) = IDKFS_NULL_BLOCK"
    using fs(7) by (simp_all add: file_Inode_def fresh_Inode_def)
  moreover have "distinct (map fst (dir_list fs1 0))" "map_of (dir_list fs1 0) [97] = Some (1, 1)"
    using fs(6) by (simp_all add: dot_entries_def dot_def dotdot_def)
  ultimately show ?thesis
    using fuse_unlink_correct[OF fs(3,4) g, of 0 1 1 demo_env] fs(1,2,5) by (auto simp: path_of_def)
qed

end
