(* ===== verification/Fuse_List.thy ===== *)
theory Fuse_List
  imports Fuse_Unlink "HOL-Library.Multiset"
begin

text \<open>
  Directory listing and the life cycle of the Lua sorter. Whatever order the Lua comparison induces,
  \<open>fuse_readdir\<close> reports every name of the directory exactly once.
\<close>

section \<open>Listing\<close>

lemma is_dot_name: "is_dot en \<longleftrightarrow> fst (dirent en) \<in> {dot, dotdot}"
  using name_matches[OF nul_free_dots(1), of en] name_matches[OF nul_free_dots(2), of en] by (simp add: is_dot_def)

lemma cstring_prefix: "length (cstring m N) = n \<Longrightarrow> n \<le> N \<Longrightarrow> cstring m n = cstring m N"
proof -
  assume n: "length (cstring m N) = n" and le: "n \<le> N"
  have "bytes_of m 0 n = take n (bytes_of m 0 N)"
    using le by (intro nth_equalityI) simp_all
  also have "\<dots> = cstring m N" using n takeWhile_eq_take[of "\<lambda>c. c \<noteq> 0" "bytes_of m 0 N"] by (simp add: cstring_def)
  finally have "cstring m n = takeWhile (\<lambda>c. c \<noteq> 0) (cstring m N)" by (simp add: cstring_def)
  also have "\<dots> = cstring m N" by (simp add: cstring_def takeWhile_idem)
  finally show ?thesis .
qed

lemma collect_spec:
  assumes "dir_fits d" "\<forall>j < unat (dir_count d). unat (de_inode (dir_entries d j)) < IDKFS_MAX_INODES"
    and "length acc \<le> i" "i \<le> unat (dir_count d)"
  shows "collect fs d i acc = Some (acc @ map (\<lambda>en. the (candidate fs en))
    (filter (\<lambda>en. \<not> is_dot en) (map (dir_entries d) [i..<unat (dir_count d)])))"
  using assms
proof (induction fs d i acc rule: collect.induct)
  case (1 fs d i acc)
  let ?n = "unat (dir_count d)" and ?en = "dir_entries d i"
  show ?case
  proof (cases "i < ?n")
    case False
    then show ?thesis using "1.prems" by (subst collect.simps) simp
  next
    case True
    have i: "\<not> i \<ge> IDKFS_MAX_DIRENTS" and a: "length acc < IDKFS_MAX_DIRENTS"
      using True "1.prems"(1,3) by (auto simp: dir_fits_def)
    have up: "map (dir_entries d) [i..<?n] = ?en # map (dir_entries d) [i + 1..<?n]"
      using True by (simp add: upt_conv_Cons)
    show ?thesis
    proof (cases "is_dot ?en")
      case dot: True
      have "collect fs d i acc = collect fs d (i + 1) acc"
        using True i a dot by (subst collect.simps) simp
      with "1.IH"(1)[OF conjI[OF True a] i dot] "1.prems" True up dot show ?thesis by simp
    next
      case dot: False
      have "unat (de_inode ?en) < IDKFS_MAX_INODES" using "1.prems"(2) True by blast
      then obtain c where c: "candidate fs ?en = Some c" by (simp add: candidate_def inode_at_def)
      have "collect fs d i acc = collect fs d (i + 1) (acc @ [c])"
        using True i a dot c by (subst collect.simps) simp
      with "1.IH"(2)[OF conjI[OF True a] i dot c] "1.prems" True up dot c show ?thesis by simp
    qed
  qed
qed

lemma candidate_name:
  assumes "unat (de_inode en) < IDKFS_MAX_INODES" "unat (de_name_len en) = length (cstring (de_name en) IDKFS_MAX_FILENAME)"
  shows "sc_name (the (candidate fs en)) = fst (dirent en)"
proof -
  have "length (cstring (de_name en) IDKFS_MAX_FILENAME) \<le> IDKFS_MAX_FILENAME"
    using length_takeWhile_le[of _ "bytes_of (de_name en) 0 IDKFS_MAX_FILENAME"] by (simp add: cstring_def)
  then have "cstring (de_name en) (unat (de_name_len en)) = cstring (de_name en) IDKFS_MAX_FILENAME"
    using assms(2) by (intro cstring_prefix) simp_all
  with assms(1) show ?thesis by (simp add: candidate_def inode_at_def dirent_def)
qed

lemma filter_map_dots:
  assumes "\<And>en. en \<in> set xs \<Longrightarrow> f en = fst (dirent en)"
  shows "map f (filter (\<lambda>en. \<not> is_dot en) xs) = filter (\<lambda>n. n \<noteq> dot \<and> n \<noteq> dotdot) (map (\<lambda>en. fst (dirent en)) xs)"
  using assms by (induction xs) (auto simp: is_dot_name)

text \<open>What \<open>fuse_readdir\<close> does with a directory: the entries other than ``.'' and ``..'', sorted if there is more
  than one and the sorter is ready.\<close>

abbreviation (input) sorted_by :: "(SortCandidate list \<Rightarrow> SortCandidate list \<times> bool) \<Rightarrow> bool \<Rightarrow> SortCandidate list \<Rightarrow> SortCandidate list \<times> bool" where
  "sorted_by q ready es \<equiv> (if length es > 1 \<and> ready then q es else (es, ready))"

abbreviation (input) listed :: "IDKFS \<Rightarrow> Directory \<Rightarrow> SortCandidate list" where
  "listed fs d \<equiv> map (\<lambda>en. the (candidate fs en))
     (filter (\<lambda>en. \<not> is_dot en) (map (dir_entries d) [0..<unat (dir_count d)]))"

lemma entries_in_table:
  assumes "tree_ok fs" "live fs k" "i_type (inodes fs k) = ft_code IDKFS_FT_DIR" "j < unat (dir_count (dir_content fs k))"
  shows "unat (de_inode (dir_entries (dir_content fs k) j)) < IDKFS_MAX_INODES"
proof -
  let ?en = "dirent (dir_entries (dir_content fs k) j)"
  have "unat (dir_count (dir_content fs k)) = length (dir_list fs k)" by (simp add: dir_list_def)
  then have "?en \<in> set (dir_list fs k)" using assms(4) dir_list_nth[of j fs k] by (metis nth_mem)
  then have "live fs (unat (fst (snd ?en)))" using assms(1-3) by (simp add: tree_ok_def)
  then show ?thesis by (simp add: dirent_def live_def)
qed

lemma readdir_run:
  assumes ok: "tree_ok fs" and path: "nul_free path"
    and d: "tree_walk fs 0 (tokens (take 4095 path)) = int k" "i_type (inodes fs k) = ft_code IDKFS_FT_DIR"
  shows "\<exists>fs'. same_files fs fs' \<and> (let (es, ready') = sorted_by q ready (listed fs' (dir_content fs k)) in
    fuse_readdir q e fs ready path = Some (fs', ready', 0, [(dot, None), (dotdot, None)] @ map (\<lambda>c. (sc_name c, Some (candidate_stat c))) es))"
proof -
  obtain fs1 where r: "resolve_path e fs path = Some (fs1, int k)" and s: "same_files fs fs1"
    using resolve_path_spec[OF ok path, of e] d(1) by auto
  note v = same_files_view[OF s] and i = same_files_inode[OF s]
  have lk: "live fs k" using tree_walk_live[OF ok, of 0 "tokens (take 4095 path)"] ok d(1) by (simp add: tree_ok_def)
  have ok1: "block_inv fs1" "dir_ok fs1 k" using ok tree_ok_dir[OF ok lk d(2)] by (simp_all add: v tree_ok_def)
  have at: "inode_at fs1 k = Some (inodes fs1 k)" "i_type (inodes fs1 k) = ft_code IDKFS_FT_DIR"
    using dir_ok_at[OF ok1(2)] d(2) by (simp_all add: i)
  have cont: "dir_content fs1 k = dir_content fs k" by (rule dir_content_cong) (simp_all add: v i)
  show ?thesis
  proof (cases "i_size (inodes fs1 k) = 0")
    case True
    then have "dir_content fs k = zero_Directory" by (simp add: dir_content_def i)
    with r at True s show ?thesis by (intro exI[of _ fs1]) (simp add: fuse_readdir_def zero_Directory_def)
  next
    case False
    let ?fs2 = "accessed e fs1 k"
    have "dir_fits (dir_content fs k)" using ok1(2) by (simp add: dir_ok_def cont)
    then have "collect ?fs2 (dir_content fs k) 0 [] = Some (listed ?fs2 (dir_content fs k))"
      using collect_spec[of "dir_content fs k" "[]" 0 ?fs2] entries_in_table[OF ok lk d(2)] by simp
    with r at False same_files_trans[OF s same_files_accessed] show ?thesis
      by (intro exI[of _ ?fs2]) (simp add: fuse_readdir_def dir_read_spec[OF ok1 False] cont case_prod_beta Let_def)
  qed
qed

text \<open>C31: In a well-formed tree whose entries record the length of their names, \<open>fuse_readdir\<close> of a
  directory returns 0 and reports ``.'', ``..'' and every other name of the directory, each as
  often as the directory lists it, and in whatever order the Lua comparison sorts them, as long as
  sorting permutes its input.\<close>

theorem fuse_readdir_lists_all:
  assumes ok: "tree_ok fs" and path: "nul_free path"
    and d: "tree_walk fs 0 (tokens (take 4095 path)) = int k" "i_type (inodes fs k) = ft_code IDKFS_FT_DIR" "names_ok fs k"
    and perm: "\<And>xs. mset (fst (lua_qsort xs)) = mset xs"
  shows "\<exists>fs' ready' out. fuse_readdir lua_qsort e fs ready path = Some (fs', ready', 0, out)
    \<and> mset (map fst out) = mset (dot # dotdot # filter (\<lambda>n. n \<noteq> dot \<and> n \<noteq> dotdot) (map fst (dir_list fs k)))
    \<and> (\<not> ready \<longrightarrow> map fst out = dot # dotdot # filter (\<lambda>n. n \<noteq> dot \<and> n \<noteq> dotdot) (map fst (dir_list fs k)))"
proof -
  let ?d = "dir_content fs k"
  obtain fs' where run: "let (es, ready') = sorted_by lua_qsort ready (listed fs' ?d) in fuse_readdir lua_qsort e fs ready path
      = Some (fs', ready', 0, [(dot, None), (dotdot, None)] @ map (\<lambda>c. (sc_name c, Some (candidate_stat c))) es)"
    using readdir_run[OF ok path d(1,2), where q = lua_qsort and ready = ready and e = e] by blast
  have lk: "live fs k" using tree_walk_live[OF ok, of 0 "tokens (take 4095 path)"] ok d(1) by (simp add: tree_ok_def)
  define es where "es = listed fs' ?d"
  define out where "out = sorted_by lua_qsort ready es"
  have "map (\<lambda>en. sc_name (the (candidate fs' en))) (filter (\<lambda>en. \<not> is_dot en) (map (dir_entries ?d) [0..<unat (dir_count ?d)]))
      = filter (\<lambda>n. n \<noteq> dot \<and> n \<noteq> dotdot) (map (\<lambda>en. fst (dirent en)) (map (dir_entries ?d) [0..<unat (dir_count ?d)]))"
    by (rule filter_map_dots, rule candidate_name) (use entries_in_table[OF ok lk d(2)] d(3) in \<open>auto simp: names_ok_def names_sized_def Let_def\<close>)
  then have names: "map sc_name es = filter (\<lambda>n. n \<noteq> dot \<and> n \<noteq> dotdot) (map fst (dir_list fs k))"
    by (simp add: es_def dir_list_def dir_ents_def comp_def)
  define res where "res = [(dot, None), (dotdot, None)] @ map (\<lambda>c. (sc_name c, Some (candidate_stat c))) (fst out)"
  have run': "fuse_readdir lua_qsort e fs ready path = Some (fs', snd out, 0, res)"
    using run by (simp only: es_def[symmetric] out_def[symmetric] case_prod_beta Let_def res_def)
  have p: "mset (fst out) = mset es" "\<not> ready \<Longrightarrow> fst out = es" by (simp_all add: out_def perm)
  have nm: "map fst res = dot # dotdot # map sc_name (fst out)" by (simp add: res_def comp_def)
  have "mset (map sc_name (fst out)) = mset (map sc_name es)" using p(1) by (simp add: mset_map)
  then have "mset (map fst res) = mset (dot # dotdot # map sc_name es)" unfolding nm by simp
  moreover have "\<not> ready \<longrightarrow> map fst res = dot # dotdot # map sc_name es" using p(2) nm by simp
  ultimately show ?thesis
    using run' unfolding names by (intro exI[of _ fs'] exI[of _ "snd out"] exI[of _ res] conjI)
qed

theorem fuse_readdir_lists_all_witness:
  "\<exists>fs fs1 fs2 fs' ready' out. idkfs_mkfs True True demo_env [] features_default = Some (Some fs)
    \<and> idkfs_create demo_env fs 0 [97] TIER_NORMAL 420 = Some (fs1, 1)
    \<and> idkfs_create demo_env fs1 0 [98] TIER_NORMAL 420 = Some (fs2, 2) \<and> names_ok fs2 0 \<and> length (dir_list fs2 0) = 4
    \<and> fuse_readdir (\<lambda>xs. (rev xs, True)) demo_env fs2 True [47] = Some (fs', ready', 0, out)
    \<and> mset (map fst out) = {#dot, dotdot, [97], [98]#}"
proof (rule demo_files)
  fix fs fs1 fs2 assume fs: "idkfs_mkfs True True demo_env [] features_default = Some (Some fs)"
    "idkfs_create demo_env fs 0 [97] TIER_NORMAL 420 = Some (fs1, 1)"
    "idkfs_create demo_env fs1 0 [98] TIER_NORMAL 420 = Some (fs2, 2)" "tree_ok fs2"
    "i_type (inodes fs2 0) = ft_code IDKFS_FT_DIR" "names_ok fs2 0"
    "dir_list fs2 0 = dot_entries 0 0 @ [([97], 1, 1), ([98], 2, 1)]"
  have "tokens (take 4095 [slash]) = []" by (simp add: tokens.simps[of "[slash]"])
  then have w: "tree_walk fs2 0 (tokens (take 4095 [47])) = int 0" by simp
  have l: "filter (\<lambda>n. n \<noteq> dot \<and> n \<noteq> dotdot) (map fst (dir_list fs2 0)) = [[97], [98]]" "length (dir_list fs2 0) = 4"
    using fs(7) by (simp_all add: dot_entries_def dot_def dotdot_def)
  have "\<exists>fs' ready' out. fuse_readdir (\<lambda>xs. (rev xs, True)) demo_env fs2 True [47] = Some (fs', ready', 0, out)
      \<and> mset (map fst out) = {#dot, dotdot, [97], [98]#}"
    using fuse_readdir_lists_all[OF fs(4) _ w fs(5,6), of "\<lambda>xs. (rev xs, True)" demo_env True] unfolding l
    by (fastforce simp: nul_free_def)
  with fs(1-3,6) l(2) show ?thesis by blast
qed

section \<open>The sorter\<close>

text \<open>The states the sorter goes through, from program start on.\<close>

inductive sorter_reach :: "sorter \<Rightarrow> bool" where
  boot: "sorter_reach sorter_boot"
| init: "sorter_reach s \<Longrightarrow> sorter_reach (fst (sorting_init l s))"
| compare: "sorter_reach s \<Longrightarrow> sorter_reach (fst (lua_sort_compare call s a b))"
| shutdown: "sorter_reach s \<Longrightarrow> sorter_reach (sorting_shutdown s)"

text \<open>In every state the sorter can reach, \<open>g_sort_ready\<close> implies that there is an interpreter
  and a registered comparison function; so every comparison either answers 0 without calling Lua or
  calls a live interpreter, \<open>sorting_init\<close> returns true exactly when sorting is ready afterwards,
  and after \<open>sorting_shutdown\<close> there is no interpreter and no readiness.\<close>

theorem sorter_ready_means_usable:
  assumes "sorter_reach s"
  shows "(sort_ready s \<longrightarrow> sort_L s \<and> sort_compare_ref s \<noteq> None)
    \<and> (snd (sorting_init l s) \<longleftrightarrow> sort_ready (fst (sorting_init l s)))
    \<and> \<not> sort_L (sorting_shutdown s) \<and> \<not> sort_ready (sorting_shutdown s)
    \<and> (\<not> sort_ready s \<longrightarrow> lua_sort_compare call s a b = (s, 0))"
proof -
  have "sort_ready s \<longrightarrow> sort_L s \<and> sort_compare_ref s \<noteq> None"
    using assms
  proof induction
    case (init s l)
    then show ?case by (auto simp: sorting_init_def sorting_shutdown_def Let_def)
  next
    case (compare s call a b)
    then show ?case by (auto simp: lua_sort_compare_def split: option.splits)
  qed (auto simp: sorter_boot_def sorting_shutdown_def)
  then show ?thesis
    by (auto simp: sorting_init_def sorting_shutdown_def lua_sort_compare_def Let_def)
qed

theorem sorter_ready_means_usable_witness:
  "let l = \<lparr>newstate_ok = True, loadfile_ok = True, run_ok = True, compare_is_function = True, new_ref = 3\<rparr>;
       s = fst (sorting_init l sorter_boot) in
   sort_ready s \<and> sort_L s \<and> sort_compare_ref s = Some 3 \<and> \<not> sort_L (sorting_shutdown s)"
  using sorter_ready_means_usable[OF sorter_reach.init[OF sorter_reach.boot],
      of "\<lparr>newstate_ok = True, loadfile_ok = True, run_ok = True, compare_is_function = True, new_ref = 3\<rparr>"]
  by (simp add: sorting_init_def sorter_boot_def sorting_shutdown_def Let_def)

text \<open>\<open>resolve_path\<close> on the absolute path of any components (non-empty, without ``/'', at most 4095
  bytes in all) in a well-formed tree returns what walking the directory listings returns: the
  inode the components lead to, \<open>-ENOENT\<close> for a missing name and \<open>-ENOTDIR\<close> for a component below a
  file; only access times change.\<close>

theorem resolve_path_walks_tree:
  assumes "tree_ok fs" "list_all component ts" "nul_free (path_of ts)" "length (path_of ts) \<le> 4095"
  shows "\<exists>fs'. resolve_path e fs (path_of ts) = Some (fs', tree_walk fs 0 ts) \<and> same_files fs fs'"
  using resolve_path_spec[OF assms(1,3), of e] tokens_path_of[OF assms(2)] assms(4) by simp

theorem resolve_path_walks_tree_witness:
  "\<exists>fs fs'. idkfs_mkfs True True demo_env [] features_default = Some (Some fs)
    \<and> resolve_path demo_env fs [47, 46, 46, 47, 97] = Some (fs', - ENOENT)"
proof (rule mkfs_start[of demo_env "[]" features_default])
  fix fs assume fs: "idkfs_mkfs True True demo_env [] features_default = Some (Some fs)"
  note m = mkfs_tree[OF fs]
  have "tree_walk fs 0 [dotdot, [97]] = - ENOENT"
    using m(4,6) by (simp add: dot_entries_def dot_def dotdot_def stored_name_def)
  then show ?thesis
    using resolve_path_walks_tree[OF m(1), of "[dotdot, [97]]" demo_env] fs
    by (auto simp: component_def nul_free_def path_of_def dotdot_def simp del: tree_walk.simps)
qed

end
