(* ===== verification/Persist_Proofs.thy ===== *)
theory Persist_Proofs
  imports Persist Fuse_List
begin

text \<open>
  What survives unmounting and mounting again. The superblock, the inode table and the data blocks
  do; the second half of the block bitmap does not: the bitmap takes 8192 bytes from byte 4096 on,
  and the inode table is written over its second half, from byte 8192 on.
\<close>

section \<open>The layout a flush leaves\<close>

lemma meta_size: "2 * IDKFS_BLOCK_SIZE + IDKFS_MAX_INODES * sizeof_Inode = 565248"
  by (simp add: layout_simps)

lemma flush_to_image_layout:
  assumes "565248 \<le> disk_size fs"
  obtains fs1 where "idkfs_flush_to_image fs = Some fs1" "fs1 = fs\<lparr>disk := disk fs1\<rparr>"
    "\<And>i. i < sizeof_Superblock \<Longrightarrow> disk fs1 i = Superblock_mem (sb fs) i"
    "\<And>i. i < IDKFS_BLOCK_SIZE \<Longrightarrow> disk fs1 (IDKFS_BLOCK_SIZE + i) = bitmap fs i"
    "\<And>i. i < IDKFS_MAX_INODES * sizeof_Inode \<Longrightarrow> disk fs1 (2 * IDKFS_BLOCK_SIZE + i) = inodes_mem (inodes fs) i"
    "\<And>i. 565248 \<le> i \<Longrightarrow> disk fs1 i = disk fs i"
proof -
  let ?d1 = "memcpy (disk fs) 0 (Superblock_mem (sb fs)) 0 sizeof_Superblock"
  let ?d2 = "memcpy ?d1 IDKFS_BLOCK_SIZE (bitmap fs) 0 BITMAP_SIZE"
  let ?d3 = "memcpy ?d2 (2 * IDKFS_BLOCK_SIZE) (inodes_mem (inodes fs)) 0 (IDKFS_MAX_INODES * sizeof_Inode)"
  show thesis
  proof (rule that[of "fs\<lparr>disk := ?d3\<rparr>"])
    show "idkfs_flush_to_image fs = Some (fs\<lparr>disk := ?d3\<rparr>)"
      using assms meta_size by (simp add: idkfs_flush_to_image_def Let_def)
  qed (simp_all add: memcpy_def layout_simps)
qed

lemma inv_start: "block_inv fs \<Longrightarrow> 138 \<le> data_start fs"
  using inv_geometry[of fs] by (simp add: geometry_def)

lemma image_block_kept:
  "(\<And>i. 565248 \<le> i \<Longrightarrow> d' i = d i) \<Longrightarrow> 138 \<le> b \<Longrightarrow> d' (block_ptr b + i) = d (block_ptr b + i)"
proof -
  assume *: "\<And>i. 565248 \<le> i \<Longrightarrow> d' i = d i" and b: "138 \<le> b"
  have "138 * 4096 \<le> b * 4096" using b by (rule mult_le_mono1)
  then show ?thesis by (intro *) (simp add: block_ptr_def)
qed

section \<open>Loading what was flushed\<close>

lemma load_flushed:
  assumes size: "565248 \<le> disk_size fs" and magic: "sb_magic (sb fs) = IDKFS_MAGIC"
    and fs1: "idkfs_flush_to_image fs = Some fs1"
  obtains fs2 where "load_image e (disk fs1) n = Some fs2"
    "sb fs2 = (norm_Superblock (sb fs))\<lparr>sb_last_mounted := now e, sb_mount_count := sb_mount_count (sb fs) + 1\<rparr>"
    "\<And>k. k < IDKFS_MAX_INODES \<Longrightarrow> inodes fs2 k = norm_Inode (inodes fs k)"
    "\<And>i. i < IDKFS_BLOCK_SIZE \<Longrightarrow> bitmap fs2 i = bitmap fs i"
    "\<And>i. i < IDKFS_BLOCK_SIZE \<Longrightarrow> bitmap fs2 (IDKFS_BLOCK_SIZE + i) = inodes_mem (inodes fs) i"
    "disk fs2 = disk fs1" "disk_size fs2 = n" "features fs2 = features_default"
    "\<And>i. 565248 \<le> i \<Longrightarrow> disk fs2 i = disk fs i"
proof -
  obtain fs1' where "idkfs_flush_to_image fs = Some fs1'"
    and sb1: "\<And>i. i < sizeof_Superblock \<Longrightarrow> disk fs1' i = Superblock_mem (sb fs) i"
    and bm1: "\<And>i. i < IDKFS_BLOCK_SIZE \<Longrightarrow> disk fs1' (IDKFS_BLOCK_SIZE + i) = bitmap fs i"
    and in1: "\<And>i. i < IDKFS_MAX_INODES * sizeof_Inode \<Longrightarrow> disk fs1' (2 * IDKFS_BLOCK_SIZE + i) = inodes_mem (inodes fs) i"
    and keep: "\<And>i. 565248 \<le> i \<Longrightarrow> disk fs1' i = disk fs i"
    using flush_to_image_layout[OF size] by metis
  then have eq: "fs1' = fs1" using fs1 by simp
  let ?m = "disk fs1"
  have s: "mem_Superblock ?m 0 = norm_Superblock (sb fs)"
    by (rule sb_codec.dec_stored) (use sb1 eq in simp)
  have mg: "rd32 ?m 0 = IDKFS_MAGIC"
    using arg_cong[OF s, of sb_magic] magic by (simp add: mem_Superblock_def norm_Superblock_def)
  define fs2 where "fs2 = (blank_IDKFS features_default ?m n)\<lparr>
         sb := (norm_Superblock (sb fs))\<lparr>sb_last_mounted := now e, sb_mount_count := sb_mount_count (sb fs) + 1\<rparr>,
         bitmap := memcpy zeros 0 ?m IDKFS_BLOCK_SIZE BITMAP_SIZE, inodes := load_inodes ?m\<rparr>"
  have run: "load_image e ?m n = Some fs2"
    by (simp add: load_image_def mg s fs2_def Let_def) (simp add: norm_Superblock_def)
  have inode: "load_inodes ?m k = norm_Inode (inodes fs k)" if k: "k < IDKFS_MAX_INODES" for k
  proof -
    have "?m (2 * IDKFS_BLOCK_SIZE + k * sizeof_Inode + i) = inodes_mem (inodes fs) (k * sizeof_Inode + i)" if "i < sizeof_Inode" for i
      using in1[of "k * sizeof_Inode + i"] eq that k by (simp add: layout_simps add.assoc)
    then have "mem_Inode ?m (2 * IDKFS_BLOCK_SIZE + k * sizeof_Inode) = norm_Inode (inodes fs k)"
      by (rule inode_codec.dec_table) (simp_all add: inodes_mem_def)
    with k show ?thesis by (simp add: load_inodes_def)
  qed
  show thesis
  proof (rule that[OF run])
    fix i assume i: "i < IDKFS_BLOCK_SIZE"
    show "bitmap fs2 i = bitmap fs i" using bm1[OF i] i eq by (simp add: fs2_def memcpy_def)
    show "bitmap fs2 (IDKFS_BLOCK_SIZE + i) = inodes_mem (inodes fs) i"
      using in1[of i] i eq by (simp add: fs2_def memcpy_def layout_simps)
  qed (use keep eq in \<open>simp_all add: fs2_def inode blank_IDKFS_def\<close>)
qed

text \<open>Files: every byte within the direct blocks and every directory listing.\<close>

lemma loaded_files:
  assumes inv: "block_inv fs" and live: "live fs k"
    and inode: "inodes fs2 k = norm_Inode (inodes fs k)" and disk: "\<And>i. 565248 \<le> i \<Longrightarrow> disk fs2 i = disk fs i"
  shows "p < direct_span \<Longrightarrow> fbyte fs2 k p = fbyte fs k p" "dir_list fs2 k = dir_list fs k" "dir_ok fs2 k = dir_ok fs k"
proof -
  show f: "fbyte fs2 k p = fbyte fs k p" if p: "p < direct_span" for p
  proof -
    let ?j = "p div IDKFS_BLOCK_SIZE"
    have j: "?j < 12" using p by (simp add: div_less_iff_less_mult)
    then have d: "i_direct (inodes fs2 k) ?j = i_direct (inodes fs k) ?j" by (simp add: inode norm_Inode_def)
    show ?thesis
    proof (cases "i_direct (inodes fs k) ?j = IDKFS_NULL_BLOCK")
      case True
      with d show ?thesis by (simp add: fbyte_def)
    next
      case False
      then have "owns fs k (SDirect ?j) (unat (i_direct (inodes fs k) ?j))" using live j by (simp add: owns_def)
      from inv_owned[OF inv this] inv_start[OF inv] have "138 \<le> unat (i_direct (inodes fs k) ?j)" by simp
      with image_block_kept[of "disk fs2" "disk fs", OF disk] d show ?thesis by (simp add: fbyte_def Let_def)
    qed
  qed
  have "fbyte fs2 k p = fbyte fs k p" if "p < sizeof_Directory" for p using that by (intro f) (simp add: layout_simps)
  then show "dir_list fs2 k = dir_list fs k" "dir_ok fs2 k = dir_ok fs k"
    using dir_ok_cong[of fs2 k fs] inode by (simp_all add: norm_Inode_def)
qed

text \<open>C8: Unmounting and mounting again preserves the file system's contents: after
  \<open>idkfs_fuse_destroy\<close> the image file holds a state that \<open>idkfs_mount_image\<close> accepts; the loaded
  superblock is the old one but for the mount time and the mount count, every inode is the old one, and
  every live file has the same bytes within its direct blocks and every live directory the same
  listing.\<close>

theorem remount_preserves_files:
  assumes "block_inv fs" "sb_magic (sb fs) = IDKFS_MAGIC"
  shows "\<exists>img' file fs2. idkfs_fuse_destroy (Some fs) img = Some (None, img', Some file) \<and> img_map img' = MapNull
    \<and> idkfs_mount_image True e (img'\<lparr>img_map := Mapped file, img_size := disk_size fs\<rparr>) False = Some (Some fs2)
    \<and> sb fs2 = (norm_Superblock (sb fs))\<lparr>sb_last_mounted := now e, sb_mount_count := sb_mount_count (sb fs) + 1\<rparr>
    \<and> (\<forall>k < IDKFS_MAX_INODES. inodes fs2 k = norm_Inode (inodes fs k))
    \<and> (\<forall>k. live fs k \<longrightarrow> dir_list fs2 k = dir_list fs k
         \<and> (\<forall>p < IDKFS_DIRECT_BLOCKS * IDKFS_BLOCK_SIZE. fbyte fs2 k p = fbyte fs k p))"
proof -
  have size: "565248 \<le> disk_size fs" using inv_geometry[OF assms(1)] by (simp add: geometry_def)
  obtain fs1 where f: "idkfs_flush_to_image fs = Some fs1" by (rule flush_to_image_layout[OF size])
  obtain fs2 where l: "load_image e (disk fs1) (disk_size fs) = Some fs2"
    "sb fs2 = (norm_Superblock (sb fs))\<lparr>sb_last_mounted := now e, sb_mount_count := sb_mount_count (sb fs) + 1\<rparr>"
    and i: "\<And>k. k < IDKFS_MAX_INODES \<Longrightarrow> inodes fs2 k = norm_Inode (inodes fs k)"
    and d: "\<And>i. 565248 \<le> i \<Longrightarrow> disk fs2 i = disk fs i"
    by (rule load_flushed[OF size assms(2) f, of e "disk_size fs"]) blast
  have "dir_list fs2 k = dir_list fs k" "\<forall>p < direct_span. fbyte fs2 k p = fbyte fs k p" if "live fs k" for k
    using that loaded_files[OF assms(1) that i d] by (auto simp: live_def)
  moreover have "\<not> disk_size fs < 2 * IDKFS_BLOCK_SIZE + IDKFS_MAX_INODES * sizeof_Inode" using size meta_size by simp
  ultimately show ?thesis
    using f l i by (simp add: idkfs_fuse_destroy_def image_close_def attached_image_def idkfs_mount_image_def)
qed

theorem remount_preserves_files_witness:
  "\<exists>fs img' file fs2. mkfs_base demo_env [] (calloc_IDKFS features_default) = Some fs
    \<and> idkfs_fuse_destroy (Some fs) zero_image = Some (None, img', Some file)
    \<and> idkfs_mount_image True demo_env (img'\<lparr>img_map := Mapped file, img_size := disk_size fs\<rparr>) False = Some (Some fs2)
    \<and> sb_mount_count (sb fs2) = 2 \<and> inodes fs2 0 = norm_Inode (root_Inode demo_env)"
proof -
  obtain fs where fs: "mkfs_base demo_env [] (calloc_IDKFS features_default) = Some fs" "fs_inv fs"
    "sb fs = mkfs_sb demo_env []" "inodes fs = (\<lambda>_. zero_Inode)(0 := root_Inode demo_env)"
    using mkfs_base_spec[of _ demo_env "[]" features_default zeros] by (auto simp: calloc_IDKFS_def)
  have "sb_magic (sb fs) = IDKFS_MAGIC" using fs(3) by (simp add: mkfs_sb_def)
  from remount_preserves_files[OF fs_invD(1)[OF fs(2)] this, of zero_image demo_env] fs show ?thesis
    by (auto simp: norm_Superblock_def mkfs_sb_def)
qed

section \<open>The bitmap\<close>

lemma zero_Inode_mem: "Inode_mem zero_Inode i = 0"
proof -
  have "Inode_bytes zero_Inode = replicate 136 0"
    by (simp add: Inode_bytes_def zero_Inode_def le16_def le32_def le64_def bytes_of_def upt_rec numeral_eq_Suc)
  then show ?thesis by (simp add: Inode_mem_def mem_of_def)
qed

text \<open>C32: The block bitmap does not survive a remount: the bits of the blocks below 32768 do, but the
  bit of a block from 32768 on is a bit of the inode table, which is written over the second half
  of the bitmap. In particular, while the inode slot that covers it is unused, such a block is free
  after the remount even if a file owns it.\<close>

theorem remount_loses_upper_bitmap:
  assumes "565248 \<le> disk_size fs" "sb_magic (sb fs) = IDKFS_MAGIC" "b < IDKFS_TOTAL_BLOCKS"
    and "idkfs_flush_to_image fs = Some fs1" "load_image e (disk fs1) n = Some fs2"
  shows "(used (bitmap fs2) b \<longleftrightarrow> (if b < 32768 then used (bitmap fs) b
      else bit (inodes_mem (inodes fs) (b div 8 - 4096)) (b mod 8)))
    \<and> (32768 \<le> b \<longrightarrow> inodes fs ((b div 8 - 4096) div sizeof_Inode) = zero_Inode \<longrightarrow> \<not> used (bitmap fs2) b)"
proof -
  obtain fs2' where "load_image e (disk fs1) n = Some fs2'"
    and lo: "\<And>i. i < IDKFS_BLOCK_SIZE \<Longrightarrow> bitmap fs2' i = bitmap fs i"
    and hi: "\<And>i. i < IDKFS_BLOCK_SIZE \<Longrightarrow> bitmap fs2' (IDKFS_BLOCK_SIZE + i) = inodes_mem (inodes fs) i"
    by (rule load_flushed[OF assms(1,2,4), of e n]) blast
  then have eq: "fs2' = fs2" using assms(5) by simp
  have main: "used (bitmap fs2) b \<longleftrightarrow> (if b < 32768 then used (bitmap fs) b
      else bit (inodes_mem (inodes fs) (b div 8 - 4096)) (b mod 8))"
  proof (cases "b < 32768")
    case True
    then have "b div 8 < IDKFS_BLOCK_SIZE" by simp
    with True lo eq show ?thesis by (simp add: used_def)
  next
    case False
    then have "b div 8 = IDKFS_BLOCK_SIZE + (b div 8 - 4096)" "b div 8 - 4096 < IDKFS_BLOCK_SIZE"
      using assms(3) by simp_all
    with False hi[of "b div 8 - 4096"] eq show ?thesis by (simp add: used_def)
  qed
  then show ?thesis by (auto simp: inodes_mem_def zero_Inode_mem)
qed

theorem remount_loses_upper_bitmap_witness:
  "\<exists>fs fs1 fs2. mkfs_base demo_env [] (calloc_IDKFS features_default) = Some fs \<and> idkfs_flush_to_image fs = Some fs1
    \<and> load_image demo_env (disk fs1) (disk_size fs) = Some fs2 \<and> \<not> used (bitmap fs2) 40000"
proof -
  obtain fs where fs: "mkfs_base demo_env [] (calloc_IDKFS features_default) = Some fs"
    "sb fs = mkfs_sb demo_env []" "inodes fs = (\<lambda>_. zero_Inode)(0 := root_Inode demo_env)" "disk_size fs = 65536 * 4096"
    using mkfs_base_spec[of _ demo_env "[]" features_default zeros] by (auto simp: calloc_IDKFS_def)
  have size: "565248 \<le> disk_size fs" and magic: "sb_magic (sb fs) = IDKFS_MAGIC"
    using fs(2,4) by (simp_all add: mkfs_sb_def)
  obtain fs1 where f: "idkfs_flush_to_image fs = Some fs1" by (rule flush_to_image_layout[OF size])
  obtain fs2 where l: "load_image demo_env (disk fs1) (disk_size fs) = Some fs2"
    by (rule load_flushed[OF size magic f, of demo_env "disk_size fs"]) blast
  have "\<not> used (bitmap fs2) 40000"
    using conjunct2[OF remount_loses_upper_bitmap[OF size magic _ f l, of 40000]] fs(3) by (simp add: layout_simps)
  with fs(1) f l show ?thesis by blast
qed

section \<open>Formatting an image\<close>

text \<open>Writing metadata below the data area changes no file.\<close>

lemma meta_write_view:
  assumes inv: "block_inv fs"
    and same: "inodes fs' = inodes fs" "bitmap fs' = bitmap fs" "disk_size fs' = disk_size fs"
      "sb_data_start_block (sb fs') = sb_data_start_block (sb fs)"
    and disk: "\<And>i. 565248 \<le> i \<Longrightarrow> disk fs' i = disk fs i"
  shows "block_inv fs'" "live fs k \<Longrightarrow> dir_list fs' k = dir_list fs k" "live fs k \<Longrightarrow> dir_ok fs' k = dir_ok fs k"
    "allocates fs fs'" "owns fs' j s b = owns fs j s b"
proof -
  have blk: "disk fs' (block_ptr b + i) = disk fs (block_ptr b + i)" if "owns fs k s b" for k s b i
    using inv_owned[OF inv that] inv_start[OF inv] by (intro image_block_kept[OF disk]) simp_all
  show o: "owns fs' k s b = owns fs k s b" for k s b
    by (rule owns_cong) (simp_all add: same same_block_def blk)
  show "allocates fs fs'" by (rule allocates_shrink) (simp_all add: o same)
  show "block_inv fs'"
    using inv unfolding block_inv_def o by (simp add: geometry_def data_start_def same)
  have f: "fbyte fs' k p = fbyte fs k p" if "live fs k" "p < direct_span" for k p
  proof (cases "i_direct (inodes fs k) (p div IDKFS_BLOCK_SIZE) = IDKFS_NULL_BLOCK")
    case False
    then have "owns fs k (SDirect (p div IDKFS_BLOCK_SIZE)) (unat (i_direct (inodes fs k) (p div IDKFS_BLOCK_SIZE)))"
      using that by (simp add: owns_def div_less_iff_less_mult)
    from blk[OF this] show ?thesis by (simp add: fbyte_def same Let_def)
  qed (simp add: fbyte_def same)
  have "fbyte fs' k p = fbyte fs k p" if "live fs k" "p < sizeof_Directory" for k p
    using that by (intro f) (simp_all add: layout_simps)
  then show "live fs k \<Longrightarrow> dir_list fs' k = dir_list fs k" "live fs k \<Longrightarrow> dir_ok fs' k = dir_ok fs k"
    using dir_ok_cong[of fs' k fs] by (simp_all add: same)
qed

lemma flush_view:
  assumes inv: "fs_inv fs"
  shows "\<exists>fs' c. idkfs_flush fs = Some fs' \<and> fs_inv fs' \<and> sb fs' = (sb fs)\<lparr>sb_checksum := c\<rparr> \<and> inodes fs' = inodes fs
    \<and> disk_size fs' = disk_size fs \<and> (\<forall>k. live fs k \<longrightarrow> dir_list fs' k = dir_list fs k \<and> dir_ok fs' k = dir_ok fs k)
    \<and> allocates fs fs' \<and> bitmap fs' = bitmap fs"
proof (cases "dirty fs")
  case False
  with inv show ?thesis by (intro exI[of _ fs] exI[of _ "sb_checksum (sb fs)"]) (simp add: idkfs_flush_def)
next
  case True
  note binv = fs_invD(1)[OF inv]
  have size: "565248 \<le> disk_size fs" using inv_geometry[OF binv] by (simp add: geometry_def)
  let ?s = "(sb fs)\<lparr>sb_checksum := if checksums (features fs) then sb_crc (sb fs) else sb_checksum (sb fs)\<rparr>"
  let ?d1 = "memcpy (disk fs) 0 (Superblock_mem ?s) 0 sizeof_Superblock"
  let ?d2 = "memcpy ?d1 IDKFS_BLOCK_SIZE (bitmap fs) 0 BITMAP_SIZE"
  let ?d3 = "memcpy ?d2 (2 * IDKFS_BLOCK_SIZE) (inodes_mem (inodes fs)) 0 (IDKFS_MAX_INODES * sizeof_Inode)"
  define fs' where "fs' = fs\<lparr>sb := ?s, disk := ?d3, dirty := False\<rparr>"
  have run: "idkfs_flush fs = Some fs'"
    using True size meta_size by (simp add: idkfs_flush_def Let_def fs'_def)
  have d: "disk fs' i = disk fs i" if "565248 \<le> i" for i
    using that by (simp add: fs'_def memcpy_def layout_simps)
  note v = meta_write_view[OF binv, of fs', OF _ _ _ _ d]
  have "fs_inv fs'" using v(1) inv by (simp add: fs_inv_def counted_def) (simp add: fs'_def)
  moreover have "dir_list fs' k = dir_list fs k" "dir_ok fs' k = dir_ok fs k" if "live fs k" for k
    using v(2,3)[OF _ _ _ _ _ that] by (simp_all add: fs'_def)
  moreover have "allocates fs fs'" by (rule v(4)) (simp_all add: fs'_def)
  ultimately show ?thesis
    using run by (intro exI[of _ fs'] exI[of _ "sb_checksum ?s"]) (simp add: fs'_def)
qed

lemma avail_room: "IDKFS_TOTAL_BLOCKS - l < avail fs \<Longrightarrow> room_below l fs"
proof (rule ccontr)
  assume a: "IDKFS_TOTAL_BLOCKS - l < avail fs" and "\<not> room_below l fs"
  then have "l \<le> x \<and> x < IDKFS_TOTAL_BLOCKS" if "x \<in> free_set (bitmap fs)" for x
    using that by (auto simp: room_below_def free_set_def)
  then have "free_set (bitmap fs) \<subseteq> {l..<IDKFS_TOTAL_BLOCKS}" by auto
  from card_mono[OF _ this] a show False by (simp add: avail_def)
qed

lemma format_image_spec:
  assumes n: "IDKFS_IMAGE_SIZE \<le> n"
  shows "\<exists>fs. format_image e m n = Some fs \<and> fs_inv fs \<and> inodes_counted fs \<and> dir_ok fs 0 \<and> dir_list fs 0 = dot_entries 0 0
    \<and> sb_magic (sb fs) = IDKFS_MAGIC \<and> i_type (inodes fs 0) = ft_code IDKFS_FT_DIR \<and> disk_size fs = n
    \<and> (\<forall>k. live fs k \<longleftrightarrow> k = 0) \<and> data_start fs = 138 \<and> below 32768 fs"
proof -
  obtain fs0 where b: "mkfs_base e image_label (blank_IDKFS features_default m n) = Some fs0" "fs_inv fs0" "dir_ok fs0 0"
    "dir_list fs0 0 = []" "avail fs0 = IDKFS_TOTAL_BLOCKS - 138" "sb fs0 = mkfs_sb e image_label" "disk_size fs0 = n"
    "inodes fs0 = (\<lambda>_. zero_Inode)(0 := root_Inode e)" "inodes_counted fs0"
    using mkfs_base_spec[of n e image_label features_default m] n by auto
  have "dir_room fs0 0" using dir_need_bound[of fs0 0] b(5) by (simp add: dir_room_def)
  then obtain fs1 fs2 where add: "idkfs_dir_add e fs0 0 dot 0 IDKFS_FT_DIR = Some (fs1, 0)"
      "idkfs_dir_add e fs1 0 dotdot 0 IDKFS_FT_DIR = Some (fs2, 0)"
    and s: "dir_step 0 fs0 fs2" and l: "dir_list fs2 0 = dot_entries 0 0"
    using add_dots[OF fs_invD(1)[OF b(2)] b(3,4), of e 0 0] by blast
  have inv2: "fs_inv fs2" by (rule fs_inv_step[OF b(2) dir_step_inv[OF s] dir_step_fixed[OF s]])
  have k: "sb_magic (sb fs2) = IDKFS_MAGIC" "disk_size fs2 = n" "data_start fs2 = 138"
    using fixedD[OF dir_step_fixed[OF s]] b(6,7) by (simp_all add: mkfs_sb_def data_start_def)
  have ty: "i_type (inodes fs2 0) = 2" using s b(8) by (simp add: dir_step_def root_Inode_def)
  have live: "live fs2 k \<longleftrightarrow> k = 0" for k
    using dir_step_links[OF s, of k] b(8) by (simp add: live_def zero_Inode_def root_Inode_def)
  obtain fs c where f: "idkfs_flush fs2 = Some fs" "fs_inv fs" "sb fs = (sb fs2)\<lparr>sb_checksum := c\<rparr>" "inodes fs = inodes fs2"
    "disk_size fs = n" "dir_list fs 0 = dot_entries 0 0" "dir_ok fs 0"
    "allocates fs2 fs" "bitmap fs = bitmap fs2"
    using flush_view[OF inv2] k(2) l live dir_step_ok[OF s] by auto
  have none: "\<not> owns fs0 k s b" for k s b
    using blank_root[of e] b(8) by (cases s; cases "k = 0") (auto simp: owns_def live_def blank_def zero_Inode_def)
  have "IDKFS_TOTAL_BLOCKS - 138 - 9 \<le> avail fs" using s b(5) dir_need_bound[of fs0 0] f(9) by (simp add: dir_step_def avail_def)
  then have "room_below 32768 fs" by (intro avail_room) simp
  then have low: "below 32768 fs"
    using allocates_low[OF allocates_trans[OF dir_step_allocates[OF s] f(8)]] none by (simp add: stays_low_def below_def)
  have "inodes_counted fs" using dir_step_counted[OF s] b(9) f(3,4) by (simp add: inodes_counted_def live_def free_inode_set_def)
  with b(1) add ty live k(1,3) f low show ?thesis
    by (intro exI[of _ fs]) (simp add: format_image_def live_def data_start_def)
qed

section \<open>The two front ends\<close>

text \<open>An operation followed, if its result says success, by writing the metadata back.\<close>

definition then_flush :: "('a \<Rightarrow> bool) \<Rightarrow> (IDKFS \<times> 'a) option \<Rightarrow> (IDKFS \<times> 'a) option" where
  "then_flush ok m = do {
     (fs, r) \<leftarrow> m;
     if ok r then do { fs \<leftarrow> idkfs_flush_to_image fs; Some (fs, r) } else Some (fs, r) }"

lemma then_flush_simps [simp]:
  "then_flush ok None = None"
  "then_flush ok (Some (fs, r)) = (if ok r then do { fs \<leftarrow> idkfs_flush_to_image fs; Some (fs, r) } else Some (fs, r))"
  "then_flush ok (m \<bind> f) = m \<bind> (\<lambda>x. then_flush ok (f x))"
  "then_flush ok (if b then m1 else m2) = (if b then then_flush ok m1 else then_flush ok m2)"
  "then_flush ok (case p of (x, y) \<Rightarrow> g x y) = (case p of (x, y) \<Rightarrow> then_flush ok (g x y))"
  by (simp_all add: then_flush_def split: prod.splits)

lemma resolve_parent_error: "resolve_parent e fs path \<noteq> Some (fs', Inl 0)"
  by (auto simp: resolve_parent_def Let_def bind_eq_Some_conv split: option.splits if_splits prod.splits)

lemma set_inode_flush: "persist_set_inode e fs path f = then_flush (\<lambda>r. r = 0) (set_inode e fs path f)"
  by (auto simp: persist_set_inode_def set_inode_def persist_resolve_path_def intro!: Option.bind_cong)

text \<open>The operations of the persistent front end are those of the in-memory front end followed by
  writing the metadata to the image when they succeed: creating, making a directory, unlinking,
  truncating and changing the mode; and \<open>read\<close> and \<open>write\<close> on a valid handle, whatever they
  return.\<close>

theorem persist_is_fuse_then_flush:
  "persist_create e fs path mode = then_flush (\<lambda>r. \<exists>h. r = Inr h) (fuse_create e fs path mode)
   \<and> persist_mkdir e fs path mode = then_flush (\<lambda>r. r = 0) (fuse_mkdir e fs path mode)
   \<and> persist_unlink e fs path = then_flush (\<lambda>r. r = 0) (fuse_unlink e fs path)
   \<and> persist_truncate e fs path sz = then_flush (\<lambda>r. r = 0) (fuse_truncate e fs path sz)
   \<and> persist_chmod e fs path mode = then_flush (\<lambda>r. r = 0) (fuse_chmod e fs path mode)
   \<and> persist_write e fs buf sz offset fh =
       then_flush (\<lambda>r. handle_ino fh < IDKFS_MAX_INODES) (fuse_write e fs buf sz offset fh)"
proof (intro conjI)
  note defs = persist_resolve_parent_def persist_resolve_path_def
  show "persist_create e fs path mode = then_flush (\<lambda>r. \<exists>h. r = Inr h) (fuse_create e fs path mode)"
    by (auto simp: persist_create_def fuse_create_def defs intro!: Option.bind_cong split: sum.splits)
  show "persist_mkdir e fs path mode = then_flush (\<lambda>r. r = 0) (fuse_mkdir e fs path mode)"
    by (auto simp: persist_mkdir_def fuse_mkdir_def defs resolve_parent_error intro!: Option.bind_cong split: sum.splits)
  show "persist_unlink e fs path = then_flush (\<lambda>r. r = 0) (fuse_unlink e fs path)"
    by (auto simp: persist_unlink_def fuse_unlink_def defs resolve_parent_error intro!: Option.bind_cong split: sum.splits)
  show "persist_truncate e fs path sz = then_flush (\<lambda>r. r = 0) (fuse_truncate e fs path sz)"
    "persist_chmod e fs path mode = then_flush (\<lambda>r. r = 0) (fuse_chmod e fs path mode)"
    by (simp_all add: persist_truncate_def fuse_truncate_def persist_chmod_def fuse_chmod_def set_inode_flush)
  show "persist_write e fs buf sz offset fh =
       then_flush (\<lambda>r. handle_ino fh < IDKFS_MAX_INODES) (fuse_write e fs buf sz offset fh)"
    by (auto simp: persist_write_def fuse_write_def intro!: Option.bind_cong)
qed

end
