(* ===== verification/Fuse_Tree.thy ===== *)
theory Fuse_Tree
  imports Fuse_Unlink
begin

text \<open>
  The directory tree as an abstract state: which inodes exist, which of them are directories, and the
  entries of each directory. This is the specification that the FUSE operations of \<^verbatim>\<open>idkfs_fuse.c\<close>
  implement; it knows neither blocks nor bytes. A well-formed tree has a root, lists itself as ``.'' in
  every directory, has no name twice in a directory and no file under two names, and leads nowhere
  outside of its inodes; creating and removing names keeps it well-formed.
\<close>

record tree =
  nodes :: "nat set"
  dirs :: "nat set"
  entries :: "nat \<Rightarrow> entry list"

abbreviation (input) target :: "entry \<Rightarrow> nat" where "target en \<equiv> unat (fst (snd en))"

definition wf_dir :: "tree \<Rightarrow> nat \<Rightarrow> bool" where
  "wf_dir T k \<longleftrightarrow> (dot, word_of_nat k, ft_code IDKFS_FT_DIR) \<in> set (entries T k)
     \<and> distinct (map fst (entries T k)) \<and> (\<forall>en \<in> set (entries T k). target en \<in> nodes T)"

text \<open>No file has two names.\<close>

definition one_name :: "tree \<Rightarrow> bool" where
  "one_name T \<longleftrightarrow> (\<forall>k \<in> dirs T. \<forall>k' \<in> dirs T. \<forall>en \<in> set (entries T k). \<forall>en' \<in> set (entries T k').
     target en = target en' \<longrightarrow> target en \<notin> dirs T \<longrightarrow> k = k' \<and> fst en = fst en')"

definition wf_tree :: "tree \<Rightarrow> bool" where
  "wf_tree T \<longleftrightarrow> IDKFS_ROOT_INODE \<in> dirs T \<and> dirs T \<subseteq> nodes T \<and> nodes T \<subseteq> {..<IDKFS_MAX_INODES}
     \<and> (\<forall>k \<in> dirs T. wf_dir T k) \<and> one_name T"

fun walk :: "tree \<Rightarrow> nat \<Rightarrow> cstr list \<Rightarrow> int" where
  "walk T k [] = int k"
| "walk T k (t # ts) =
     (if k \<notin> dirs T then - ENOTDIR
      else case map_of (entries T k) (stored_name t) of
        None \<Rightarrow> - ENOENT
      | Some (ino, ty) \<Rightarrow> walk T (unat ino) ts)"

section \<open>Operations\<close>

definition free_nodes :: "tree \<Rightarrow> nat set" where
  "free_nodes T = {..<IDKFS_MAX_INODES} - nodes T"

definition tree_create :: "tree \<Rightarrow> nat \<Rightarrow> cstr \<Rightarrow> tree \<times> int" where
  "tree_create T p n =
     (if free_nodes T = {} \<or> length (entries T p) \<ge> IDKFS_MAX_DIRENTS then (T, - ENOSPC)
      else let i = Min (free_nodes T) in
        (T\<lparr>nodes := insert i (nodes T),
           entries := (entries T)(p := entries T p @ [(n, word_of_nat i, ft_code IDKFS_FT_FILE)])\<rparr>, 0))"

text \<open>A directory is made even when its parent is full; it has no name then.\<close>

definition tree_mkdir :: "tree \<Rightarrow> nat \<Rightarrow> cstr \<Rightarrow> tree \<times> int" where
  "tree_mkdir T p n =
     (if free_nodes T = {} then (T, - ENOSPC)
      else let i = Min (free_nodes T) in
        (T\<lparr>nodes := insert i (nodes T), dirs := insert i (dirs T),
           entries := (entries T)(p := (if length (entries T p) < IDKFS_MAX_DIRENTS
               then entries T p @ [(n, word_of_nat i, ft_code IDKFS_FT_DIR)] else entries T p),
             i := dot_entries (word_of_nat i) (word_of_nat p))\<rparr>, 0))"

definition tree_remove :: "tree \<Rightarrow> nat \<Rightarrow> cstr \<Rightarrow> nat \<Rightarrow> tree" where
  "tree_remove T p n k = T\<lparr>nodes := nodes T - {k}, entries := (entries T)(p := remove_first n (entries T p))\<rparr>"

section \<open>Well-formedness is kept\<close>

lemma wf_treeD:
  assumes "wf_tree T" "k \<in> dirs T"
  shows "k \<in> nodes T" "k < IDKFS_MAX_INODES" "wf_dir T k"
  using assms by (auto simp: wf_tree_def)

lemma one_nameD:
  "wf_tree T \<Longrightarrow> k \<in> dirs T \<Longrightarrow> k' \<in> dirs T \<Longrightarrow> en \<in> set (entries T k) \<Longrightarrow> en' \<in> set (entries T k') \<Longrightarrow>
    target en = target en' \<Longrightarrow> target en \<notin> dirs T \<Longrightarrow> k = k' \<and> fst en = fst en'"
  unfolding wf_tree_def one_name_def by blast

lemma free_node:
  assumes "free_nodes T \<noteq> {}"
  shows "Min (free_nodes T) < IDKFS_MAX_INODES" "Min (free_nodes T) \<notin> nodes T"
    "unat (word_of_nat (Min (free_nodes T)) :: u32) = Min (free_nodes T)"
proof -
  have "Min (free_nodes T) \<in> free_nodes T" using assms by (intro Min_in) (simp_all add: free_nodes_def)
  then show "Min (free_nodes T) < IDKFS_MAX_INODES" "Min (free_nodes T) \<notin> nodes T" by (simp_all add: free_nodes_def)
  then show "unat (word_of_nat (Min (free_nodes T)) :: u32) = Min (free_nodes T)"
    by (simp add: unat_of_nat take_bit_nat_eq_self)
qed

lemma node_word: "k < IDKFS_MAX_INODES \<Longrightarrow> unat (word_of_nat k :: u32) = k"
  by (simp add: unat_of_nat take_bit_nat_eq_self)

lemma wf_create:
  assumes wf: "wf_tree T" and p: "p \<in> dirs T" "n \<notin> fst ` set (entries T p)"
  shows "wf_tree (fst (tree_create T p n))"
proof (cases "free_nodes T = {} \<or> length (entries T p) \<ge> IDKFS_MAX_DIRENTS")
  case True
  with wf show ?thesis by (auto simp: tree_create_def)
next
  case False
  define i where "i = Min (free_nodes T)"
  note f = free_node[of T, folded i_def]
  define T' where "T' = fst (tree_create T p n)"
  have T': "nodes T' = insert i (nodes T)" "dirs T' = dirs T"
    "entries T' = (entries T)(p := entries T p @ [(n, word_of_nat i, ft_code IDKFS_FT_FILE)])"
    using False by (simp_all add: T'_def tree_create_def i_def Let_def)
  have d: "wf_dir T' k" if "k \<in> dirs T" for k
    using wf_treeD(3)[OF wf that] p(2) f False by (auto simp: wf_dir_def T')
  have new: "target en \<noteq> i" if "k \<in> dirs T" "en \<in> set (entries T k)" for k en
    using wf_treeD(3)[OF wf that(1)] that(2) f False by (auto simp: wf_dir_def)
  have "one_name T'"
    unfolding one_name_def
  proof (intro ballI impI)
    fix k k' en en' assume k: "k \<in> dirs T'" "k' \<in> dirs T'" "en \<in> set (entries T' k)" "en' \<in> set (entries T' k')"
      and e: "target en = target en'" "target en \<notin> dirs T'"
    have fresh: "k = p \<and> en = (n, word_of_nat i, ft_code IDKFS_FT_FILE)"
      if "k \<in> dirs T" "en \<in> set (entries T' k)" "target en = i" for k en
      using new[OF that(1), of en] that unfolding T' by (auto split: if_splits)
    show "k = k' \<and> fst en = fst en'"
    proof (cases "target en = i")
      case True
      with fresh[of k en] fresh[of k' en'] k e show ?thesis by (simp add: T'(2))
    next
      case False
      then have "en \<in> set (entries T k)" "en' \<in> set (entries T k')"
        using k e f \<open>\<not> (free_nodes T = {} \<or> _)\<close> unfolding T' by (auto split: if_splits)
      with one_nameD[OF wf _ _ this] k e show ?thesis by (simp add: T')
    qed
  qed
  with wf d f False show ?thesis by (auto simp: wf_tree_def T' T'_def[symmetric])
qed

lemma wf_mkdir:
  assumes wf: "wf_tree T" and p: "p \<in> dirs T" "n \<notin> fst ` set (entries T p)"
  shows "wf_tree (fst (tree_mkdir T p n))"
proof (cases "free_nodes T = {}")
  case True
  with wf show ?thesis by (simp add: tree_mkdir_def)
next
  case False
  define i where "i = Min (free_nodes T)"
  note f = free_node[OF False, folded i_def] and pT = wf_treeD[OF wf p(1)]
  define T' where "T' = fst (tree_mkdir T p n)"
  have T': "nodes T' = insert i (nodes T)" "dirs T' = insert i (dirs T)"
    "entries T' = (entries T)(p := (if length (entries T p) < IDKFS_MAX_DIRENTS
       then entries T p @ [(n, word_of_nat i, ft_code IDKFS_FT_DIR)] else entries T p),
       i := dot_entries (word_of_nat i) (word_of_nat p))"
    using False by (simp_all add: T'_def tree_mkdir_def i_def Let_def)
  have pi: "p \<noteq> i" using pT(1) f(2) by auto
  have di: "wf_dir T' i"
    using pT node_word[OF pT(2)] f(3) by (auto simp: wf_dir_def T' dot_entries_def dot_def dotdot_def)
  have d: "wf_dir T' k" if "k \<in> dirs T" for k
    using wf_treeD[OF wf that] p(2) f pi by (auto simp: wf_dir_def T')
  have old: "en \<in> set (entries T k) \<and> k \<in> dirs T" if "k \<in> dirs T'" "en \<in> set (entries T' k)" "target en \<notin> dirs T'" for k en
    using that f pi p(1) node_word[OF pT(2)] unfolding T' by (auto simp: dot_entries_def split: if_splits)
  have "one_name T'"
    unfolding one_name_def
  proof (intro ballI impI)
    fix k k' en en' assume k: "k \<in> dirs T'" "k' \<in> dirs T'" "en \<in> set (entries T' k)" "en' \<in> set (entries T' k')"
      and e: "target en = target en'" "target en \<notin> dirs T'"
    have "en \<in> set (entries T k) \<and> k \<in> dirs T" "en' \<in> set (entries T k') \<and> k' \<in> dirs T"
      using old[OF k(1,3) e(2)] old[OF k(2,4)] e by simp_all
    with one_nameD[OF wf, of k k' en en'] e show "k = k' \<and> fst en = fst en'" by (simp add: T')
  qed
  with wf d di f show ?thesis by (auto simp: wf_tree_def T' T'_def[symmetric])
qed

lemma set_remove_first:
  "distinct (map fst xs) \<Longrightarrow> set (remove_first n xs) = {en \<in> set xs. fst en \<noteq> n} \<and> distinct (map fst (remove_first n xs))"
proof (induction xs)
  case Nil
  show ?case by (simp add: remove_first_def)
next
  case (Cons x xs)
  show ?case
  proof (cases "fst x = n")
    case True
    then have "remove_first n (x # xs) = xs" by (simp add: remove_first_def drop_nth_def)
    moreover have "n \<notin> fst ` set xs" using Cons.prems True by simp
    then have "\<And>en. en \<in> set xs \<Longrightarrow> fst en \<noteq> n" by (metis imageI)
    ultimately show ?thesis using Cons.prems True by auto
  next
    case False
    then have "remove_first n (x # xs) = x # remove_first n xs"
      by (simp add: remove_first_def drop_nth_def split: option.splits)
    with Cons False show ?thesis by auto
  qed
qed

lemma wf_remove:
  assumes wf: "wf_tree T" and p: "p \<in> dirs T" "map_of (entries T p) n = Some (ino, ty)" "unat ino \<notin> dirs T"
  shows "wf_tree (tree_remove T p n (unat ino))"
proof -
  let ?T = "tree_remove T p n (unat ino)"
  have T': "nodes ?T = nodes T - {unat ino}" "dirs ?T = dirs T"
    "entries ?T = (entries T)(p := remove_first n (entries T p))" by (simp_all add: tree_remove_def)
  have dp: "distinct (map fst (entries T p))" using wf_treeD(3)[OF wf p(1)] by (simp add: wf_dir_def)
  have hit: "(n, ino, ty) \<in> set (entries T p)" using map_of_SomeD[OF p(2)] .
  note rm = set_remove_first[OF dp, of n]
  have sub: "en \<in> set (entries T k)" "target en \<noteq> unat ino" if "k \<in> dirs T" "en \<in> set (entries ?T k)" for k en
  proof -
    show e: "en \<in> set (entries T k)" using that rm by (auto simp: T' split: if_splits)
    show "target en \<noteq> unat ino"
    proof
      assume "target en = unat ino"
      then have "k = p \<and> fst en = n" using one_nameD[OF wf that(1) p(1) e hit] p(3) by simp
      with that(2) rm show False by (simp add: T')
    qed
  qed
  have dotk: "(dot, word_of_nat k, ft_code IDKFS_FT_DIR) \<in> set (entries ?T k)" if "k \<in> dirs T" for k
  proof -
    have e: "(dot, word_of_nat k, ft_code IDKFS_FT_DIR) \<in> set (entries T k)"
      using wf_treeD(3)[OF wf that] by (simp add: wf_dir_def)
    have "n \<noteq> dot" if "k = p"
    proof
      assume "n = dot"
      with e that eq_key_imp_eq_value[OF dp _ hit] have "word_of_nat k = ino" by auto
      with node_word[OF wf_treeD(2)[OF wf \<open>k \<in> dirs T\<close>]] p(3) \<open>k \<in> dirs T\<close> show False by auto
    qed
    with e rm show ?thesis by (auto simp: T')
  qed
  have "wf_dir ?T k" if "k \<in> dirs T" for k
    unfolding wf_dir_def
  proof (intro conjI ballI)
    show "distinct (map fst (entries ?T k))" using rm wf_treeD(3)[OF wf that] by (simp add: T' wf_dir_def)
    fix en assume "en \<in> set (entries ?T k)"
    from sub[OF that this] wf_treeD(3)[OF wf that] show "target en \<in> nodes ?T" by (simp add: T' wf_dir_def)
  qed (rule dotk[OF that])
  moreover have "one_name ?T"
    unfolding one_name_def using sub(1) one_nameD[OF wf] by (metis T'(2))
  ultimately show ?thesis
    using wf p(3) unfolding wf_tree_def T' by blast
qed

section \<open>The tree of an empty file system\<close>

definition root_tree :: tree where
  "root_tree = \<lparr>nodes = {0}, dirs = {0}, entries = (\<lambda>_. [])(0 := dot_entries 0 0)\<rparr>"

lemma wf_root_tree: "wf_tree root_tree"
  by (auto simp: wf_tree_def wf_dir_def one_name_def root_tree_def dot_entries_def dot_def dotdot_def)

end
