(* ===== verification/Fuse_Session.thy ===== *)
theory Fuse_Session
  imports Fuse_Tree Fuse_List
begin

text \<open>
  A session of the FUSE program \<^verbatim>\<open>idkfs_fuse.c\<close>: the table of operations, the requests the kernel may
  send, and the states that are reached from a formatted file system. In every such state the invariants
  of the block layer and of the directory tree hold, each request is answered without an undefined
  access, and it changes the tree as the abstract operations of \<^verbatim>\<open>Fuse_Tree\<close> do.
\<close>

section \<open>Requests\<close>

datatype fuse_request =
    Getattr cstr | Readdir cstr | Open cstr | Read mem u64 u64 u64 | Write mem u64 u64 u64
  | Create cstr u32 | Mkdir cstr u32 | Unlink cstr | Truncate cstr u64 | Utimens cstr u64 u64 | Chmod cstr u32 | Statfs

abbreviation (input) err_code :: "int + 'a \<Rightarrow> int" where
  "err_code r \<equiv> (case r of Inl c \<Rightarrow> c | Inr _ \<Rightarrow> 0)"

text \<open>The table \<open>idkfs_ops\<close>: the state after the request and the number it answers. \<open>q\<close> and \<open>ready\<close> are
  the sorting of a listing and the state of the sorter.\<close>

fun fuse_exec :: "(SortCandidate list \<Rightarrow> SortCandidate list \<times> bool) \<Rightarrow> bool \<Rightarrow> env \<Rightarrow> IDKFS \<Rightarrow> fuse_request \<Rightarrow> (IDKFS \<times> int) option" where
  "fuse_exec q ready e fs (Getattr path) = map_option (\<lambda>(fs, r). (fs, err_code r)) (fuse_getattr e fs path)"
| "fuse_exec q ready e fs (Readdir path) = map_option (\<lambda>(fs, _, r, _). (fs, r)) (fuse_readdir q e fs ready path)"
| "fuse_exec q ready e fs (Open path) = map_option (\<lambda>(fs, r). (fs, err_code r)) (fuse_open e fs path)"
| "fuse_exec q ready e fs (Read buf sz off fh) = map_option (\<lambda>(fs, _, r). (fs, r)) (fuse_read e fs buf sz off fh)"
| "fuse_exec q ready e fs (Write buf sz off fh) = fuse_write e fs buf sz off fh"
| "fuse_exec q ready e fs (Create path mode) = map_option (\<lambda>(fs, r). (fs, err_code r)) (fuse_create e fs path mode)"
| "fuse_exec q ready e fs (Mkdir path mode) = fuse_mkdir e fs path mode"
| "fuse_exec q ready e fs (Unlink path) = fuse_unlink e fs path"
| "fuse_exec q ready e fs (Truncate path sz) = fuse_truncate e fs path sz"
| "fuse_exec q ready e fs (Utimens path at mt) = fuse_utimens e fs path at mt"
| "fuse_exec q ready e fs (Chmod path mode) = fuse_chmod e fs path mode"
| "fuse_exec q ready e fs Statfs = Some (fs, 0)"

section \<open>The tree of a state\<close>

definition tree_of :: "IDKFS \<Rightarrow> tree" where
  "tree_of fs = (let D = {k. live fs k \<and> i_type (inodes fs k) = ft_code IDKFS_FT_DIR} in
     \<lparr>nodes = {k. live fs k}, dirs = D, entries = (\<lambda>k. if k \<in> D then dir_list fs k else [])\<rparr>)"

definition comps :: "cstr \<Rightarrow> cstr list" where
  "comps path = tokens (take 4095 path)"

text \<open>What a request does to the tree, and the numbers it may answer.\<close>

fun tree_exec :: "tree \<Rightarrow> fuse_request \<Rightarrow> tree \<times> int set" where
  "tree_exec T (Getattr path) = (T, {min 0 (walk T 0 (comps path))})"
| "tree_exec T (Open path) = (T, {min 0 (walk T 0 (comps path))})"
| "tree_exec T (Readdir path) = (let c = walk T 0 (comps path) in
     (T, {if c < 0 then c else if nat c \<in> dirs T then 0 else - ENOTDIR}))"
| "tree_exec T (Read _ _ _ _) = (T, UNIV)"
| "tree_exec T (Write _ _ _ _) = (T, UNIV)"
| "tree_exec T Statfs = (T, {0})"
| "tree_exec T (Truncate path _) = (T, {min 0 (walk T 0 (comps path))})"
| "tree_exec T (Chmod path _) = (T, {min 0 (walk T 0 (comps path))})"
| "tree_exec T (Utimens path _ _) = (T, {0, min 0 (walk T 0 (comps path))})"
| "tree_exec T (Create path _) = (let c = walk T 0 (butlast (comps path)) in
     if c < 0 then (T, {c}) else apsnd (\<lambda>r. {r}) (tree_create T (nat c) (last (comps path))))"
| "tree_exec T (Mkdir path _) = (let c = walk T 0 (butlast (comps path)) in
     if c < 0 then (T, {c}) else apsnd (\<lambda>r. {r}) (tree_mkdir T (nat c) (last (comps path))))"
| "tree_exec T (Unlink path) = (let c = walk T 0 (comps path) in
     if c < 0 then (T, {c}) else if nat c \<in> dirs T then (T, {- EISDIR})
     else (tree_remove T (nat (walk T 0 (butlast (comps path)))) (last (comps path)) (nat c), {0}))"

section \<open>The requests of the kernel\<close>

definition file_path :: "cstr \<Rightarrow> bool" where
  "file_path path \<longleftrightarrow> (\<exists>ts t. path = path_of (ts @ [t]) \<and> good_path ts t)"

text \<open>The kernel asks for a new name only in a directory that does not have it.\<close>

definition fresh_name :: "tree \<Rightarrow> cstr \<Rightarrow> bool" where
  "fresh_name T path \<longleftrightarrow> (let c = walk T 0 (butlast (comps path)) in
     0 \<le> c \<longrightarrow> nat c \<in> dirs T \<and> last (comps path) \<notin> fst ` set (entries T (nat c)))"

text \<open>The supported requests. The kernel itself guarantees that paths are C strings, that those of \<open>create\<close>, \<open>mkdir\<close>
  and \<open>unlink\<close> are absolute, not the root, at most 4095 bytes long and end in a name of at most 255 bytes, that a new name is
  asked for only in an existing directory which does not have it, that a handle in range belongs to an existing
  inode, and that directories are neither written to nor truncated. Three more conditions are not the kernel's: they
  restrict the requests to those that the code handles without damage. A file that is removed has no indirect block (it has one once
  it was written behind its first 49152 bytes; what its removal does is the matter of \<open>Fuse_Indirect\<close>); at least 9 blocks
  are free when a directory is made; and the 32 bits of the parent's link count do not overflow then.\<close>

fun request_ok :: "IDKFS \<Rightarrow> fuse_request \<Rightarrow> bool" where
  "request_ok fs (Getattr path) = nul_free path"
| "request_ok fs (Open path) = nul_free path"
| "request_ok fs (Readdir path) = nul_free path"
| "request_ok fs (Chmod path _) = nul_free path"
| "request_ok fs (Utimens path _ _) = nul_free path"
| "request_ok fs (Truncate path _) = (nul_free path \<and> (let c = walk (tree_of fs) 0 (comps path) in 0 \<le> c \<longrightarrow> nat c \<notin> dirs (tree_of fs)))"
| "request_ok fs (Read _ _ _ fh) = (handle_ino fh < IDKFS_MAX_INODES \<longrightarrow> handle_ino fh \<in> nodes (tree_of fs))"
| "request_ok fs (Write _ _ _ fh) = (handle_ino fh < IDKFS_MAX_INODES \<longrightarrow> handle_ino fh \<in> nodes (tree_of fs) - dirs (tree_of fs))"
| "request_ok fs Statfs = True"
| "request_ok fs (Create path _) = (file_path path \<and> fresh_name (tree_of fs) path)"
| "request_ok fs (Mkdir path _) = (file_path path \<and> fresh_name (tree_of fs) path \<and> 9 \<le> avail fs
     \<and> (let c = walk (tree_of fs) 0 (butlast (comps path)) in 0 \<le> c \<longrightarrow> i_link_count (inodes fs (nat c)) + 1 \<noteq> 0))"
| "request_ok fs (Unlink path) = (file_path path \<and> (let c = walk (tree_of fs) 0 (comps path) in
     0 \<le> c \<longrightarrow> nat c \<notin> dirs (tree_of fs) \<longrightarrow> i_indirect1 (inodes fs (nat c)) = IDKFS_NULL_BLOCK))"

text \<open>The states that a program reaches from a start state when it serves such requests; \<open>x\<close> is what the
  environment answers during a request.\<close>

inductive session ::
  "(IDKFS \<Rightarrow> bool) \<Rightarrow> ('x \<Rightarrow> IDKFS \<Rightarrow> fuse_request \<Rightarrow> (IDKFS \<times> int) option) \<Rightarrow> IDKFS \<Rightarrow> bool" for start exec where
  start: "start fs \<Longrightarrow> session start exec fs"
| request: "session start exec fs \<Longrightarrow> request_ok fs rq \<Longrightarrow> exec x fs rq = Some (fs', r) \<Longrightarrow> session start exec fs'"

definition formatted :: "IDKFS \<Rightarrow> bool" where
  "formatted fs \<longleftrightarrow> (\<exists>e label f. idkfs_mkfs True True e label f = Some (Some fs))"

definition fuse_session :: "IDKFS \<Rightarrow> bool" where
  "fuse_session fs = session formatted (\<lambda>(q, ready, e). fuse_exec q ready e) fs"

section \<open>The invariant\<close>

definition tree_inv :: "IDKFS \<Rightarrow> bool" where
  "tree_inv fs \<longleftrightarrow> block_inv fs \<and> inodes_counted fs \<and> (\<forall>k \<in> dirs (tree_of fs). dir_ok fs k) \<and> wf_tree (tree_of fs)"

lemma tree_of_simps [simp]:
  "k \<in> nodes (tree_of fs) \<longleftrightarrow> live fs k"
  "k \<in> dirs (tree_of fs) \<longleftrightarrow> live fs k \<and> i_type (inodes fs k) = ft_code IDKFS_FT_DIR"
  "entries (tree_of fs) k = (if live fs k \<and> i_type (inodes fs k) = ft_code IDKFS_FT_DIR then dir_list fs k else [])"
  by (simp_all add: tree_of_def Let_def)

lemma tree_eqI: "nodes T = nodes T' \<Longrightarrow> dirs T = dirs T' \<Longrightarrow> entries T = entries T' \<Longrightarrow> T = (T' :: tree)"
  by simp

lemma tree_inv_ok: "tree_inv fs \<Longrightarrow> tree_ok fs"
  by (auto simp: tree_inv_def tree_ok_def wf_tree_def wf_dir_def)

lemma tree_of_same:
  assumes "same_files fs fs'"
  shows "tree_of fs' = tree_of fs" "tree_inv fs' = tree_inv fs" "fixed fs' = fixed fs" "allocates fs fs'" "stays_low fs fs'"
proof -
  show t: "tree_of fs' = tree_of fs"
    by (simp add: tree_of_def same_files_view[OF assms] same_files_inode(1)[OF assms] cong: if_cong)
  show "tree_inv fs' = tree_inv fs"
    by (simp add: tree_inv_def same_files_view[OF assms] same_files_inode(1)[OF assms] t)
  show "fixed fs' = fixed fs" "allocates fs fs'" by (rule same_files_view[OF assms])+
  then show "stays_low fs fs'" by (simp add: allocates_low)
qed

lemma walk_tree: "tree_ok fs \<Longrightarrow> live fs k \<Longrightarrow> walk (tree_of fs) k ts = tree_walk fs k ts"
proof (induction ts arbitrary: k)
  case (Cons t ts)
  then show ?case
    using tree_ok_entry[OF Cons.prems] by (auto split: option.splits)
qed simp

lemma walk_root:
  assumes "tree_inv fs"
  shows "walk (tree_of fs) 0 ts = tree_walk fs 0 ts" "0 \<le> tree_walk fs 0 ts \<Longrightarrow> live fs (nat (tree_walk fs 0 ts))"
  using walk_tree[OF tree_inv_ok[OF assms], of 0 ts] tree_walk_live[OF tree_inv_ok[OF assms], of 0 ts] tree_inv_ok[OF assms]
  by (auto simp: tree_ok_def)

text \<open>A change that leaves every directory alone.\<close>

lemma tree_frame:
  assumes "tree_inv fs" "block_inv fs'" "inodes_counted fs'" and l: "\<And>k. live fs' k = live fs k"
    and t: "\<And>k. live fs k \<Longrightarrow> i_type (inodes fs' k) = i_type (inodes fs k)"
    and d: "\<And>k. k \<in> dirs (tree_of fs) \<Longrightarrow> dir_list fs' k = dir_list fs k \<and> dir_ok fs' k"
  shows "tree_of fs' = tree_of fs \<and> tree_inv fs'"
proof -
  have D: "{k. live fs k \<and> i_type (inodes fs' k) = ft_code IDKFS_FT_DIR} = {k. live fs k \<and> i_type (inodes fs k) = ft_code IDKFS_FT_DIR}"
    using t by auto
  have "tree_of fs' = tree_of fs"
    unfolding tree_of_def l D Let_def using d by (auto simp: fun_eq_iff)
  then show ?thesis
    using assms(1-3) d unfolding tree_inv_def by simp
qed

section \<open>Requests that keep the tree\<close>

lemma read_loop_total: "block_inv fs \<Longrightarrow> live fs k \<Longrightarrow> \<exists>t out'. read_loop fs k off n tot out = Some (t, out')"
proof (induction fs k off n tot out rule: read_loop.induct)
  case (1 fs k off n tot out)
  obtain w where w: "inode_get_block fs k (io_logical off tot) = Some w" "w \<noteq> IDKFS_NULL_BLOCK \<longrightarrow> writable fs k (unat w)"
    using inode_get_block_spec[OF "1.prems"] by blast
  show ?case
  proof (cases "tot < n \<and> w \<noteq> IDKFS_NULL_BLOCK")
    case True
    then have "block_ptr (unat w) + IDKFS_BLOCK_SIZE \<le> disk_size fs"
      using w(2) inv_geometry[OF "1.prems"(1)] by (auto simp: writable_def geometry_def block_ptr_def)
    then obtain tmp where tmp: "block_read fs (unat w) = Some tmp" by (auto simp: block_read_def block_ok_def)
    with "1.IH"[OF _ w(1) _ tmp "1.prems"] True w(1) show ?thesis by (subst read_loop.simps) simp
  next
    case False
    with w(1) show ?thesis by (subst read_loop.simps) auto
  qed
qed

lemma read_total:
  assumes inv: "block_inv fs" and live: "live fs k"
  shows "\<exists>fs' buf' n. idkfs_read e fs k buf sz offset = Some (fs', buf', n) \<and> same_files fs fs'"
proof -
  have at: "inode_at fs k = Some (inodes fs k)" using live by (simp add: inode_at_def live_def)
  let ?n = "unat (if offset + sz > i_size (inodes fs k) then i_size (inodes fs k) - offset else sz)"
  obtain t out where "read_loop fs k (unat offset) ?n 0 buf = Some (t, out)"
    using read_loop_total[OF inv live] by blast
  with at same_files_accessed[of fs e k] show ?thesis
    by (auto simp: idkfs_read_def accessed_def Let_def)
qed

lemma resolve_comps:
  assumes "tree_inv fs" "nul_free path"
  shows "\<exists>fs'. resolve_path e fs path = Some (fs', walk (tree_of fs) 0 (comps path)) \<and> same_files fs fs'"
  using resolve_path_spec[OF tree_inv_ok[OF assms(1)] assms(2), of e] walk_root(1)[OF assms(1)] by (simp add: comps_def)

lemma walk_node: "tree_inv fs \<Longrightarrow> 0 \<le> walk (tree_of fs) 0 ts \<Longrightarrow> live fs (nat (walk (tree_of fs) 0 ts))"
  using walk_root by simp

lemma live_at: "live fs k \<Longrightarrow> inode_at fs k = Some (inodes fs k)"
  by (simp add: inode_at_def live_def)

lemma readdir_total:
  assumes inv: "tree_inv fs" and path: "nul_free path"
  shows "\<exists>fs' ready' out. fuse_readdir q e fs ready path = Some (fs', ready',
      (let c = walk (tree_of fs) 0 (comps path) in
       if c < 0 then c else if nat c \<in> dirs (tree_of fs) then 0 else - ENOTDIR), out) \<and> same_files fs fs'"
proof -
  let ?c = "walk (tree_of fs) 0 (comps path)"
  obtain fs1 where r: "resolve_path e fs path = Some (fs1, ?c)" and s: "same_files fs fs1"
    using resolve_comps[OF inv path] by blast
  consider (err) "?c < 0" | (notdir) "0 \<le> ?c" "nat ?c \<notin> dirs (tree_of fs)" | (dir) "0 \<le> ?c" "nat ?c \<in> dirs (tree_of fs)"
    by linarith
  then show ?thesis
  proof cases
    case notdir
    have "live fs (nat ?c)" using walk_node[OF inv notdir(1)] .
    with notdir r s show ?thesis
      by (simp add: fuse_readdir_def live_at same_files_view[OF s] same_files_inode(1)[OF s])
  next
    case dir
    then have "tree_walk fs 0 (tokens (take 4095 path)) = int (nat ?c)" "i_type (inodes fs (nat ?c)) = ft_code IDKFS_FT_DIR"
      using walk_root(1)[OF inv] by (simp_all add: comps_def)
    from readdir_run[OF tree_inv_ok[OF inv] path this, where q = q and ready = ready and e = e] dir show ?thesis
      by (auto simp: case_prod_beta Let_def)
  qed (use r s in \<open>simp add: fuse_readdir_def\<close>)
qed

text \<open>Setting fields of an inode other than its pointers, its type and its link count; the size of a
  directory stays.\<close>

lemma set_inode_step:
  assumes inv: "tree_inv fs" and path: "nul_free path"
    and f: "\<And>i. i_link_count (f i) = i_link_count i" "\<And>i. i_direct (f i) = i_direct i" "\<And>i. i_indirect1 (f i) = i_indirect1 i"
      "\<And>i. i_type (f i) = i_type i"
    and sz: "nat (walk (tree_of fs) 0 (comps path)) \<in> dirs (tree_of fs) \<Longrightarrow> 0 \<le> walk (tree_of fs) 0 (comps path) \<Longrightarrow> (\<And>i. i_size (f i) = i_size i)"
  shows "\<exists>fs'. set_inode e fs path f = Some (fs', min 0 (walk (tree_of fs) 0 (comps path)))
    \<and> tree_of fs' = tree_of fs \<and> tree_inv fs' \<and> fixed fs' = fixed fs \<and> stays_low fs fs'"
proof -
  let ?c = "walk (tree_of fs) 0 (comps path)"
  obtain fs1 where r: "resolve_path e fs path = Some (fs1, ?c)" and s: "same_files fs fs1"
    using resolve_comps[OF inv path] by blast
  note t = tree_of_same[OF s]
  show ?thesis
  proof (cases "?c < 0")
    case True
    with r t inv show ?thesis by (simp add: set_inode_def)
  next
    case False
    let ?k = "nat ?c"
    let ?fs = "upd_inode fs1 ?k f"
    have k: "live fs1 ?k" using walk_node[OF inv] False by (simp add: same_files_view[OF s])
    have inv1: "block_inv fs1" "inodes_counted fs1" "tree_inv fs1" using inv t by (simp_all add: tree_inv_def same_files_view[OF s])
    have b: "fbyte ?fs k' p = fbyte fs1 k' p" for k' p by (simp add: fbyte_def f Let_def)
    have l: "live ?fs k' = live fs1 k'" for k' by (simp add: live_def f)
    have d: "dir_list ?fs k' = dir_list fs1 k' \<and> dir_ok ?fs k'" if k': "k' \<in> dirs (tree_of fs1)" for k'
    proof -
      have "i_size (inodes ?fs k') = i_size (inodes fs1 k')" using sz k' False by (auto simp: t)
      then show ?thesis
        using dir_ok_cong[of ?fs k' fs1] b f(1) inv1(3) k' by (simp add: tree_inv_def)
    qed
    have "tree_of ?fs = tree_of fs1 \<and> tree_inv ?fs"
    proof (rule tree_frame[OF inv1(3) _ _ l _ d])
      show "block_inv ?fs" by (rule inv_upd_inode(1)[OF inv1(1)]) (simp_all add: f)
      show "inodes_counted ?fs" using counted_cong[of ?fs fs1] inv1(2) f(1) by simp
    qed (simp_all add: f)
    moreover have "stays_low fs ?fs"
      by (rule stays_low_then[OF t(5) inv_upd_inode(4)[OF inv1(1)]]) (simp_all add: f)
    ultimately show ?thesis using r k False t by (simp add: set_inode_def live_at)
  qed
qed

lemma write_step_tree:
  assumes inv: "tree_inv fs" and k: "live fs k" "k \<notin> dirs (tree_of fs)"
  shows "\<exists>fs' r. idkfs_write e fs k buf sz off = Some (fs', r) \<and> tree_of fs' = tree_of fs \<and> tree_inv fs' \<and> fixed fs' = fixed fs \<and> stays_low fs fs'"
proof -
  have i: "block_inv fs" "inodes_counted fs" using inv by (simp_all add: tree_inv_def)
  obtain fs' r where w: "idkfs_write e fs k buf sz off = Some (fs', r)" "block_inv fs'" "others_kept k fs fs'"
    "sb_free_inodes (sb fs') = sb_free_inodes (sb fs)" "i_type (inodes fs' k) = i_type (inodes fs k)"
    "i_link_count (inodes fs' k) = i_link_count (inodes fs k)" "fixed fs' = fixed fs" "allocates fs fs'"
    using idkfs_write_spec[OF i(1) k(1)] by blast
  have links: "i_link_count (inodes fs' k') = i_link_count (inodes fs k')" and ty: "i_type (inodes fs' k') = i_type (inodes fs k')" for k'
    using w(3,5,6) by (cases "k' = k"; simp add: others_kept_def)+
  have d: "dir_list fs' k' = dir_list fs k' \<and> dir_ok fs' k'" if "k' \<in> dirs (tree_of fs)" for k'
    using others_kept_dir[OF w(3), of k'] that k(2) inv by (auto simp: tree_inv_def)
  have "tree_of fs' = tree_of fs \<and> tree_inv fs'"
    using counted_cong[of fs' fs, OF links w(4)] i(2)
    by (intro tree_frame[OF inv w(2) _ _ ty d]) (simp_all add: live_def links)
  with w(1,7) allocates_low[OF w(8)] show ?thesis by blast
qed

section \<open>Requests that change the tree\<close>

lemma parent_cases:
  assumes inv: "tree_inv fs" and f: "file_path path"
  obtains ts t fs1 where "comps path = ts @ [t]" "nul_free path" "nul_free t" "stored_name t = t" "same_files fs fs1"
    "resolve_parent e fs path = Some (fs1, let c = walk (tree_of fs) 0 ts in if c < 0 then Inl c else Inr (nat c, t))"
proof -
  obtain ts t where p: "path = path_of (ts @ [t])" "good_path ts t" using f by (auto simp: file_path_def)
  have c: "comps path = ts @ [t]" "nul_free path"
    using p tokens_path_of[of "ts @ [t]"] by (simp_all add: comps_def good_path_def)
  from resolve_parent_spec[OF tree_inv_ok[OF inv] p(2), of e] walk_root(1)[OF inv, of ts] p(1)
  obtain fs1 where r: "same_files fs fs1"
    "resolve_parent e fs path = Some (fs1, let c = walk (tree_of fs) 0 ts in if c < 0 then Inl c else Inr (nat c, t))"
    by (auto simp: Let_def)
  show thesis using good_path_names[OF p(2)] by (intro that[OF c _ _ r]) simp_all
qed

lemma free_nodes_tree: "free_nodes (tree_of fs) = free_inode_set fs"
  by (auto simp: free_nodes_def free_inode_set_def live_def)

lemma dir_room_full: "tree_inv fs \<Longrightarrow> p \<in> dirs (tree_of fs) \<Longrightarrow> dir_need fs p = 0"
proof -
  assume inv: "tree_inv fs" and p: "p \<in> dirs (tree_of fs)"
  then have "wf_dir (tree_of fs) p" "dir_ok fs p" using wf_treeD(3)[of "tree_of fs" p] by (simp_all add: tree_inv_def)
  moreover have "dir_list fs p \<noteq> []" using calculation(1) p by (auto simp: wf_dir_def)
  ultimately show ?thesis using mapped_need dir_list_empty by blast
qed

text \<open>An operation on a directory \<open>p\<close> and one more inode \<open>i\<close> that was or becomes free: what is to be shown
  for the tree are these two.\<close>

lemma rest_dirs:
  assumes "rest_kept {p, i} fs fs'" "k \<notin> {p, i}" "live fs k"
  shows "live fs' k" "i_type (inodes fs' k) = i_type (inodes fs k)" "dir_list fs' k = dir_list fs k" "dir_ok fs' k = dir_ok fs k"
proof -
  have e: "inodes fs' k = inodes fs k" and d: "dir_list fs' k = dir_list fs k" and b: "\<forall>p < direct_span. fbyte fs' k p = fbyte fs k p"
    using assms by (simp_all add: rest_kept_def)
  then show "live fs' k" "i_type (inodes fs' k) = i_type (inodes fs k)" "dir_list fs' k = dir_list fs k"
    using assms(3) by (simp_all add: live_def)
  show "dir_ok fs' k = dir_ok fs k" using dir_ok_cong(1)[of fs' k fs] e b by (simp add: layout_simps)
qed

lemma rest_live: "rest_kept {p, i} fs fs' \<Longrightarrow> k \<notin> {p, i} \<Longrightarrow> live fs' k = live fs k"
  by (simp add: rest_kept_def live_def)

lemma tree_two:
  assumes inv: "tree_inv fs" and rest: "rest_kept {p, i} fs fs'" and p: "p \<in> dirs (tree_of fs)" "p \<in> dirs (tree_of fs')" "dir_ok fs' p"
    and i: "i \<notin> dirs (tree_of fs)" "i \<in> dirs (tree_of fs') \<Longrightarrow> dir_ok fs' i"
  shows "tree_of fs' = \<lparr>nodes = (if live fs' i then insert i (nodes (tree_of fs)) else nodes (tree_of fs) - {i}),
      dirs = (if i \<in> dirs (tree_of fs') then insert i (dirs (tree_of fs)) else dirs (tree_of fs)),
      entries = (entries (tree_of fs))(p := dir_list fs' p, i := entries (tree_of fs') i)\<rparr>"
    and "\<forall>k \<in> dirs (tree_of fs'). dir_ok fs' k"
proof -
  have l: "live fs' k \<longleftrightarrow> live fs k" "live fs k \<Longrightarrow> i_type (inodes fs' k) = i_type (inodes fs k)"
    "live fs k \<Longrightarrow> dir_list fs' k = dir_list fs k" "live fs k \<Longrightarrow> dir_ok fs' k = dir_ok fs k" if "k \<noteq> p" "k \<noteq> i" for k
    using rest_live[OF rest, of k] rest_dirs[OF rest, of k] that by auto
  have d: "k \<in> dirs (tree_of fs') \<longleftrightarrow> k \<in> dirs (tree_of fs)" if "k \<noteq> i" for k
    using l(1,2)[of k] that p by (cases "k = p") auto
  show "tree_of fs' = \<lparr>nodes = (if live fs' i then insert i (nodes (tree_of fs)) else nodes (tree_of fs) - {i}),
      dirs = (if i \<in> dirs (tree_of fs') then insert i (dirs (tree_of fs)) else dirs (tree_of fs)),
      entries = (entries (tree_of fs))(p := dir_list fs' p, i := entries (tree_of fs') i)\<rparr>" (is "_ = ?T")
  proof (rule tree_eqI)
    have "k \<in> nodes (tree_of fs') \<longleftrightarrow> k \<in> nodes ?T" for k
      using l(1)[of k] p by (cases "k = p \<or> k = i") auto
    then show "nodes (tree_of fs') = nodes ?T" by (rule set_eqI)
    have "k \<in> dirs (tree_of fs') \<longleftrightarrow> k \<in> dirs ?T" for k
      using d[of k] i(1) by (cases "k = i") (auto simp del: tree_of_simps)
    then show "dirs (tree_of fs') = dirs ?T" by (rule set_eqI)
    have "entries (tree_of fs') k = entries ?T k" for k
    proof (cases "k = p \<or> k = i")
      case True
      with p(2) show ?thesis by auto
    next
      case False
      with d[of k] l(3)[of k] show ?thesis by auto
    qed
    then show "entries (tree_of fs') = entries ?T" by (rule ext)
  qed
  show "\<forall>k \<in> dirs (tree_of fs'). dir_ok fs' k"
  proof
    fix k assume k: "k \<in> dirs (tree_of fs')"
    show "dir_ok fs' k"
    proof (cases "k = p \<or> k = i")
      case True
      with p(3) i(2) k show ?thesis by blast
    next
      case False
      with d[of k] k have "k \<in> dirs (tree_of fs)" by blast
      with l(4)[of k] False inv show ?thesis by (simp add: tree_inv_def)
    qed
  qed
qed

lemma create_step:
  assumes inv: "tree_inv fs" and p: "p \<in> dirs (tree_of fs)" "t \<notin> fst ` set (entries (tree_of fs) p)"
    and t: "nul_free t" "stored_name t = t"
  shows "\<exists>fs' r. idkfs_create e fs p t tier mode = Some (fs', r) \<and> tree_inv fs'
    \<and> tree_of fs' = fst (tree_create (tree_of fs) p t) \<and> snd (tree_create (tree_of fs) p t) = (if r < 0 then - ENOSPC else 0)
    \<and> fixed fs' = fixed fs \<and> allocates fs fs'"
proof -
  let ?T = "tree_of fs"
  have i: "block_inv fs" "inodes_counted fs" "dir_ok fs p" and room: "dir_room fs p"
    and lp: "live fs p" "i_type (inodes fs p) = ft_code IDKFS_FT_DIR"
    using inv p(1) dir_room_full[OF inv p(1)] by (simp_all add: tree_inv_def dir_room_def)
  have wf: "wf_tree ?T" using inv by (simp add: tree_inv_def)
  show ?thesis
  proof (cases rule: create_cases[OF i room t(1), of e tier mode])
    case 1
    with inv show ?thesis by (simp add: tree_create_def free_nodes_tree)
  next
    case (2 fs' i)
    have min: "Min (free_nodes ?T) = i" using 2(2,3) by (auto simp: free_nodes_tree intro: Min_eqI)
    have c: "tree_create ?T p t = (?T\<lparr>nodes := insert i (nodes ?T),
        entries := (entries ?T)(p := entries ?T p @ [(t, word_of_nat i, ft_code IDKFS_FT_FILE)])\<rparr>, 0)"
      using 2(2,4) lp min by (auto simp: tree_create_def free_nodes_tree)
    have ni: "\<not> live fs i" using live_not_free 2(2) by blast
    have new: "live fs' i" "i_type (inodes fs' i) \<noteq> ft_code IDKFS_FT_DIR"
      using 2(2,8) by (simp_all add: live_def free_inode_set_def) (simp add: file_Inode_def)
    have pd: "p \<in> dirs (tree_of fs')" using dir_ok_live[OF 2(7)] lp 2(11) by simp
    have "i \<notin> dirs ?T" "i \<in> dirs (tree_of fs') \<Longrightarrow> dir_ok fs' i" using ni new by simp_all
    note two = tree_two[OF inv 2(10) p(1) pd 2(7) this]
    have e: "tree_of fs' = fst (tree_create ?T p t)"
      unfolding c using two(1) ni new 2(9) t(2) lp by (intro tree_eqI) (auto simp: fun_eq_iff)
    moreover have "tree_inv fs'"
      using 2(5,6) two(2) wf_create[OF wf p] unfolding tree_inv_def e by simp
    ultimately show ?thesis using 2(1,12,13) c by simp
  next
    case (3 fs')
    obtain i where i3: "i \<in> free_inode_set fs" "rest_kept {p, i} fs fs'" using 3(8) by blast
    have ni: "\<not> live fs i" "\<not> live fs' i" using live_not_free i3(1) 3(6) by blast+
    have pd: "p \<in> dirs (tree_of fs')" using dir_ok_live[OF 3(5)] lp 3(9) by simp
    have "i \<notin> dirs ?T" "i \<in> dirs (tree_of fs') \<Longrightarrow> dir_ok fs' i" using ni by simp_all
    note two = tree_two[OF inv i3(2) p(1) pd 3(5) this]
    have c: "tree_create ?T p t = (?T, - ENOSPC)" using 3(2) lp by (simp add: tree_create_def)
    have e: "tree_of fs' = ?T"
      using two(1) ni 3(7) lp by (intro tree_eqI) (auto simp: fun_eq_iff)
    moreover have "tree_inv fs'"
      using 3(3,4) two(2) wf unfolding tree_inv_def e by simp
    ultimately show ?thesis using 3(1,10,11) c by simp
  qed
qed

lemma mkdir_step:
  assumes inv: "tree_inv fs" and p: "p \<in> dirs (tree_of fs)" "t \<notin> fst ` set (entries (tree_of fs) p)"
    and room: "9 \<le> avail fs" "i_link_count (inodes fs p) + 1 \<noteq> 0" and t: "nul_free t" "stored_name t = t"
  shows "\<exists>fs' r. idkfs_mkdir e fs p t mode = Some (fs', r) \<and> tree_inv fs'
    \<and> tree_of fs' = fst (tree_mkdir (tree_of fs) p t) \<and> snd (tree_mkdir (tree_of fs) p t) = (if r < 0 then - ENOSPC else 0)
    \<and> fixed fs' = fixed fs \<and> allocates fs fs'"
proof -
  let ?T = "tree_of fs"
  have i: "block_inv fs" "inodes_counted fs" "dir_ok fs p" and need: "dir_need fs p + 9 \<le> avail fs"
    and lp: "live fs p" "i_type (inodes fs p) = ft_code IDKFS_FT_DIR"
    using inv p(1) dir_room_full[OF inv p(1)] room(1) by (simp_all add: tree_inv_def)
  have wf: "wf_tree ?T" using inv by (simp add: tree_inv_def)
  show ?thesis
  proof (cases rule: mkdir_cases[OF i need room(2) t(1), of e mode])
    case 1
    with inv show ?thesis by (simp add: tree_mkdir_def free_nodes_tree)
  next
    case (2 fs' i)
    have min: "Min (free_nodes ?T) = i" using 2(2,3) by (auto simp: free_nodes_tree intro: Min_eqI)
    have c: "tree_mkdir ?T p t = (?T\<lparr>nodes := insert i (nodes ?T), dirs := insert i (dirs ?T),
        entries := (entries ?T)(p := dir_list fs' p, i := dir_list fs' i)\<rparr>, 0)"
      using 2(2,9,10) lp min t(2) by (auto simp: tree_mkdir_def free_nodes_tree)
    have ni: "\<not> live fs i" using live_not_free 2(2) by blast
    have new: "live fs' i" "i_type (inodes fs' i) = ft_code IDKFS_FT_DIR" using dir_ok_live[OF 2(7)] 2(8) by simp_all
    have pd: "p \<in> dirs (tree_of fs')" using dir_ok_live[OF 2(6)] lp 2(13) by simp
    have "i \<notin> dirs ?T" "i \<in> dirs (tree_of fs') \<Longrightarrow> dir_ok fs' i" using ni 2(7) by simp_all
    note two = tree_two[OF inv 2(12) p(1) pd 2(6) this]
    have e: "tree_of fs' = fst (tree_mkdir ?T p t)"
      unfolding c using two(1) ni new 2(7) by (intro tree_eqI) (auto simp: fun_eq_iff)
    moreover have "tree_inv fs'"
      using 2(4,5) two(2) wf_mkdir[OF wf p] unfolding tree_inv_def e by simp
    ultimately show ?thesis using 2(1,14,15) c by simp
  qed
qed

lemma unlink_step:
  assumes inv: "tree_inv fs" and p: "p \<in> dirs (tree_of fs)" "map_of (entries (tree_of fs) p) t = Some (ino, ty)"
    and k: "unat ino \<notin> dirs (tree_of fs)" "i_indirect1 (inodes fs (unat ino)) = IDKFS_NULL_BLOCK"
    and t: "nul_free t" "stored_name t = t"
  shows "\<exists>fs3 fs4 fs5. release_file (unat ino) fs = Some fs3 \<and> idkfs_dir_remove e fs3 p t = Some (fs4, 0)
    \<and> inode_free fs4 (unat ino) = Some fs5 \<and> tree_inv fs5 \<and> tree_of fs5 = tree_remove (tree_of fs) p t (unat ino)
    \<and> fixed fs5 = fixed fs \<and> stays_low fs fs5"
proof -
  let ?k = "unat ino" and ?T = "tree_of fs"
  have i: "block_inv fs" "inodes_counted fs" "dir_ok fs p" and wf: "wf_tree ?T"
    and lp: "live fs p" "i_type (inodes fs p) = ft_code IDKFS_FT_DIR"
    using inv p(1) by (simp_all add: tree_inv_def)
  have m: "map_of (dir_list fs p) t = Some (ino, ty)" using p lp by simp
  have lk: "live fs ?k" by (rule tree_ok_entry[OF tree_inv_ok[OF inv] lp m])
  have k0: "?k \<noteq> 0" "p \<noteq> ?k" using k(1) p(1) wf unfolding wf_tree_def by metis+
  have hit: "t \<in> fst ` set (dir_list fs p)" using m by (metis domI dom_map_of_conv_image_fst)
  obtain fs3 fs4 where u: "release_file ?k fs = Some fs3" "idkfs_dir_remove e fs3 p t = Some (fs4, 0)" "block_inv fs4"
    "inodes_counted fs4" "live fs4 ?k" "dir_list fs4 p = remove_first t (dir_list fs p)"
    "rest_kept {p, ?k} fs fs4" "dir_ok fs4 p" "i_type (inodes fs4 p) = i_type (inodes fs p)" "fixed fs4 = fixed fs"
    "stays_low fs fs4"
    using unlink_core[OF i(1,2) lk k0 k(2) i(3) lp(2) hit t, of e] by blast
  let ?fs5 = "install fs4 ?k zero_Inode (sb_free_inodes (sb fs4) + 1)"
  have free: "inode_free fs4 ?k = Some ?fs5" using u(5) by (simp add: inode_free_def install_def live_def)
  have rest: "rest_kept {p, ?k} fs ?fs5"
    by (rule rest_trans[OF u(7) others_rest[OF install_inv(2)[OF u(3)]]]) (simp_all add: zero_Inode_def)
  have dead: "\<not> live ?fs5 ?k" by (simp add: live_def zero_Inode_def)
  have pd: "dir_ok ?fs5 p" "p \<in> dirs (tree_of ?fs5)"
    using u(8) k0(2) lp(2) u(9) dir_ok_live[OF u(8)] by (simp_all add: install_view)
  have "?k \<in> dirs (tree_of ?fs5) \<Longrightarrow> dir_ok ?fs5 ?k" using dead by simp
  note two = tree_two[OF inv rest p(1) pd(2,1) k(1) this]
  have e: "tree_of ?fs5 = tree_remove ?T p t ?k"
    using two(1) dead u(6) k0(2) lp k(1)
    by (intro tree_eqI) (auto simp: tree_remove_def install_view fun_eq_iff)
  moreover have "tree_inv ?fs5"
  proof -
    have "block_inv ?fs5" by (rule install_inv(1)[OF u(3)]) (simp add: zero_Inode_def)
    then show ?thesis
      using two(2) counted_free(1)[OF u(4,5) k0(1)] wf_remove[OF wf p k(1)] unfolding tree_inv_def e by simp
  qed
  moreover have "fixed ?fs5 = fixed fs" using u(10) by simp
  moreover have "stays_low fs ?fs5"
    by (rule stays_low_then[OF u(11) install_inv(3)[OF u(3)]]) (simp add: zero_Inode_def)
  ultimately show ?thesis using u(1,2) free by blast
qed

section \<open>The refinement\<close>

text \<open>The state after a request, its answer and what they have to be.\<close>

abbreviation (input) refines :: "IDKFS \<Rightarrow> fuse_request \<Rightarrow> (IDKFS \<times> int) option \<Rightarrow> bool" where
  "refines fs rq res \<equiv> (\<exists>fs' r. res = Some (fs', r) \<and> tree_inv fs' \<and> tree_of fs' = fst (tree_exec (tree_of fs) rq)
     \<and> r \<in> snd (tree_exec (tree_of fs) rq) \<and> fixed fs' = fixed fs \<and> stays_low fs fs')"

text \<open>What the clients of a front end rely on: a program that answers every request as the tree does.\<close>

locale tree_service =
  fixes exec :: "'x \<Rightarrow> IDKFS \<Rightarrow> fuse_request \<Rightarrow> (IDKFS \<times> int) option"
  assumes serves: "tree_inv fs \<Longrightarrow> request_ok fs rq \<Longrightarrow> refines fs rq (exec x fs rq)"
begin

lemma session_inv:
  "session start exec fs \<Longrightarrow> (\<And>fs. start fs \<Longrightarrow> tree_inv fs \<and> P (fixed fs)) \<Longrightarrow> tree_inv fs \<and> P (fixed fs)"
proof (induction rule: session.induct)
  case (request fs rq x fs' r)
  from serves[OF request.IH[OF request.prems, THEN conjunct1] request.hyps(2), of x] request.hyps(3)
    request.IH[OF request.prems] show ?case by auto
qed

lemma session_refines:
  assumes s: "session start exec fs" and start: "\<And>fs. start fs \<Longrightarrow> tree_inv fs \<and> P (fixed fs)" and rq: "request_ok fs rq"
  shows "tree_inv fs \<and> P (fixed fs) \<and> (\<exists>fs' r. exec x fs rq = Some (fs', r) \<and> session start exec fs'
    \<and> tree_of fs' = fst (tree_exec (tree_of fs) rq) \<and> r \<in> snd (tree_exec (tree_of fs) rq))"
  using serves[OF session_inv[OF s start, THEN conjunct1] rq, of x] session_inv[OF s start] session.request[OF s rq, of x] by auto

end

lemma create_refines:
  assumes inv: "tree_inv fs" and rq: "request_ok fs (Create path mode)"
  shows "refines fs (Create path mode) (fuse_exec q ready e fs (Create path mode))"
proof -
  have fp: "file_path path" using rq by simp
  obtain ts t fs1 where c: "comps path = ts @ [t]" and nm: "nul_free t" "stored_name t = t" and s: "same_files fs fs1"
    and r: "resolve_parent e fs path = Some (fs1, let c = walk (tree_of fs) 0 ts in if c < 0 then Inl c else Inr (nat c, t))"
    by (rule parent_cases[OF inv fp, of e])
  let ?c = "walk (tree_of fs) 0 ts"
  note same = tree_of_same[OF s]
  show ?thesis
  proof (cases "?c < 0")
    case True
    with r inv same c show ?thesis by (simp add: fuse_create_def)
  next
    case False
    have p: "nat ?c \<in> dirs (tree_of fs1)" "t \<notin> fst ` set (entries (tree_of fs1) (nat ?c))"
      using rq False c by (simp_all add: fresh_name_def same(1) Let_def del: tree_of_simps)
    obtain fs' i where m: "idkfs_create e fs1 (nat ?c) t TIER_NORMAL (ucast mode) = Some (fs', i)" "tree_inv fs'"
      "tree_of fs' = fst (tree_create (tree_of fs1) (nat ?c) t)"
      "snd (tree_create (tree_of fs1) (nat ?c) t) = (if i < 0 then - ENOSPC else 0)" "fixed fs' = fixed fs1" "allocates fs1 fs'"
      using create_step[OF _ p, of e TIER_NORMAL "ucast mode"] inv same(2) nm by auto
    with r False c allocates_trans[OF same(4) m(6)] show ?thesis by (simp add: fuse_create_def same(1,3) Let_def allocates_low)
  qed
qed

lemma mkdir_refines:
  assumes inv: "tree_inv fs" and rq: "request_ok fs (Mkdir path mode)"
  shows "refines fs (Mkdir path mode) (fuse_exec q ready e fs (Mkdir path mode))"
proof -
  have fp: "file_path path" using rq by simp
  obtain ts t fs1 where c: "comps path = ts @ [t]" and nm: "nul_free t" "stored_name t = t" and s: "same_files fs fs1"
    and r: "resolve_parent e fs path = Some (fs1, let c = walk (tree_of fs) 0 ts in if c < 0 then Inl c else Inr (nat c, t))"
    by (rule parent_cases[OF inv fp, of e])
  let ?c = "walk (tree_of fs) 0 ts"
  note same = tree_of_same[OF s]
  show ?thesis
  proof (cases "?c < 0")
    case True
    with r inv same c show ?thesis by (simp add: fuse_mkdir_def)
  next
    case False
    have p: "nat ?c \<in> dirs (tree_of fs1)" "t \<notin> fst ` set (entries (tree_of fs1) (nat ?c))"
      using rq False c by (simp_all add: fresh_name_def same(1) Let_def del: tree_of_simps)
    have room: "9 \<le> avail fs1" "i_link_count (inodes fs1 (nat ?c)) + 1 \<noteq> 0"
      using rq False c by (simp_all add: same_files_view[OF s] same_files_inode(3)[OF s] Let_def)
    obtain fs' i where m: "idkfs_mkdir e fs1 (nat ?c) t (ucast mode) = Some (fs', i)" "tree_inv fs'"
      "tree_of fs' = fst (tree_mkdir (tree_of fs1) (nat ?c) t)"
      "snd (tree_mkdir (tree_of fs1) (nat ?c) t) = (if i < 0 then - ENOSPC else 0)" "fixed fs' = fixed fs1" "allocates fs1 fs'"
      using mkdir_step[OF _ p room, of e "ucast mode"] inv same(2) nm by auto
    with r False c allocates_trans[OF same(4) m(6)] show ?thesis by (simp add: fuse_mkdir_def same(1,3) Let_def allocates_low)
  qed
qed

lemma walk_snoc:
  assumes "0 \<le> walk T k (ts @ [t])"
  shows "0 \<le> walk T k ts \<and> nat (walk T k ts) \<in> dirs T
    \<and> (\<exists>ino ty. map_of (entries T (nat (walk T k ts))) (stored_name t) = Some (ino, ty) \<and> walk T k (ts @ [t]) = int (unat ino))"
  using assms by (induction ts arbitrary: k) (auto split: option.splits if_splits)

lemma walk_error: "walk T k ts < 0 \<Longrightarrow> walk T k (ts @ [t]) = walk T k ts"
  by (induction ts arbitrary: k) (auto split: option.splits if_splits)

lemma unlink_refines:
  assumes inv: "tree_inv fs" and rq: "request_ok fs (Unlink path)"
  shows "refines fs (Unlink path) (fuse_exec q ready e fs (Unlink path))"
proof -
  have fp: "file_path path" using rq by simp
  obtain ts t fs1 where c: "comps path = ts @ [t]" "nul_free path" and nm: "nul_free t" "stored_name t = t" and s1: "same_files fs fs1"
    and r1: "resolve_parent e fs path = Some (fs1, let c = walk (tree_of fs) 0 ts in if c < 0 then Inl c else Inr (nat c, t))"
    by (rule parent_cases[OF inv fp, of e])
  let ?p = "walk (tree_of fs) 0 ts" and ?c = "walk (tree_of fs) 0 (ts @ [t])"
  note same1 = tree_of_same[OF s1]
  obtain fs2 where s12: "same_files fs1 fs2" and r2: "resolve_path e fs1 path = Some (fs2, ?c)"
    using resolve_comps[of fs1 path e] inv same1 c by auto
  have s: "same_files fs fs2" by (rule same_files_trans[OF s1 s12])
  note same = tree_of_same[OF s]
  consider (parent) "?p < 0" | (missing) "0 \<le> ?p" "?c < 0" | (dir) "0 \<le> ?p" "0 \<le> ?c" "nat ?c \<in> dirs (tree_of fs)"
    | (gone) "0 \<le> ?p" "0 \<le> ?c" "nat ?c \<notin> dirs (tree_of fs)" by linarith
  then show ?thesis
  proof cases
    case parent
    with r1 inv same1 c(1) walk_error[OF parent, of t] show ?thesis by (simp add: fuse_unlink_def)
  next
    case missing
    with r1 r2 inv same c(1) show ?thesis by (simp add: fuse_unlink_def)
  next
    case dir
    then have "live fs2 (nat ?c)" "i_type (inodes fs2 (nat ?c)) = ft_code IDKFS_FT_DIR"
      using same_files_view[OF s] same_files_inode(1)[OF s] by simp_all
    with dir r1 r2 inv same c(1) show ?thesis by (simp add: fuse_unlink_def live_at del: tree_of_simps)
  next
    case gone
    obtain ino ty where m: "nat ?p \<in> dirs (tree_of fs2)" "map_of (entries (tree_of fs2) (nat ?p)) t = Some (ino, ty)" "?c = int (unat ino)"
      using walk_snoc[OF gone(2)] nm same(1) by (auto simp del: tree_of_simps)
    have k: "unat ino \<notin> dirs (tree_of fs2)" "i_indirect1 (inodes fs2 (unat ino)) = IDKFS_NULL_BLOCK"
      using rq gone m(3) c(1) same(1) by (simp_all add: same_files_inode(5)[OF s] Let_def del: tree_of_simps)
    have l: "live fs2 (unat ino)" using walk_node[OF inv gone(2)] m(3) by (simp add: same_files_view[OF s])
    have ty: "i_type (inodes fs2 (unat ino)) \<noteq> ft_code IDKFS_FT_DIR" using k(1) l by simp
    obtain fs3 fs4 fs5 where u: "release_file (unat ino) fs2 = Some fs3" "idkfs_dir_remove e fs3 (nat ?p) t = Some (fs4, 0)"
      "inode_free fs4 (unat ino) = Some fs5" "tree_inv fs5" "tree_of fs5 = tree_remove (tree_of fs2) (nat ?p) t (unat ino)"
      "fixed fs5 = fixed fs2" "stays_low fs2 fs5"
      using unlink_step[OF _ m(1,2) k, of e] inv same(2) nm by auto
    moreover have "stays_low fs fs5" by (rule stays_low_after[OF same_files_view(12)[OF s] u(7)])
    moreover have "unat ino \<notin> dirs (tree_of fs)" using k(1) by (simp only: same(1) simp_thms)
    ultimately show ?thesis
      using r1 r2 gone m(3) l ty c(1) same(1,3) by (simp add: fuse_unlink_def live_at del: tree_of_simps)
  qed
qed

lemma read_refines:
  assumes inv: "tree_inv fs" and rq: "request_ok fs (Read buf sz off fh)"
  shows "refines fs (Read buf sz off fh) (fuse_exec q ready e fs (Read buf sz off fh))"
proof (cases "handle_ino fh < IDKFS_MAX_INODES")
  case True
  then obtain fs' buf' n where "idkfs_read e fs (handle_ino fh) buf sz off = Some (fs', buf', n)" "same_files fs fs'"
    using read_total[of fs "handle_ino fh" e buf sz off] rq inv by (auto simp: tree_inv_def)
  with True inv tree_of_same[of fs fs'] show ?thesis by (simp add: fuse_read_def)
qed (use inv in \<open>simp add: fuse_read_def\<close>)

lemma write_refines:
  assumes inv: "tree_inv fs" and rq: "request_ok fs (Write buf sz off fh)"
  shows "refines fs (Write buf sz off fh) (fuse_exec q ready e fs (Write buf sz off fh))"
proof (cases "handle_ino fh < IDKFS_MAX_INODES")
  case True
  then obtain fs' r where "idkfs_write e fs (handle_ino fh) buf sz off = Some (fs', r)" "tree_of fs' = tree_of fs" "tree_inv fs'" "fixed fs' = fixed fs" "stays_low fs fs'"
    using write_step_tree[OF inv, of "handle_ino fh" e buf sz off] rq by auto
  with True show ?thesis by (simp add: fuse_write_def)
qed (use inv in \<open>simp add: fuse_write_def\<close>)

lemma exec_refines:
  assumes inv: "tree_inv fs" and rq: "request_ok fs rq"
  shows "refines fs rq (fuse_exec q ready e fs rq)"
proof (cases rq)
  case (Getattr path)
  obtain fs1 where s: "same_files fs fs1" and r: "resolve_path e fs path = Some (fs1, walk (tree_of fs) 0 (comps path))"
    using resolve_comps[OF inv, of path e] rq Getattr by auto
  with Getattr inv tree_of_same[OF s] walk_node[OF inv, of "comps path"] show ?thesis
    by (auto simp: fuse_getattr_def live_at same_files_view[OF s])
next
  case (Readdir path)
  obtain fs' ready' out where "fuse_readdir q e fs ready path = Some (fs', ready',
      (let c = walk (tree_of fs) 0 (comps path) in
       if c < 0 then c else if nat c \<in> dirs (tree_of fs) then 0 else - ENOTDIR), out)" "same_files fs fs'"
    using readdir_total[OF inv, of path q e ready] rq Readdir by auto
  with Readdir inv tree_of_same[of fs fs'] show ?thesis by (simp add: Let_def)
next
  case (Open path)
  obtain fs1 where s: "same_files fs fs1" and r: "resolve_path e fs path = Some (fs1, walk (tree_of fs) 0 (comps path))"
    using resolve_comps[OF inv, of path e] rq Open by auto
  with Open inv tree_of_same[OF s] show ?thesis by (auto simp: fuse_open_def)
next
  case (Read buf sz off fh)
  with read_refines[OF inv, of buf sz off fh] rq show ?thesis by blast
next
  case (Write buf sz off fh)
  with write_refines[OF inv, of buf sz off fh] rq show ?thesis by blast
next
  case (Create path mode)
  with create_refines[OF inv, of path mode] rq show ?thesis by blast
next
  case (Mkdir path mode)
  with mkdir_refines[OF inv, of path mode] rq show ?thesis by blast
next
  case (Unlink path)
  with unlink_refines[OF inv, of path] rq show ?thesis by blast
next
  case (Truncate path sz)
  with set_inode_step[OF inv, of path "\<lambda>i. i\<lparr>i_size := sz\<rparr>" e] rq show ?thesis
    by (auto simp: fuse_truncate_def Let_def simp del: tree_of_simps)
next
  case (Utimens path at mt)
  with set_inode_step[OF inv, of path "\<lambda>i. i\<lparr>i_atime := at, i_mtime := mt\<rparr>" e] rq inv show ?thesis
    by (auto simp: fuse_utimens_def simp del: tree_of_simps)
next
  case (Chmod path mode)
  with set_inode_step[OF inv, of path "\<lambda>i. i\<lparr>i_mode := ucast mode\<rparr>" e] rq show ?thesis
    by (auto simp: fuse_chmod_def simp del: tree_of_simps)
qed (use inv in simp)

lemma root_tree_of:
  assumes live: "\<And>k. live fs k \<longleftrightarrow> k = 0" and d: "i_type (inodes fs 0) = ft_code IDKFS_FT_DIR" "dir_list fs 0 = dot_entries 0 0"
  shows "tree_of fs = root_tree"
proof (rule tree_eqI)
  show "nodes (tree_of fs) = nodes root_tree" by (simp add: root_tree_def set_eq_iff live)
  show "dirs (tree_of fs) = dirs root_tree" using d(1) by (auto simp add: root_tree_def live)
  show "entries (tree_of fs) = entries root_tree" by (rule ext) (use d in \<open>simp add: root_tree_def live\<close>)
qed

lemma mkfs_tree_inv:
  assumes "idkfs_mkfs True True e label f = Some (Some fs)"
  shows "tree_inv fs" "tree_of fs = root_tree"
proof -
  note m = mkfs_tree[OF assms]
  have "live fs k \<longleftrightarrow> k = 0" for k
    using live_not_free[of fs k] m(1,5) by (auto simp: tree_ok_def live_def)
  then show t: "tree_of fs = root_tree" using m(4,6) by (intro root_tree_of)
  have "\<forall>k \<in> dirs (tree_of fs). dir_ok fs k" using m(10) unfolding t by (simp add: root_tree_def)
  then show "tree_inv fs" using m(2) fs_invD(1)[OF m(8)] wf_root_tree unfolding tree_inv_def t by simp
qed

lemma counted_fixed: "counted fs \<longleftrightarrow> fst (fixed fs) = 0"
  by (simp add: counted_gap fixed_def)

lemma formatted_inv: "formatted fs \<Longrightarrow> tree_inv fs \<and> fst (fixed fs) = 0"
  using mkfs_tree_inv mkfs_tree(8) by (auto simp: formatted_def fs_inv_def counted_fixed)

interpretation mem_service: tree_service "\<lambda>(q, ready, e). fuse_exec q ready e"
  by unfold_locales (auto intro: exec_refines)

text \<open>C2: In every state that a FUSE session reaches from a formatted file system by supported requests
  (\<open>request_ok\<close>), the block invariant holds and the directory tree is well-formed; every further supported request is
  answered without an undefined access, changes the tree of names and inodes exactly as the abstract operation does, answers one
  of the numbers the abstract operation allows, and leads to a state of a session again. Supported are
  the requests with proper paths and handles, as the kernel sends them (new names only for \<open>create\<close> and \<open>mkdir\<close>, no writes
  to directories), except three that the kernel may send too: \<open>unlink\<close> of a file with an indirect block, that is one
  written behind its first 49152 bytes; \<open>mkdir\<close> with fewer than 9 free blocks; and \<open>mkdir\<close> where the parent's link count
  of 32 bits would wrap.\<close>

theorem fuse_session_refines_tree:
  assumes "fuse_session fs" "request_ok fs rq"
  shows "fs_inv fs \<and> wf_tree (tree_of fs) \<and> (\<exists>fs' r. fuse_exec q ready e fs rq = Some (fs', r) \<and> fuse_session fs'
    \<and> tree_of fs' = fst (tree_exec (tree_of fs) rq) \<and> r \<in> snd (tree_exec (tree_of fs) rq))"
  using mem_service.session_refines[OF assms(1)[unfolded fuse_session_def] formatted_inv assms(2), of "(q, ready, e)"]
  by (simp add: fuse_session_def tree_inv_def fs_inv_def counted_fixed)

theorem fuse_session_refines_tree_witness:
  "\<exists>fs fs'. idkfs_mkfs True True demo_env [] features_default = Some (Some fs) \<and> fuse_session fs
    \<and> request_ok fs (Create [47, 97] 420)
    \<and> fuse_exec (\<lambda>xs. (xs, True)) False demo_env fs (Create [47, 97] 420) = Some (fs', 0) \<and> fuse_session fs'
    \<and> nodes (tree_of fs') = {0, 1} \<and> entries (tree_of fs') 0 = dot_entries 0 0 @ [([97], 1, ft_code IDKFS_FT_FILE)]"
proof (rule mkfs_start[of demo_env "[]" features_default])
  fix fs assume fs: "idkfs_mkfs True True demo_env [] features_default = Some (Some fs)"
  note m = mkfs_tree[OF fs]
  have se: "fuse_session fs" using fs session.start[of formatted fs] by (auto simp: fuse_session_def formatted_def)
  have g: "good_path [] [97]" "path_of ([] @ [[97]]) = [47, 97]" by (simp_all add: good_path_def component_def path_of_def nul_free_def)
  then have fp: "file_path [47, 97]" unfolding file_path_def by metis
  have "tokens [47, 97] = [[97]]" using tokens_path_of[of "[[97]]"] g(2) by (simp add: component_def)
  then have c: "comps [47, 97] = [[97]]" by (simp add: comps_def)
  have z: "live fs k \<longleftrightarrow> k = 0" for k
    using live_not_free[of fs k] m(1,5) by (auto simp: tree_ok_def live_def)
  have new: "[97] \<notin> fst ` set (dot_entries 0 0)" by (auto simp: dot_entries_def dot_def dotdot_def)
  have rq: "request_ok fs (Create [47, 97] 420)"
    using fp c m(4,6) z new by (simp add: fresh_name_def)
  have min: "free_nodes (tree_of fs) \<noteq> {}" "Min (free_nodes (tree_of fs)) = 1"
    using m(5,7) by (simp_all add: free_nodes_tree)
  have t0: "entries (tree_of fs) 0 = dot_entries 0 0" "nodes (tree_of fs) = {0}"
    using m(4,6) z by (simp_all add: set_eq_iff)
  have len: "length (dot_entries 0 0) = 2" by (simp add: dot_entries_def)
  have t: "tree_exec (tree_of fs) (Create [47, 97] 420) = ((tree_of fs)\<lparr>nodes := {0, 1},
      entries := (entries (tree_of fs))(0 := dot_entries 0 0 @ [([97], 1, ft_code IDKFS_FT_FILE)])\<rparr>, {0})"
    using min c t0 len by (simp add: tree_create_def insert_commute del: tree_of_simps)
  show ?thesis
    using fuse_session_refines_tree[OF se rq, of "\<lambda>xs. (xs, True)" False demo_env] fs se rq unfolding t
    by (force simp del: tree_of_simps fuse_exec.simps request_ok.simps tree_exec.simps)
qed

end
