(* ===== verification/Persist_Session.thy ===== *)
theory Persist_Session
  imports Persist_Proofs Fuse_Session
begin

text \<open>
  The front end on a mapped image, \<^verbatim>\<open>idkfs_persist.c\<close>, serves requests as the one in memory does: it is
  another instance of the interface \<open>tree_service\<close>. What it adds is that a request that changed something
  has written the superblock, the inode table and the first half of the bitmap to the image before it is
  answered; that the second half is lost is shown in \<^verbatim>\<open>Persist_Proofs\<close>.
\<close>

text \<open>The table \<open>idkfs_ops\<close>, without \<open>destroy\<close>.\<close>

fun persist_exec :: "env \<Rightarrow> IDKFS \<Rightarrow> fuse_request \<Rightarrow> (IDKFS \<times> int) option" where
  "persist_exec e fs (Getattr path) = map_option (\<lambda>(fs, r). (fs, err_code r)) (persist_getattr e fs path)"
| "persist_exec e fs (Readdir path) = map_option (\<lambda>(fs, r, _). (fs, r)) (persist_readdir e fs path)"
| "persist_exec e fs (Open path) = map_option (\<lambda>(fs, r). (fs, err_code r)) (persist_open e fs path)"
| "persist_exec e fs (Read buf sz off fh) = map_option (\<lambda>(fs, _, r). (fs, r)) (persist_read e fs buf sz off fh)"
| "persist_exec e fs (Write buf sz off fh) = persist_write e fs buf sz off fh"
| "persist_exec e fs (Create path mode) = map_option (\<lambda>(fs, r). (fs, err_code r)) (persist_create e fs path mode)"
| "persist_exec e fs (Mkdir path mode) = persist_mkdir e fs path mode"
| "persist_exec e fs (Unlink path) = persist_unlink e fs path"
| "persist_exec e fs (Truncate path sz) = persist_truncate e fs path sz"
| "persist_exec e fs (Utimens path at mt) = persist_utimens e fs path at mt"
| "persist_exec e fs (Chmod path mode) = persist_chmod e fs path mode"
| "persist_exec e fs Statfs = Some (fs, 0)"

text \<open>The superblock, the first half of the bitmap and the inode table on the disk are those in memory.\<close>

definition metadata_written :: "IDKFS \<Rightarrow> bool" where
  "metadata_written fs \<longleftrightarrow> (\<forall>i < sizeof_Superblock. disk fs i = Superblock_mem (sb fs) i)
     \<and> (\<forall>i < IDKFS_BLOCK_SIZE. disk fs (IDKFS_BLOCK_SIZE + i) = bitmap fs i)
     \<and> (\<forall>i < IDKFS_MAX_INODES * sizeof_Inode. disk fs (2 * IDKFS_BLOCK_SIZE + i) = inodes_mem (inodes fs) i)"

text \<open>The requests after which this is so, given their answer.\<close>

fun saves :: "fuse_request \<Rightarrow> int \<Rightarrow> bool" where
  "saves (Write _ _ _ fh) r = (handle_ino fh < IDKFS_MAX_INODES)"
| "saves (Create _ _) r = (r = 0)"
| "saves (Mkdir _ _) r = (r = 0)"
| "saves (Unlink _) r = (r = 0)"
| "saves (Truncate _ _) r = (r = 0)"
| "saves (Chmod _ _) r = (r = 0)"
| "saves _ r = False"

section \<open>Writing the metadata keeps the tree\<close>

lemma flush_tree:
  assumes "tree_inv fs"
  shows "\<exists>fs1. idkfs_flush_to_image fs = Some fs1 \<and> tree_inv fs1 \<and> tree_of fs1 = tree_of fs \<and> metadata_written fs1
    \<and> fixed fs1 = fixed fs \<and> allocates fs fs1 \<and> (\<forall>k s b. owns fs1 k s b = owns fs k s b)"
proof -
  have inv: "block_inv fs" "inodes_counted fs" "565248 \<le> disk_size fs"
    using assms inv_geometry[of fs] by (simp_all add: tree_inv_def geometry_def)
  obtain fs1 where f: "idkfs_flush_to_image fs = Some fs1" "fs1 = fs\<lparr>disk := disk fs1\<rparr>"
    "\<And>i. i < sizeof_Superblock \<Longrightarrow> disk fs1 i = Superblock_mem (sb fs) i"
    "\<And>i. i < IDKFS_BLOCK_SIZE \<Longrightarrow> disk fs1 (IDKFS_BLOCK_SIZE + i) = bitmap fs i"
    "\<And>i. i < IDKFS_MAX_INODES * sizeof_Inode \<Longrightarrow> disk fs1 (2 * IDKFS_BLOCK_SIZE + i) = inodes_mem (inodes fs) i"
    "\<And>i. 565248 \<le> i \<Longrightarrow> disk fs1 i = disk fs i"
    using flush_to_image_layout[OF inv(3)] by metis
  have same: "inodes fs1 = inodes fs" "bitmap fs1 = bitmap fs" "disk_size fs1 = disk_size fs" "sb fs1 = sb fs"
    by (subst f(2), simp)+
  note v = meta_write_view[OF inv(1) same(1-3) _ f(6)]
  have "tree_of fs1 = tree_of fs \<and> tree_inv fs1"
    using v inv(2) same assms by (intro tree_frame[OF assms]) (simp_all add: inodes_counted_def live_def free_inode_set_def tree_inv_def)
  moreover have "metadata_written fs1" using f(3-5) by (simp add: metadata_written_def same)
  moreover have "fixed fs1 = fixed fs" by (rule fixed_cong) (simp_all add: same)
  moreover have "allocates fs fs1" "\<forall>k s b. owns fs1 k s b = owns fs k s b" using v(4,5) by (simp_all add: same)
  ultimately show ?thesis using f(1) by blast
qed

text \<open>A request of the front end in memory, followed by writing the metadata.\<close>

lemma refines_flush:
  assumes "refines fs rq (Some (fs', r))"
  shows "\<exists>fs1. idkfs_flush_to_image fs' = Some fs1 \<and> refines fs rq (Some (fs1, r)) \<and> metadata_written fs1"
  using assms flush_tree[of fs'] stays_low_then[of fs fs'] by fastforce

lemma then_flush_never: "(\<And>r. \<not> ok r) \<Longrightarrow> then_flush ok m = m"
  by (cases m) (auto simp: then_flush_def)

lemmas persist_flush =
  persist_is_fuse_then_flush[THEN conjunct1] persist_is_fuse_then_flush[THEN conjunct2, THEN conjunct1]
  persist_is_fuse_then_flush[THEN conjunct2, THEN conjunct2, THEN conjunct1]
  persist_is_fuse_then_flush[THEN conjunct2, THEN conjunct2, THEN conjunct2, THEN conjunct1]
  persist_is_fuse_then_flush[THEN conjunct2, THEN conjunct2, THEN conjunct2, THEN conjunct2, THEN conjunct1]
  persist_is_fuse_then_flush[THEN conjunct2, THEN conjunct2, THEN conjunct2, THEN conjunct2, THEN conjunct2]

lemma create_error: "fuse_create e fs path mode \<noteq> Some (fs', Inl 0)"
  by (auto simp: fuse_create_def bind_eq_Some_conv resolve_parent_error split: prod.splits sum.splits if_splits)

lemma create_flush: "persist_exec e fs (Create path mode) = then_flush (\<lambda>r. r = 0) (fuse_exec q ready e fs (Create path mode))"
proof (cases "fuse_create e fs path mode")
  case (Some v)
  obtain fs' r where v: "v = (fs', r)" by fastforce
  have "r \<noteq> Inl 0" using create_error[of e fs path mode fs'] Some v by auto
  with Some v show ?thesis
    by (cases r; cases "idkfs_flush_to_image fs'") (auto simp: persist_flush(1))
qed (simp add: persist_flush(1))

text \<open>Listing and reading change access times only, and writing the metadata keeps the tree.\<close>

lemma persist_entries_total: "dir_fits d \<Longrightarrow> \<exists>es. persist_entries d i = Some es"
proof (induction d i rule: persist_entries.induct)
  case (1 d i)
  then show ?case
    by (subst persist_entries.simps) (auto simp: dir_fits_def Let_def)
qed

definition plain_request :: "fuse_request \<Rightarrow> bool" where
  "plain_request rq \<longleftrightarrow> (case rq of Readdir _ \<Rightarrow> False | Read _ _ _ _ \<Rightarrow> False | Utimens _ _ _ \<Rightarrow> False | _ \<Rightarrow> True)"

lemma persist_exec_flush:
  assumes "plain_request rq"
  shows "persist_exec e fs rq = then_flush (saves rq) (fuse_exec q ready e fs rq)"
proof (cases rq)
  case (Create path mode)
  have "saves (Create path mode) = (\<lambda>r. r = 0)" by (simp add: fun_eq_iff)
  with Create create_flush[of e fs path mode q ready] show ?thesis by (simp only:)
next
  case (Mkdir path mode)
  have "saves (Mkdir path mode) = (\<lambda>r. r = 0)" by (simp add: fun_eq_iff)
  with Mkdir show ?thesis by (simp add: persist_flush(2))
next
  case (Unlink path)
  have "saves (Unlink path) = (\<lambda>r. r = 0)" by (simp add: fun_eq_iff)
  with Unlink show ?thesis by (simp add: persist_flush(3))
next
  case (Truncate path sz)
  have "saves (Truncate path sz) = (\<lambda>r. r = 0)" by (simp add: fun_eq_iff)
  with Truncate show ?thesis by (simp add: persist_flush(4))
next
  case (Chmod path mode)
  have "saves (Chmod path mode) = (\<lambda>r. r = 0)" by (simp add: fun_eq_iff)
  with Chmod show ?thesis by (simp add: persist_flush(5))
next
  case (Write buf sz off fh)
  have "saves (Write buf sz off fh) = (\<lambda>r. handle_ino fh < IDKFS_MAX_INODES)" by (simp add: fun_eq_iff)
  with Write show ?thesis by (simp add: persist_flush(6))
qed (use assms in \<open>simp_all add: plain_request_def then_flush_never persist_getattr_def persist_open_def\<close>)

lemma persist_readdir_total:
  assumes inv: "tree_inv fs" and path: "nul_free path"
  shows "\<exists>fs' out. persist_readdir e fs path = Some (fs',
      (let c = walk (tree_of fs) 0 (comps path) in
       if c < 0 then c else if nat c \<in> dirs (tree_of fs) then 0 else - ENOTDIR), out) \<and> same_files fs fs'"
proof -
  let ?c = "walk (tree_of fs) 0 (comps path)"
  obtain fs1 where r: "persist_resolve_path e fs path = Some (fs1, ?c)" and s: "same_files fs fs1"
    using resolve_comps[OF inv path] by (auto simp: persist_resolve_path_def)
  note v = same_files_view[OF s] and i = same_files_inode[OF s]
  consider (err) "?c < 0" | (notdir) "0 \<le> ?c" "nat ?c \<notin> dirs (tree_of fs)" | (dir) "0 \<le> ?c" "nat ?c \<in> dirs (tree_of fs)"
    by linarith
  then show ?thesis
  proof cases
    case notdir
    have "live fs (nat ?c)" using walk_node[OF inv notdir(1)] .
    with notdir r s show ?thesis by (simp add: persist_readdir_def live_at v i(1))
  next
    case dir
    have ok: "block_inv fs1" "dir_ok fs1 (nat ?c)" using inv dir(2) by (simp_all add: tree_inv_def v)
    show ?thesis
    proof (cases "i_size (inodes fs1 (nat ?c)) = 0")
      case True
      with dir r s show ?thesis by (simp add: persist_readdir_def live_at v i(1))
    next
      case False
      obtain es where "persist_entries (dir_content fs1 (nat ?c)) 0 = Some es"
        using persist_entries_total dir_ok_fits[OF ok(2)] by blast
      with dir r False same_files_trans[OF s same_files_accessed] show ?thesis
        by (simp add: persist_readdir_def live_at v(2) i(1) dir_read_spec[OF ok False])
    qed
  qed (use r s in \<open>simp add: persist_readdir_def\<close>)
qed

lemma persist_refines:
  assumes inv: "tree_inv fs" and rq: "request_ok fs rq"
  shows "\<exists>fs' r. persist_exec e fs rq = Some (fs', r) \<and> refines fs rq (Some (fs', r)) \<and> (saves rq r \<longrightarrow> metadata_written fs')"
proof (cases "plain_request rq")
  case True
  obtain fs' r where f: "fuse_exec (\<lambda>xs. (xs, True)) False e fs rq = Some (fs', r)" "refines fs rq (Some (fs', r))"
    using exec_refines[OF inv rq, of "\<lambda>xs. (xs, True)" False e] by auto
  obtain fs1 where "idkfs_flush_to_image fs' = Some fs1" "refines fs rq (Some (fs1, r))" "metadata_written fs1"
    using refines_flush[OF f(2)] by blast
  with f persist_exec_flush[OF True, of e fs "\<lambda>xs. (xs, True)" False] show ?thesis
    by (cases "saves rq r") simp_all
next
  case False
  then consider (readdir) path where "rq = Readdir path" | (read) buf sz off fh where "rq = Read buf sz off fh"
    | (utimens) path at mt where "rq = Utimens path at mt"
    by (cases rq) (simp_all add: plain_request_def)
  then show ?thesis
  proof cases
    case readdir
    with rq have "nul_free path" by simp
    then obtain fs' out where r: "persist_readdir e fs path = Some (fs',
        (let c = walk (tree_of fs) 0 (comps path) in
         if c < 0 then c else if nat c \<in> dirs (tree_of fs) then 0 else - ENOTDIR), out)" and s: "same_files fs fs'"
      using persist_readdir_total[OF inv, of path e] by blast
    from r readdir inv tree_of_same[OF s] show ?thesis by (simp add: Let_def)
  next
    case read
    show ?thesis
    proof (cases "handle_ino fh < IDKFS_MAX_INODES")
      case True
      then obtain fs' buf' n where r: "idkfs_read e fs (handle_ino fh) buf sz off = Some (fs', buf', n)" "same_files fs fs'"
        using read_total[of fs "handle_ino fh" e buf sz off] rq read inv by (auto simp: tree_inv_def)
      from tree_of_same[OF r(2)] inv flush_tree[of fs'] obtain fs1 where
        "idkfs_flush_to_image fs' = Some fs1" "tree_inv fs1" "tree_of fs1 = tree_of fs" "fixed fs1 = fixed fs" "stays_low fs fs1"
        using stays_low_then[OF tree_of_same(5)[OF r(2)]] by auto
      with r(1) True read show ?thesis by (simp add: persist_read_def)
    qed (use read inv in \<open>simp add: persist_read_def\<close>)
  next
    case utimens
    let ?f = "\<lambda>i. i\<lparr>i_atime := at, i_mtime := mt\<rparr>"
    obtain fs' where s: "set_inode e fs path ?f = Some (fs', min 0 (walk (tree_of fs) 0 (comps path)))"
      "tree_of fs' = tree_of fs" "tree_inv fs'" "fixed fs' = fixed fs" "stays_low fs fs'"
      using set_inode_step[OF inv, of path ?f e] rq utimens by (auto simp del: tree_of_simps)
    obtain fs1 where f: "idkfs_flush_to_image fs' = Some fs1" "tree_inv fs1" "tree_of fs1 = tree_of fs'" "fixed fs1 = fixed fs'" "allocates fs' fs1"
      using flush_tree[OF s(3)] by blast
    have "stays_low fs fs1" by (rule stays_low_then[OF s(5) f(5)])
    with f utimens s inv set_inode_flush[of e fs path ?f] show ?thesis
      by (cases "0 \<le> walk (tree_of fs) 0 (comps path)") (simp_all add: persist_utimens_def)
  qed
qed

interpretation image_service: tree_service persist_exec
  by unfold_locales (use persist_refines in blast)

text \<open>C7: The front end on an image answers the supported requests (\<open>request_ok\<close>) as the one in memory does: in every
  state with the invariant of the tree it answers without an undefined access, keeps the invariant and changes
  the tree of names and inodes exactly as the abstract operation does. Supported are the requests with proper paths and handles,
  as the kernel sends them, except \<open>unlink\<close> of a file with an indirect block (one written behind its first 49152 bytes),
  \<open>mkdir\<close> with fewer than 9 free blocks, and \<open>mkdir\<close> where the parent's link count of 32 bits would wrap. And when it answers success to creating, making a directory,
  removing, truncating or changing a mode, or to a write on a valid handle whatever it answers, the
  superblock and the inode table in the image are the current ones. The count of free blocks stays right if it was.\<close>

theorem persist_refines_tree:
  assumes "tree_inv fs" "request_ok fs rq"
  shows "\<exists>fs' r. persist_exec e fs rq = Some (fs', r) \<and> tree_inv fs' \<and> tree_of fs' = fst (tree_exec (tree_of fs) rq)
    \<and> r \<in> snd (tree_exec (tree_of fs) rq) \<and> (saves rq r \<longrightarrow> metadata_written fs')
    \<and> (counted fs \<longrightarrow> counted fs')"
  using persist_refines[OF assms, of e] fixed_counted by blast

theorem persist_refines_tree_witness:
  "\<exists>fs fs'. idkfs_mkfs True True demo_env [] features_default = Some (Some fs) \<and> tree_inv fs
    \<and> request_ok fs (Chmod [47] 420) \<and> persist_exec demo_env fs (Chmod [47] 420) = Some (fs', 0)
    \<and> tree_inv fs' \<and> metadata_written fs'"
proof (rule mkfs_start[of demo_env "[]" features_default])
  fix fs assume fs: "idkfs_mkfs True True demo_env [] features_default = Some (Some fs)"
  have inv: "tree_inv fs" by (rule mkfs_tree_inv[OF fs])
  have rq: "request_ok fs (Chmod [47] 420)" by (simp add: nul_free_def)
  have "comps [47] = []" by (simp add: comps_def tokens.simps[of "[47]"])
  then have "snd (tree_exec (tree_of fs) (Chmod [47] 420)) = {0}" by simp
  with persist_refines_tree[OF inv rq, of demo_env] fs inv rq show ?thesis by auto
qed

end
