(* ===== verification/Persist_Life.thy ===== *)
theory Persist_Life
  imports Persist_Session
begin

text \<open>
  The life of an image file: formatted once with \<open>--mkfs\<close>, then any number of times mounted with \<open>--image\<close>,
  used, and unmounted, or abandoned by a process that is killed. After a mount the second half of the bitmap
  holds bytes of the inode table, so that the counter \<open>free_blocks\<close> and the bits of the blocks from 32768 on mean
  nothing any more; but the blocks that files own stay owned by one file each and marked used, as long as
  they lie below block 32768. They do as long as a block below 32768 is free after every request.
\<close>

section \<open>Mounting what was flushed\<close>

lemma flush_written:
  assumes size: "565248 \<le> disk_size fs" and w: "metadata_written fs"
  shows "idkfs_flush_to_image fs = Some fs"
proof -
  obtain fs1 where f: "idkfs_flush_to_image fs = Some fs1" "fs1 = fs\<lparr>disk := disk fs1\<rparr>"
    by (rule flush_to_image_layout[OF size])
  let ?d1 = "memcpy (disk fs) 0 (Superblock_mem (sb fs)) 0 sizeof_Superblock"
  let ?d2 = "memcpy ?d1 IDKFS_BLOCK_SIZE (bitmap fs) 0 BITMAP_SIZE"
  let ?d3 = "memcpy ?d2 (2 * IDKFS_BLOCK_SIZE) (inodes_mem (inodes fs)) 0 (IDKFS_MAX_INODES * sizeof_Inode)"
  have d: "disk fs1 = ?d3" using f(1) size meta_size by (auto simp: idkfs_flush_to_image_def Let_def)
  have sbw: "disk fs i = Superblock_mem (sb fs) i" if "i < sizeof_Superblock" for i
    using w that by (simp add: metadata_written_def)
  have bmw: "disk fs (IDKFS_BLOCK_SIZE + i) = bitmap fs i" if "i < IDKFS_BLOCK_SIZE" for i
    using w that by (simp add: metadata_written_def)
  have inw: "disk fs (2 * IDKFS_BLOCK_SIZE + i) = inodes_mem (inodes fs) i" if "i < IDKFS_MAX_INODES * sizeof_Inode" for i
    using w that by (simp add: metadata_written_def)
  have "?d3 i = disk fs i" for i
    using sbw[of i] bmw[of "i - IDKFS_BLOCK_SIZE"] inw[of "i - 2 * IDKFS_BLOCK_SIZE"] by (auto simp: memcpy_def layout_simps)
  then have "disk fs1 = disk fs" using d by (simp add: fun_eq_iff)
  with f show ?thesis by simp
qed

lemma loaded_owns:
  assumes inv: "block_inv fs" and inode: "\<And>k. k < IDKFS_MAX_INODES \<Longrightarrow> inodes fs2 k = norm_Inode (inodes fs k)"
    and disk: "\<And>i. 565248 \<le> i \<Longrightarrow> disk fs2 i = disk fs i"
  shows "owns fs2 k s b = owns fs k s b"
proof (cases "live fs k")
  case True
  then have e: "inodes fs2 k = norm_Inode (inodes fs k)" by (intro inode) (simp add: live_def)
  have "ptr_at fs2 (unat (i_indirect1 (inodes fs k))) j = ptr_at fs (unat (i_indirect1 (inodes fs k))) j"
    if "j < IDKFS_PTRS_PER_BLOCK" "i_indirect1 (inodes fs k) \<noteq> IDKFS_NULL_BLOCK" for j
  proof (rule same_block_ptr[OF _ that(1)])
    have "138 \<le> unat (i_indirect1 (inodes fs k))"
      using inv_owned[OF inv owns_SInd[OF True that(2)]] inv_start[OF inv] by simp
    then show "same_block fs fs2 (unat (i_indirect1 (inodes fs k)))"
      using image_block_kept[of "disk fs2" "disk fs", OF disk] by (simp add: same_block_def)
  qed
  then have "slot_val fs2 k s = slot_val fs k s" by (cases s) (auto simp: e norm_Inode_def)
  then show ?thesis by (simp add: owns_def live_def e) (simp add: norm_Inode_def)
next
  case False
  then have "\<not> live fs2 k" using inode[of k] by (auto simp: live_def norm_Inode_def)
  with False show ?thesis by (simp add: owns_def)
qed

text \<open>The states of a mounted image, with the tree they show.\<close>

definition mounted_ok :: "IDKFS \<Rightarrow> tree \<Rightarrow> bool" where
  "mounted_ok fs T \<longleftrightarrow> tree_inv fs \<and> tree_of fs = T \<and> sb_magic (sb fs) = IDKFS_MAGIC \<and> data_start fs \<le> 32768
     \<and> disk_size fs = IDKFS_IMAGE_SIZE \<and> below 32768 fs"

lemma mounted_size: "mounted_ok fs T \<Longrightarrow> 565248 \<le> disk_size fs"
  by (simp add: mounted_ok_def)

lemma mounted_fixed:
  assumes "mounted_ok fs T" "tree_inv fs'" "tree_of fs' = T'" "fixed fs' = fixed fs" "below 32768 fs'"
  shows "mounted_ok fs' T'"
  using assms fixedD[OF assms(4)] by (simp add: mounted_ok_def)

lemma mounted_flush:
  assumes ok: "mounted_ok fs T"
  shows "\<exists>fs1. idkfs_flush_to_image fs = Some fs1 \<and> mounted_ok fs1 T \<and> metadata_written fs1"
proof -
  have "tree_inv fs" using ok by (simp add: mounted_ok_def)
  then obtain fs1 where f: "idkfs_flush_to_image fs = Some fs1" "tree_inv fs1" "tree_of fs1 = tree_of fs" "metadata_written fs1"
    "fixed fs1 = fixed fs" "\<forall>k s b. owns fs1 k s b = owns fs k s b"
    using flush_tree by blast
  then have "mounted_ok fs1 T" using ok by (intro mounted_fixed[OF ok]) (simp_all add: mounted_ok_def below_def)
  with f(1,4) show ?thesis by blast
qed

lemma load_mounted:
  assumes ok: "mounted_ok fs T" and w: "metadata_written fs"
  shows "\<exists>fs2. load_image e (disk fs) IDKFS_IMAGE_SIZE = Some fs2 \<and> mounted_ok fs2 T"
proof -
  have inv: "tree_inv fs" "block_inv fs" "inodes_counted fs" and magic: "sb_magic (sb fs) = IDKFS_MAGIC"
    and ds: "data_start fs \<le> 32768" and low: "below 32768 fs" and T: "tree_of fs = T"
    using ok unfolding mounted_ok_def tree_inv_def by blast+
  obtain fs2 where l: "load_image e (disk fs) IDKFS_IMAGE_SIZE = Some fs2"
    "sb fs2 = (norm_Superblock (sb fs))\<lparr>sb_last_mounted := now e, sb_mount_count := sb_mount_count (sb fs) + 1\<rparr>"
    "\<And>k. k < IDKFS_MAX_INODES \<Longrightarrow> inodes fs2 k = norm_Inode (inodes fs k)"
    "\<And>i. i < IDKFS_BLOCK_SIZE \<Longrightarrow> bitmap fs2 i = bitmap fs i" "disk_size fs2 = IDKFS_IMAGE_SIZE"
    "\<And>i. 565248 \<le> i \<Longrightarrow> disk fs2 i = disk fs i"
    using load_flushed[OF mounted_size[OF ok] magic flush_written[OF mounted_size[OF ok] w], of e IDKFS_IMAGE_SIZE] by metis
  have o: "owns fs2 k s b = owns fs k s b" for k s b by (rule loaded_owns[OF inv(2)]) (simp_all add: l(3,6))
  have link: "i_link_count (inodes fs2 k) = i_link_count (inodes fs k)" "i_type (inodes fs2 k) = i_type (inodes fs k)"
    if "k < IDKFS_MAX_INODES" for k using l(3)[OF that] by (simp_all add: norm_Inode_def)
  have live: "live fs2 k = live fs k" for k using link(1)[of k] by (auto simp: live_def)
  have sb: "data_start fs2 = data_start fs" "sb_magic (sb fs2) = IDKFS_MAGIC" "sb_free_inodes (sb fs2) = sb_free_inodes (sb fs)"
    using magic by (simp_all add: l(2) data_start_def norm_Superblock_def)
  have u: "used (bitmap fs2) b = used (bitmap fs) b" if "b < 32768" for b using l(4)[of "b div 8"] that by (simp add: used_def)
  have "geometry fs2"
    using inv_geometry[OF inv(2)] ds u by (auto simp: geometry_def sb l(5))
  moreover have "b < 32768" if "owns fs k s b" for k s b using low that by (simp add: below_def)
  ultimately have "block_inv fs2"
    unfolding block_inv_def o using inv_owned[OF inv(2)] inv_inj[OF inv(2)] u sb(1) by metis
  moreover have "inodes_counted fs2"
    using inv(3) link(1) by (simp add: inodes_counted_def live sb free_inode_set_def cong: conj_cong)
  moreover have "dir_list fs2 k = dir_list fs k \<and> dir_ok fs2 k" if "k \<in> dirs (tree_of fs)" for k
    using loaded_files[OF inv(2) _ l(3,6), of k] that inv(1) by (auto simp: tree_inv_def live_def)
  ultimately have "tree_of fs2 = tree_of fs \<and> tree_inv fs2"
    using link(2) by (intro tree_frame[OF inv(1)]) (simp_all add: live, simp add: live_def)
  moreover have "below 32768 fs2" using low by (simp add: below_def o)
  ultimately show ?thesis using l(1,5) sb ds T by (simp add: mounted_ok_def)
qed

section \<open>Mount cycles\<close>

text \<open>An image file at rest, or a process that has it mounted.\<close>

datatype phase = Detached mem | Attached IDKFS DiskImage

text \<open>What happens to an image, beside the tree of directories that the requests served so far have built. A
  process may be killed whenever the metadata in the image are the current ones: the mapping is shared, so the
  file then holds what the process had written.\<close>

inductive image_life :: "phase \<Rightarrow> tree \<Rightarrow> bool" where
  mkfs: "main_mkfs calloc_ok e os1 os2 path = Some (0, Some bytes) \<Longrightarrow> image_life (Detached bytes) root_tree"
| mount: "image_life (Detached bytes) T \<Longrightarrow>
    main_image calloc_ok e (os\<lparr>file_size := IDKFS_IMAGE_SIZE, file_bytes := bytes\<rparr>) path = Some (Inr (fs, img)) \<Longrightarrow>
    image_life (Attached fs img) T"
| request: "image_life (Attached fs img) T \<Longrightarrow> request_ok fs rq \<Longrightarrow> persist_exec e fs rq = Some (fs', r) \<Longrightarrow>
    room_below 32768 fs' \<Longrightarrow> image_life (Attached fs' img) (fst (tree_exec T rq))"
| unmount: "image_life (Attached fs img) T \<Longrightarrow> idkfs_fuse_destroy (Some fs) img = Some (None, img', Some bytes) \<Longrightarrow>
    image_life (Detached bytes) T"
| killed: "image_life (Attached fs img) T \<Longrightarrow> metadata_written fs \<Longrightarrow> image_life (Detached (disk fs)) T"

fun life_ok :: "phase \<Rightarrow> tree \<Rightarrow> bool" where
  "life_ok (Detached bytes) T = (\<exists>fs. mounted_ok fs T \<and> metadata_written fs \<and> bytes = disk fs)"
| "life_ok (Attached fs img) T = mounted_ok fs T"

lemma format_mounted:
  assumes "format_image e m IDKFS_IMAGE_SIZE = Some fs"
  shows "mounted_ok fs root_tree"
proof -
  obtain fs' where "format_image e m IDKFS_IMAGE_SIZE = Some fs'" and f: "fs_inv fs'" "inodes_counted fs'" "dir_ok fs' 0"
    "dir_list fs' 0 = dot_entries 0 0" "sb_magic (sb fs') = IDKFS_MAGIC" "i_type (inodes fs' 0) = ft_code IDKFS_FT_DIR"
    "disk_size fs' = IDKFS_IMAGE_SIZE" "\<forall>k. live fs' k \<longleftrightarrow> k = 0" "data_start fs' = 138" "below 32768 fs'"
    using format_image_spec[of IDKFS_IMAGE_SIZE e m] by auto
  with assms have eq: "fs' = fs" by simp
  have t: "tree_of fs' = root_tree" using f(4,6,8) by (intro root_tree_of) simp_all
  have "\<forall>k \<in> dirs (tree_of fs'). dir_ok fs' k" using f(3) unfolding t by (simp add: root_tree_def)
  then have "tree_inv fs'" using fs_invD(1)[OF f(1)] f(2) wf_root_tree unfolding tree_inv_def t by simp
  with f t show ?thesis unfolding eq[symmetric] by (simp add: mounted_ok_def)
qed

lemma mkfs_life:
  assumes "main_mkfs calloc_ok e os1 os2 path = Some (0, Some bytes)"
  shows "life_ok (Detached bytes) root_tree"
proof -
  obtain fs fs1 where f: "format_image e zeros IDKFS_IMAGE_SIZE = Some fs" "idkfs_flush_to_image fs = Some fs1" "bytes = disk fs1"
    using assms by (auto simp: main_mkfs_def image_create_def image_open_def idkfs_mount_image_def image_close_def
        attached_image_def Let_def bind_eq_Some_conv split: if_splits option.splits)
  with mounted_flush[OF format_mounted[OF f(1)]] show ?thesis by auto
qed

lemma mkfs_loads:
  assumes "main_mkfs calloc_ok e os1 os2 path = Some (0, Some bytes)"
  shows "\<exists>fs. load_image e' bytes IDKFS_IMAGE_SIZE = Some fs \<and> tree_of fs = root_tree"
proof -
  obtain fs0 where "mounted_ok fs0 root_tree" "metadata_written fs0" "bytes = disk fs0" using mkfs_life[OF assms] by auto
  with load_mounted[of fs0 root_tree e'] show ?thesis by (auto simp: mounted_ok_def)
qed

lemma mount_life:
  assumes d: "life_ok (Detached bytes) T"
    and m: "main_image calloc_ok e (os\<lparr>file_size := IDKFS_IMAGE_SIZE, file_bytes := bytes\<rparr>) path = Some (Inr (fs, img))"
  shows "mounted_ok fs T"
proof -
  obtain fs0 where fs0: "mounted_ok fs0 T" "metadata_written fs0" "bytes = disk fs0" using d by auto
  from load_mounted[OF fs0(1,2), of e] fs0(3) m show ?thesis
    by (auto simp: main_image_def image_open_def idkfs_mount_image_def Let_def split: if_splits option.splits)
qed

lemma main_mkfs_cases:
  "main_mkfs calloc_ok e os1 os2 path =
     (if 0 \<le> open_fd os1 \<and> ftruncate_ok os1 \<and> 0 \<le> open_fd os2 \<and> fstat_ok os2 \<and> mmap_ok os2 \<and> calloc_ok
      then map_option (\<lambda>fs. (0, Some (disk fs))) (format_image e zeros IDKFS_IMAGE_SIZE \<bind> idkfs_flush_to_image)
      else Some (1, None))"
  using meta_size
  by (cases "format_image e zeros IDKFS_IMAGE_SIZE")
    (auto simp: main_mkfs_def image_create_def image_open_def idkfs_mount_image_def image_close_def attached_image_def Let_def
      map_option_bind comp_def map_conv_bind_option split: option.splits)

lemma mkfs_succeeds:
  assumes "0 \<le> open_fd os1" "ftruncate_ok os1" "0 \<le> open_fd os2" "fstat_ok os2" "mmap_ok os2"
  shows "\<exists>bytes. main_mkfs True e os1 os2 path = Some (0, Some bytes)"
proof -
  obtain fs where f: "format_image e zeros IDKFS_IMAGE_SIZE = Some fs"
    using format_image_spec[of IDKFS_IMAGE_SIZE e zeros] by auto
  with assms mounted_flush[OF format_mounted[OF f]] show ?thesis by (auto simp: main_mkfs_cases)
qed

text \<open>What is stored can be mounted, unless the operating system refuses.\<close>

lemma mount_succeeds:
  assumes d: "life_ok (Detached bytes) T" and os: "0 \<le> open_fd os" "fstat_ok os" "mmap_ok os"
  shows "\<exists>fs img. main_image True e (os\<lparr>file_size := IDKFS_IMAGE_SIZE, file_bytes := bytes\<rparr>) path = Some (Inr (fs, img))
    \<and> tree_of fs = T"
proof -
  obtain fs0 where fs0: "mounted_ok fs0 T" "metadata_written fs0" "bytes = disk fs0" using d by auto
  obtain fs where l: "load_image e bytes IDKFS_IMAGE_SIZE = Some fs" "tree_of fs = T"
    using load_mounted[OF fs0(1,2), of e] fs0(3) by (auto simp: mounted_ok_def)
  have "rd32 bytes 0 = IDKFS_MAGIC" using l(1) by (simp add: load_image_def split: if_splits)
  with os l meta_size show ?thesis by (simp add: main_image_def image_open_def idkfs_mount_image_def Let_def)
qed

lemma destroy_life:
  assumes "mounted_ok fs T"
  shows "\<exists>img' bytes. idkfs_fuse_destroy (Some fs) img = Some (None, img', Some bytes) \<and> life_ok (Detached bytes) T"
  using mounted_flush[OF assms] by (auto simp: idkfs_fuse_destroy_def image_close_def attached_image_def)

lemma request_life:
  assumes ok: "mounted_ok fs T" and rq: "request_ok fs rq"
  shows "\<exists>fs' r. persist_exec e fs rq = Some (fs', r) \<and> tree_of fs' = fst (tree_exec T rq) \<and> r \<in> snd (tree_exec T rq)
    \<and> (saves rq r \<longrightarrow> metadata_written fs') \<and> (room_below 32768 fs' \<longrightarrow> mounted_ok fs' (fst (tree_exec T rq)))"
proof -
  have inv: "tree_inv fs" and T: "tree_of fs = T" and low: "below 32768 fs" using ok by (simp_all add: mounted_ok_def)
  obtain fs' r where r: "persist_exec e fs rq = Some (fs', r)" "tree_inv fs'" "tree_of fs' = fst (tree_exec T rq)"
    "r \<in> snd (tree_exec T rq)" "fixed fs' = fixed fs" "stays_low fs fs'" "saves rq r \<longrightarrow> metadata_written fs'"
    using persist_refines[OF inv rq, of e] T by auto
  have "below 32768 fs'" if "room_below 32768 fs'" using r(6) low that by (simp add: stays_low_def)
  with r mounted_fixed[OF ok r(2,3,5)] show ?thesis by blast
qed

lemma image_life_ok: "image_life ph T \<Longrightarrow> life_ok ph T"
proof (induction rule: image_life.induct)
  case (request fs img T rq e fs' r)
  from request_life[of fs T rq e] request show ?case by auto
next
  case (unmount fs img T img' bytes)
  with destroy_life[of fs T img] show ?case by simp
qed (auto intro: mkfs_life mount_life simp del: life_ok.simps(1), auto)

text \<open>C1: Over the whole life of an image, formatted once and then mounted and unmounted (or left by a killed process
  whose last request had been saved) any number of times, nothing of the directory tree is lost, as long as a
  block below 32768 is free after every request and all requests are supported ones (\<open>request_ok\<close>): an image at rest can be
  mounted whenever the operating system allows it and shows the tree of names and inodes that all requests so far have
  built; a mounted image shows this tree, answers every further supported request as the abstract tree does, without an
  undefined access, and can be unmounted. Supported are the requests with proper paths and handles, as the kernel
  sends them, except \<open>unlink\<close> of a file with an indirect block (one written behind its first 49152 bytes), \<open>mkdir\<close> with
  fewer than 9 free blocks, and \<open>mkdir\<close> where the parent's link count of 32 bits would wrap.\<close>

theorem image_life_keeps_tree:
  assumes "image_life ph T"
  shows "case ph of
      Detached bytes \<Rightarrow> (\<forall>e os path. 0 \<le> open_fd os \<longrightarrow> fstat_ok os \<longrightarrow> mmap_ok os \<longrightarrow>
        (\<exists>fs img. main_image True e (os\<lparr>file_size := IDKFS_IMAGE_SIZE, file_bytes := bytes\<rparr>) path = Some (Inr (fs, img))
          \<and> image_life (Attached fs img) T \<and> tree_of fs = T))
    | Attached fs img \<Rightarrow> tree_inv fs \<and> tree_of fs = T
        \<and> (\<forall>e rq. request_ok fs rq \<longrightarrow> (\<exists>fs' r. persist_exec e fs rq = Some (fs', r)
            \<and> tree_of fs' = fst (tree_exec T rq) \<and> r \<in> snd (tree_exec T rq) \<and> (saves rq r \<longrightarrow> metadata_written fs')))
        \<and> (\<exists>img' bytes. idkfs_fuse_destroy (Some fs) img = Some (None, img', Some bytes) \<and> image_life (Detached bytes) T)"
proof (cases ph)
  case (Detached bytes)
  with image_life_ok[OF assms] mount_succeeds[of bytes T] image_life.mount[OF assms[unfolded Detached]] show ?thesis
    by (simp del: life_ok.simps) blast
next
  case (Attached fs img)
  then have ok: "mounted_ok fs T" using image_life_ok[OF assms] by simp
  have "\<exists>img' bytes. idkfs_fuse_destroy (Some fs) img = Some (None, img', Some bytes) \<and> image_life (Detached bytes) T"
    using destroy_life[OF ok, of img] image_life.unmount[of fs img T] assms Attached by blast
  moreover have "tree_inv fs \<and> tree_of fs = T" using ok by (simp add: mounted_ok_def)
  ultimately show ?thesis using request_life[OF ok] Attached by simp blast
qed

definition good_os :: os_answers where
  "good_os = \<lparr>open_fd = 3, ftruncate_ok = True, fstat_ok = True, mmap_ok = True, file_size = 0, file_bytes = zeros\<rparr>"

theorem image_life_keeps_tree_witness:
  "\<exists>bytes fs img img' bytes'. main_mkfs True demo_env good_os good_os [97] = Some (0, Some bytes)
    \<and> main_image True demo_env (good_os\<lparr>file_size := IDKFS_IMAGE_SIZE, file_bytes := bytes\<rparr>) [97] = Some (Inr (fs, img))
    \<and> tree_of fs = root_tree \<and> image_life (Attached fs img) root_tree
    \<and> idkfs_fuse_destroy (Some fs) img = Some (None, img', Some bytes') \<and> image_life (Detached bytes') root_tree"
proof -
  have os: "0 \<le> open_fd good_os" "ftruncate_ok good_os" "fstat_ok good_os" "mmap_ok good_os" by (simp_all add: good_os_def)
  obtain bytes where b: "main_mkfs True demo_env good_os good_os [97] = Some (0, Some bytes)"
    using mkfs_succeeds[OF os(1,2,1,3,4)] by blast
  then have life: "image_life (Detached bytes) root_tree" by (rule image_life.mkfs)
  obtain fs img where m: "main_image True demo_env (good_os\<lparr>file_size := IDKFS_IMAGE_SIZE, file_bytes := bytes\<rparr>) [97] = Some (Inr (fs, img))"
    and at: "image_life (Attached fs img) root_tree" "tree_of fs = root_tree"
    using image_life_keeps_tree[OF life] os by simp blast
  with b image_life_keeps_tree[OF at(1)] show ?thesis by simp
qed

section \<open>The program\<close>

lemma main_image_cases:
  "main_image calloc_ok e os path =
     (if 0 \<le> open_fd os \<and> fstat_ok os \<and> IDKFS_IMAGE_SIZE \<le> file_size os \<and> mmap_ok os \<and> calloc_ok
         \<and> rd32 (file_bytes os) 0 = IDKFS_MAGIC
      then map_option (\<lambda>fs. Inr (fs, fst (image_open os zero_image path))) (load_image e (file_bytes os) (file_size os))
      else Some (Inl 1))"
  using meta_size
  by (cases "load_image e (file_bytes os) (file_size os)")
    (auto simp: main_image_def image_open_def idkfs_mount_image_def Let_def load_image_def split: if_splits)

text \<open>C33: The program \<^verbatim>\<open>idkfs\<close> on an image comes to an end, or hands over to FUSE, for every argument vector, every
  answer of the operating system and every image file, without an undefined access. It exits with 0 exactly
  for \<open>--mkfs\<close> with a path when every system call succeeds, and then leaves an image that loads, whenever it
  is mounted, as a file system with inode 0 as its only one, a directory that lists ``.'' and ``..'' and nothing else; it serves exactly for \<open>--image\<close> with a path and a mount point when the calls succeed and the file is
  large enough and has the magic number, with the flag and the path cut out of the arguments; and it exits with
  1 otherwise.\<close>

theorem persist_main_total:
  "\<exists>out. persist_main calloc_ok e os1 os2 argv = Some out \<and>
    (if 3 \<le> length argv \<and> argv ! 1 = mkfs_flag \<and> calloc_ok \<and> 0 \<le> open_fd os1 \<and> ftruncate_ok os1
        \<and> 0 \<le> open_fd os2 \<and> fstat_ok os2 \<and> mmap_ok os2
     then \<exists>bytes. out = Exit 0 (Some bytes) \<and> (\<forall>e'. \<exists>fs. load_image e' bytes IDKFS_IMAGE_SIZE = Some fs
       \<and> tree_of fs = \<lparr>nodes = {0}, dirs = {0}, entries = (\<lambda>_. [])(0 := [(dot, 0, ft_code IDKFS_FT_DIR), (dotdot, 0, ft_code IDKFS_FT_DIR)])\<rparr>)
     else if 4 \<le> length argv \<and> argv ! 1 = image_flag \<and> calloc_ok \<and> 0 \<le> open_fd os1 \<and> fstat_ok os1
        \<and> IDKFS_IMAGE_SIZE \<le> file_size os1 \<and> mmap_ok os1 \<and> rd32 (file_bytes os1) 0 = IDKFS_MAGIC
     then \<exists>fs img. out = Serve fs img (argv ! 0 # drop 3 argv) \<and> load_image e (file_bytes os1) (file_size os1) = Some fs
     else out = Exit 1 None)"
proof -
  let ?A = "0 \<le> open_fd os1 \<and> ftruncate_ok os1 \<and> 0 \<le> open_fd os2 \<and> fstat_ok os2 \<and> mmap_ok os2 \<and> calloc_ok"
  let ?B = "0 \<le> open_fd os1 \<and> fstat_ok os1 \<and> IDKFS_IMAGE_SIZE \<le> file_size os1 \<and> mmap_ok os1 \<and> calloc_ok
         \<and> rd32 (file_bytes os1) 0 = IDKFS_MAGIC"
  have ne: "image_flag \<noteq> mkfs_flag" by (simp add: image_flag_def mkfs_flag_def)
  consider (mkfs) "3 \<le> length argv" "argv ! 1 = mkfs_flag" ?A | (serve) "4 \<le> length argv" "argv ! 1 = image_flag" ?B
    | (no) "\<not> (3 \<le> length argv \<and> argv ! 1 = mkfs_flag \<and> ?A)" "\<not> (4 \<le> length argv \<and> argv ! 1 = image_flag \<and> ?B)" by blast
  then show ?thesis
  proof cases
    case mkfs
    then obtain bytes where b: "main_mkfs calloc_ok e os1 os2 (argv ! 2) = Some (0, Some bytes)"
      using mkfs_succeeds[of os1 os2 e "argv ! 2"] by auto
    with mkfs mkfs_loads[OF b] show ?thesis by (simp add: persist_main_def root_tree_def dot_entries_def)
  next
    case serve
    then obtain fs where "load_image e (file_bytes os1) (file_size os1) = Some fs" by (auto simp: load_image_def Let_def)
    with serve ne show ?thesis by (simp add: persist_main_def main_image_cases)
  next
    case no
    then have "main_mkfs calloc_ok e os1 os2 (argv ! 2) = Some (1, None)" if "3 \<le> length argv" "argv ! 1 = mkfs_flag"
      using that by (auto simp: main_mkfs_cases)
    moreover have "main_image calloc_ok e os1 (argv ! 2) = Some (Inl 1)" if "4 \<le> length argv" "argv ! 1 = image_flag"
      using no that by (auto simp: main_image_cases)
    ultimately show ?thesis using no by (auto simp: persist_main_def not_less)
  qed
qed

end
