(* ===== verification/Fuse_Main.thy ===== *)
theory Fuse_Main
  imports Fuse_Session
begin

text \<open>
  The program \<^verbatim>\<open>idkfs_fuse.c\<close> from start to end: it formats a file system in memory, loads the sorting script,
  serves the requests that \<open>fuse_main\<close> delivers, one after the other, closes the interpreter and frees the file
  system. The requests and the result of \<open>fuse_main\<close> are arguments.
\<close>

section \<open>The program\<close>

text \<open>One request, with the sorter: only a listing can change it. \<open>qs s\<close> is \<open>qsort\<close> with the Lua comparison of a
  sorter in state \<open>s\<close>.\<close>

type_synonym sort_call = "sorter \<Rightarrow> SortCandidate list \<Rightarrow> SortCandidate list \<times> bool"

fun proc_exec :: "sort_call \<Rightarrow> env \<Rightarrow> IDKFS \<times> sorter \<Rightarrow> fuse_request \<Rightarrow> ((IDKFS \<times> sorter) \<times> int) option" where
  "proc_exec qs e (fs, s) (Readdir path) =
     map_option (\<lambda>(fs, ready, r, _). ((fs, s\<lparr>sort_ready := ready\<rparr>), r)) (fuse_readdir (qs s) e fs (sort_ready s) path)"
| "proc_exec qs e (fs, s) rq = map_option (\<lambda>(fs, r). ((fs, s), r)) (fuse_exec (qs s) (sort_ready s) e fs rq)"

fun serve :: "sort_call \<Rightarrow> IDKFS \<times> sorter \<Rightarrow> (env \<times> fuse_request) list \<Rightarrow> ((IDKFS \<times> sorter) \<times> int list) option" where
  "serve qs p [] = Some (p, [])"
| "serve qs p ((e, rq) # rqs) = do {
     (p, r) \<leftarrow> proc_exec qs e p rq;
     (p, rs) \<leftarrow> serve qs p rqs;
     Some (p, r # rs) }"

definition program_label :: cstr where
  "program_label = [105, 100, 107, 102, 115]"

text \<open>The exit status, the answers given, the sorter and \<open>gfs\<close> at the end.\<close>

definition fuse_program ::
  "bool \<Rightarrow> bool \<Rightarrow> env \<Rightarrow> lua_answers \<Rightarrow> sort_call \<Rightarrow> (env \<times> fuse_request) list \<Rightarrow> int
    \<Rightarrow> (int \<times> int list \<times> sorter \<times> IDKFS option) option" where
  "fuse_program calloc_ok disk_ok e l qs rqs ret = do {
     gfs \<leftarrow> idkfs_mkfs calloc_ok disk_ok e program_label features_default;
     case gfs of
       None \<Rightarrow> Some (1, [], sorter_boot, None)
     | Some fs \<Rightarrow> do {
         let s = (if sorting (features fs) then fst (sorting_init l sorter_boot) else sorter_boot);
         ((fs, s), rs) \<leftarrow> serve qs (fs, s) rqs;
         let s = sorting_shutdown s;
         gfs \<leftarrow> idkfs_destroy (Some fs);
         Some (ret, rs, s, gfs) } }"

section \<open>What it serves\<close>

text \<open>Every request is a supported one (\<open>request_ok\<close>) in the state it meets.\<close>

fun requests_ok :: "sort_call \<Rightarrow> IDKFS \<times> sorter \<Rightarrow> (env \<times> fuse_request) list \<Rightarrow> bool" where
  "requests_ok qs p [] = True"
| "requests_ok qs p ((e, rq) # rqs) = (request_ok (fst p) rq
     \<and> (case proc_exec qs e p rq of None \<Rightarrow> True | Some (p, r) \<Rightarrow> requests_ok qs p rqs))"

text \<open>The answers that the abstract tree allows.\<close>

fun tree_run :: "tree \<Rightarrow> fuse_request list \<Rightarrow> int list \<Rightarrow> bool" where
  "tree_run T [] [] = True"
| "tree_run T (rq # rqs) (r # rs) = (r \<in> snd (tree_exec T rq) \<and> tree_run (fst (tree_exec T rq)) rqs rs)"
| "tree_run T _ _ = False"

definition sorter_ok :: "sorter \<Rightarrow> bool" where
  "sorter_ok s \<longleftrightarrow> (sort_ready s \<longrightarrow> sort_L s)"

lemma sorter_ok_boot: "sorter_ok (fst (sorting_init l sorter_boot))" "sorter_ok sorter_boot"
  by (simp_all add: sorter_ok_def sorting_init_def sorter_boot_def sorting_shutdown_def Let_def)

lemma readdir_unready: "fuse_readdir q e fs False path = Some (fs', ready', r, out) \<Longrightarrow> \<not> ready'"
  by (auto simp: fuse_readdir_def Let_def bind_eq_Some_conv split: prod.splits if_splits)

lemma proc_exec_refines:
  assumes inv: "tree_inv fs" and rq: "request_ok fs rq" and s: "sorter_ok s"
  shows "\<exists>fs' s' r. proc_exec qs e (fs, s) rq = Some ((fs', s'), r) \<and> tree_inv fs' \<and> sorter_ok s'
    \<and> tree_of fs' = fst (tree_exec (tree_of fs) rq) \<and> r \<in> snd (tree_exec (tree_of fs) rq)"
proof -
  obtain fs' r where x: "fuse_exec (qs s) (sort_ready s) e fs rq = Some (fs', r)" "tree_inv fs'"
    "tree_of fs' = fst (tree_exec (tree_of fs) rq)" "r \<in> snd (tree_exec (tree_of fs) rq)"
    using exec_refines[OF inv rq, of "qs s" "sort_ready s" e] by auto
  show ?thesis
  proof (cases "\<exists>path. rq = Readdir path")
    case True
    then obtain path where p: "rq = Readdir path" by blast
    with x(1) obtain ready' out where d: "fuse_readdir (qs s) e fs (sort_ready s) path = Some (fs', ready', r, out)" by auto
    have "sorter_ok (s\<lparr>sort_ready := ready'\<rparr>)"
      using s d readdir_unready[of "qs s" e fs path fs' ready' r out] by (cases "sort_ready s") (auto simp: sorter_ok_def)
    with p d x(2-4) show ?thesis by simp
  next
    case False
    then have "proc_exec qs e (fs, s) rq = map_option (\<lambda>(fs, r). ((fs, s), r)) (fuse_exec (qs s) (sort_ready s) e fs rq)"
      by (cases rq) simp_all
    with x s show ?thesis by simp
  qed
qed

lemma serve_refines:
  "tree_inv fs \<Longrightarrow> sorter_ok s \<Longrightarrow> requests_ok qs (fs, s) rqs \<Longrightarrow>
   \<exists>fs' s' rs. serve qs (fs, s) rqs = Some ((fs', s'), rs) \<and> tree_inv fs' \<and> sorter_ok s' \<and> tree_run (tree_of fs) (map snd rqs) rs"
proof (induction rqs arbitrary: fs s)
  case (Cons x rqs)
  obtain e rq where x: "x = (e, rq)" by fastforce
  obtain fs1 s1 r where 1: "proc_exec qs e (fs, s) rq = Some ((fs1, s1), r)" "tree_inv fs1" "sorter_ok s1"
    "tree_of fs1 = fst (tree_exec (tree_of fs) rq)" "r \<in> snd (tree_exec (tree_of fs) rq)"
    using proc_exec_refines[of fs rq s qs e] Cons.prems x by auto
  have "requests_ok qs (fs1, s1) rqs" using Cons.prems(3) x 1(1) by simp
  from Cons.IH[OF 1(2,3) this] 1 x show ?case by auto
qed simp

text \<open>C12: The program serves a whole session to its end: when its allocations succeed, then for every sequence of
  requests that are supported (\<open>request_ok\<close>) when they come, and whatever the Lua interpreter does, it answers each of them,
  with the numbers that the abstract directory tree allows when it starts with an empty root and follows the requests;
  then it closes the interpreter, frees the file system and exits with the result of \<open>fuse_main\<close>. There is no
  undefined access on the way. Supported are the requests with proper paths and handles, as the kernel sends
  them, except \<open>unlink\<close> of a file with an indirect block (one written behind its first 49152 bytes), \<open>mkdir\<close> with fewer than
  9 free blocks, and \<open>mkdir\<close> where the parent's link count of 32 bits would wrap.\<close>

theorem fuse_program_serves:
  assumes "idkfs_mkfs True True e program_label features_default = Some (Some fs)"
    and "requests_ok qs (fs, fst (sorting_init l sorter_boot)) rqs"
  shows "\<exists>rs s. fuse_program True True e l qs rqs ret = Some (ret, rs, s, None)
    \<and> tree_run root_tree (map snd rqs) rs \<and> \<not> sort_L s \<and> \<not> sort_ready s"
proof -
  note m = mkfs_tree_inv[OF assms(1)]
  obtain fs' s rs where v: "serve qs (fs, fst (sorting_init l sorter_boot)) rqs = Some ((fs', s), rs)" "tree_inv fs'"
    "sorter_ok s" "tree_run root_tree (map snd rqs) rs"
    using serve_refines[OF m(1) sorter_ok_boot(1) assms(2)] m(2) by auto
  have "565248 \<le> disk_size fs'" using v(2) inv_geometry[of fs'] by (simp add: tree_inv_def geometry_def)
  then have "\<exists>x. idkfs_flush fs' = Some x" by (simp add: idkfs_flush_def Let_def layout_simps)
  then have "idkfs_destroy (Some fs') = Some None" by (auto simp: idkfs_destroy_def)
  moreover have "sorting (features fs)"
    by (rule mkfs_start[of e program_label features_default]) (use assms(1) in \<open>simp add: features_default_def\<close>)
  moreover have "\<not> sort_L (sorting_shutdown s)" "\<not> sort_ready (sorting_shutdown s)"
    using v(3) by (auto simp: sorter_ok_def sorting_shutdown_def)
  ultimately show ?thesis using assms(1) v(1,4) by (auto simp: fuse_program_def)
qed

theorem fuse_program_serves_witness:
  "\<exists>rs s. fuse_program True True demo_env \<lparr>newstate_ok = True, loadfile_ok = True, run_ok = True, compare_is_function = True, new_ref = 3\<rparr>
      (\<lambda>s xs. (xs, True)) [(demo_env, Statfs), (demo_env, Getattr [47])] 0 = Some (0, rs, s, None)
    \<and> tree_run root_tree [Statfs, Getattr [47]] rs \<and> \<not> sort_L s"
proof (rule mkfs_start[of demo_env program_label features_default])
  let ?l = "\<lparr>newstate_ok = True, loadfile_ok = True, run_ok = True, compare_is_function = True, new_ref = 3\<rparr>"
  fix fs assume fs: "idkfs_mkfs True True demo_env program_label features_default = Some (Some fs)"
  have "requests_ok (\<lambda>s xs. (xs, True)) (fs, fst (sorting_init ?l sorter_boot)) [(demo_env, Statfs), (demo_env, Getattr [47])]"
    by (simp add: nul_free_def split: option.splits)
  from fuse_program_serves[OF fs this, of 0] show ?thesis by auto
qed

end
