(* ===== verification/Fuse_Indirect.thy ===== *)
theory Fuse_Indirect
  imports Fuse_Unlink
begin

text \<open>
  \<open>fuse_unlink\<close> of a file with an indirect block. The entries of a fresh indirect block are zero, and the loop
  that releases them skips \<open>UINT32_MAX\<close> only, so that it clears the bit of block 0 as well. The rest of the
  operation runs on a state without the block invariant; but a directory that has all of its blocks is
  read and written back without a look at the bitmap, so that it runs as on the state with the
  bitmap from before.
\<close>

section \<open>Releasing the pointers\<close>

text \<open>What releasing blocks changes: the bitmap and the counter.\<close>

abbreviation (input) freed :: "IDKFS \<Rightarrow> mem \<Rightarrow> u32 \<Rightarrow> IDKFS" where
  "freed fs bm n \<equiv> fs\<lparr>bitmap := bm, sb := (sb fs)\<lparr>sb_free_blocks := n\<rparr>\<rparr>"

lemma release_ptrs_spec:
  assumes "\<forall>p \<in> set ps. p \<noteq> IDKFS_NULL_BLOCK \<longrightarrow> unat p < IDKFS_TOTAL_BLOCKS"
  shows "\<exists>bm n. release_ptrs ps fs = Some (freed fs bm n)
    \<and> (\<forall>x. used bm x \<longleftrightarrow> used (bitmap fs) x \<and> x \<notin> unat ` (set ps - {IDKFS_NULL_BLOCK}))"
  using assms
proof (induction ps arbitrary: fs)
  case Nil
  then show ?case by (intro exI[of _ "bitmap fs"] exI[of _ "sb_free_blocks (sb fs)"]) simp
next
  case (Cons p ps)
  show ?case
  proof (cases "p = IDKFS_NULL_BLOCK")
    case True
    with Cons show ?thesis by (auto simp: insert_Diff_if)
  next
    case False
    with Cons.prems obtain bm where bm: "bitmap_clear (bitmap fs) (unat p) = Some bm"
      using bitmap_clear_Some[of "unat p"] by auto
    let ?fs1 = "freed fs bm (sb_free_blocks (sb fs) + 1)"
    obtain bm' n where r: "release_ptrs ps ?fs1 = Some (freed ?fs1 bm' n)"
      "\<forall>x. used bm' x \<longleftrightarrow> used bm x \<and> x \<notin> unat ` (set ps - {IDKFS_NULL_BLOCK})"
      using Cons.IH[of ?fs1] Cons.prems by auto
    have "set (p # ps) - {IDKFS_NULL_BLOCK} = insert p (set ps - {IDKFS_NULL_BLOCK})" using False by auto
    with r bitmap_clear_used[OF bm] False bm show ?thesis
      by (intro exI[of _ bm'] exI[of _ n]) (auto simp: release_block_def)
  qed
qed

lemma release_indirect_spec:
  assumes inv: "block_inv fs" and live: "live fs k" and ind: "i_indirect1 (inodes fs k) \<noteq> IDKFS_NULL_BLOCK"
    and zero: "j < IDKFS_PTRS_PER_BLOCK" "ptr_at fs (unat (i_indirect1 (inodes fs k))) j = 0"
  shows "\<exists>bm n. release_indirect k fs = Some (upd_inode (freed fs bm n) k (\<lambda>i. i\<lparr>i_indirect1 := IDKFS_NULL_BLOCK\<rparr>))
    \<and> \<not> used bm 0"
proof -
  let ?ib = "unat (i_indirect1 (inodes fs k))"
  note o = inv_owned[OF inv owns_SInd[OF live ind]]
  have ok: "block_ok fs ?ib" using o by (intro geometry_block_ok[OF inv_geometry[OF inv]]) simp
  let ?ptrs = "map (\<lambda>p. rd32 (memcpy zeros 0 (disk fs) (block_ptr ?ib) IDKFS_BLOCK_SIZE) (4 * p)) [0..<IDKFS_PTRS_PER_BLOCK]"
  have ptrs: "?ptrs = map (ptr_at fs ?ib) [0..<IDKFS_PTRS_PER_BLOCK]"
    by (rule map_cong) (simp_all add: rd32_block_read)
  have small: "unat (ptr_at fs ?ib i) < IDKFS_TOTAL_BLOCKS"
    if "i < IDKFS_PTRS_PER_BLOCK" "ptr_at fs ?ib i \<noteq> IDKFS_NULL_BLOCK" for i
  proof (cases "ptr_at fs ?ib i = 0")
    case False
    then have "owns fs k (SPtr i) (unat (ptr_at fs ?ib i))" using that live ind by (simp add: owns_def)
    from inv_owned[OF inv this] show ?thesis by simp
  qed simp
  obtain bm1 n where r: "release_ptrs (map (ptr_at fs ?ib) [0..<IDKFS_PTRS_PER_BLOCK]) fs = Some (freed fs bm1 n)"
    "\<forall>x. used bm1 x \<longleftrightarrow> used (bitmap fs) x
       \<and> x \<notin> unat ` (set (map (ptr_at fs ?ib) [0..<IDKFS_PTRS_PER_BLOCK]) - {IDKFS_NULL_BLOCK})"
    using release_ptrs_spec[of "map (ptr_at fs ?ib) [0..<IDKFS_PTRS_PER_BLOCK]" fs] small by auto
  have "0 \<in> set (map (ptr_at fs ?ib) [0..<IDKFS_PTRS_PER_BLOCK]) - {IDKFS_NULL_BLOCK}"
    using zero by (force simp: image_iff IDKFS_NULL_BLOCK_def)
  from imageI[OF this, of unat] have z: "\<not> used bm1 0" using r(2) by (simp only: unat_0) blast
  obtain bm where bm: "bitmap_clear bm1 ?ib = Some bm" using bitmap_clear_Some[of ?ib] o by auto
  have "\<not> used bm 0" using bitmap_clear_used[OF bm] z by simp
  then show ?thesis
    using ind r(1) bm
    by (intro exI[of _ bm] exI[of _ "n + 1"])
      (simp add: release_indirect_def block_read_Some[OF ok] ptrs release_block_def Let_def)
qed

section \<open>Directory operations do not look at the bitmap\<close>

lemma blind_simps [simp]:
  "inode_at (fs\<lparr>bitmap := bm\<rparr>) k = inode_at fs k" "block_ok (fs\<lparr>bitmap := bm\<rparr>) b = block_ok fs b"
  "block_read (fs\<lparr>bitmap := bm\<rparr>) b = block_read fs b" "inode_get_block (fs\<lparr>bitmap := bm\<rparr>) k l = inode_get_block fs k l"
  by (simp_all add: inode_at_def block_ok_def block_read_def inode_get_block_def Let_def)

lemma blind_upd_inode: "upd_inode (fs\<lparr>bitmap := bm\<rparr>) k f = (upd_inode fs k f)\<lparr>bitmap := bm\<rparr>"
  by (simp add: upd_inode_def)

lemma blind_read_loop: "read_loop (fs\<lparr>bitmap := bm\<rparr>) k off count tot out = read_loop fs k off count tot out"
proof (induction fs k off count tot out rule: read_loop.induct)
  case (1 fs k off count tot out)
  then show ?case
    by (subst (1 2) read_loop.simps) (auto split: bind_splits)
qed

lemma blind_dir_read:
  "dir_read e (fs\<lparr>bitmap := bm\<rparr>) k = map_option (\<lambda>(fs, d). (fs\<lparr>bitmap := bm\<rparr>, d)) (dir_read e fs k)"
  by (auto simp: dir_read_def idkfs_read_def blind_read_loop blind_upd_inode Let_def split: bind_splits)

text \<open>The blocks that a write touches are there.\<close>

definition in_place :: "IDKFS \<Rightarrow> nat \<Rightarrow> nat \<Rightarrow> nat \<Rightarrow> bool" where
  "in_place fs k off count \<longleftrightarrow> (\<forall>t < count. io_logical off t < IDKFS_DIRECT_BLOCKS
     \<and> i_direct (inodes fs k) (io_logical off t) \<noteq> IDKFS_NULL_BLOCK)"

lemma in_place_step:
  assumes "in_place fs k off count" "tot < count" "write_step fs k src off count tot = Some (fs', ok)"
  shows "write_step (fs\<lparr>bitmap := bm\<rparr>) k src off count tot = Some (fs'\<lparr>bitmap := bm\<rparr>, ok)" "in_place fs' k off count"
  using assms
  by (auto simp: in_place_def write_step_def write_target_def inode_get_block_def block_write_def inode_at_def
      split: if_splits bind_splits)

lemma blind_write_loop:
  "in_place fs k off count \<Longrightarrow> write_loop fs k src off count tot = Some (fs', r) \<Longrightarrow>
   write_loop (fs\<lparr>bitmap := bm\<rparr>) k src off count tot = Some (fs'\<lparr>bitmap := bm\<rparr>, r)"
proof (induction fs k src off count tot rule: write_loop.induct)
  case (1 fs k src off count tot)
  show ?case
  proof (cases "tot < count")
    case True
    then obtain fs1 ok where s: "write_step fs k src off count tot = Some (fs1, ok)"
      using "1.prems"(2) by (subst (asm) write_loop.simps) (auto simp: bind_eq_Some_conv)
    note st = in_place_step[OF "1.prems"(1) True s]
    show ?thesis
      using "1.IH"[OF True s refl _ st(2)] "1.prems"(2) True s st(1) by (subst (asm) write_loop.simps, subst write_loop.simps) (auto split: if_splits)
  next
    case False
    with "1.prems" show ?thesis by (simp add: write_loop.simps)
  qed
qed

lemma blind_write_finish: "write_finish e (fs\<lparr>bitmap := bm\<rparr>) k n = (write_finish e fs k n)\<lparr>bitmap := bm\<rparr>"
  by (simp add: write_finish_def Let_def blind_upd_inode)

lemma blind_dir_write:
  assumes "in_place fs k 0 sizeof_Directory" "dir_write e fs k d = Some fs'"
  shows "dir_write e (fs\<lparr>bitmap := bm\<rparr>) k d = Some (fs'\<lparr>bitmap := bm\<rparr>)"
proof -
  obtain fs1 r where l: "write_loop fs k (Directory_mem d) 0 sizeof_Directory 0 = Some (fs1, r)" and at: "inode_at fs k \<noteq> None"
    using assms(2) by (auto simp: dir_write_def idkfs_write_def size_word bind_eq_Some_conv)
  from blind_write_loop[OF assms(1) l, of bm] l at assms(2) show ?thesis
    by (auto simp: dir_write_def idkfs_write_def size_word blind_write_finish split: option.splits)
qed

lemma mapped_in_place:
  assumes ok: "dir_ok fs k" and size: "i_size (inodes fs k) \<noteq> 0"
  shows "in_place fs k 0 sizeof_Directory"
  unfolding in_place_def
proof (intro allI impI)
  fix t assume t: "t < sizeof_Directory"
  have m: "fbyte fs k t \<noteq> None" using ok size t by (auto simp: dir_ok_def)
  have "io_logical 0 t = t div IDKFS_BLOCK_SIZE"
    using t by (simp add: io_logical_def io_pos_def layout_simps)
  moreover have "t div IDKFS_BLOCK_SIZE < IDKFS_DIRECT_BLOCKS" using t by (simp add: layout_simps)
  ultimately show "io_logical 0 t < IDKFS_DIRECT_BLOCKS \<and> i_direct (inodes fs k) (io_logical 0 t) \<noteq> IDKFS_NULL_BLOCK"
    using m by (auto simp: fbyte_def Let_def)
qed

lemma blind_dir_remove:
  assumes inv: "block_inv fs" and ok: "dir_ok fs k" "i_size (inodes fs k) \<noteq> 0"
    and run: "idkfs_dir_remove e fs k name = Some (fs', r)"
  shows "idkfs_dir_remove e (fs\<lparr>bitmap := bm\<rparr>) k name = Some (fs'\<lparr>bitmap := bm\<rparr>, r)"
proof -
  have "in_place (accessed e fs k) k 0 sizeof_Directory"
    using mapped_in_place[OF ok] by (simp add: in_place_def)
  note w = blind_dir_write[OF this, of e _ _ bm]
  show ?thesis
    using run ok(2) dir_read_spec[OF inv ok] blind_dir_read[where e = e and fs = fs and bm = bm]
    by (auto simp: idkfs_dir_remove_def bind_eq_Some_conv dir_ok_at[OF ok(1)] w split: if_splits option.splits)
qed

section \<open>Unlinking\<close>

text \<open>The blocks of the file are released: then its ownership is gone, and with the bitmap from before the
  invariant still holds.\<close>

lemma release_indirect_file:
  assumes inv: "block_inv fs" and live: "live fs k" and ind: "i_indirect1 (inodes fs k) \<noteq> IDKFS_NULL_BLOCK"
    and zero: "j < IDKFS_PTRS_PER_BLOCK" "ptr_at fs (unat (i_indirect1 (inodes fs k))) j = 0"
  shows "\<exists>fs' bm. release_file k fs = Some fs' \<and> \<not> used (bitmap fs') 0 \<and> block_inv (fs'\<lparr>bitmap := bm\<rparr>)
    \<and> others_kept k fs (fs'\<lparr>bitmap := bm\<rparr>) \<and> live fs' k"
proof -
  obtain fs1 where 1: "release_directs k [0..<IDKFS_DIRECT_BLOCKS] fs = Some fs1" "release_ok k fs fs1"
    using release_directs_spec[OF inv live, of "[0..<IDKFS_DIRECT_BLOCKS]"] by auto
  have s: "step_kept k fs fs1" "disk fs1 = disk fs" "i_indirect1 (inodes fs1 k) = i_indirect1 (inodes fs k)"
    using 1(2) by (simp_all add: release_ok_def)
  have inv1: "block_inv fs1" and live1: "live fs1 k" using step_kept_inv[OF s(1)] step_kept_live[OF s(1)] live by simp_all
  have "ptr_at fs1 (unat (i_indirect1 (inodes fs1 k))) j = 0" using zero(2) s(2,3) by (simp add: ptr_at_def)
  then obtain bm n where 2: "release_indirect k fs1 = Some (upd_inode (freed fs1 bm n) k (\<lambda>i. i\<lparr>i_indirect1 := IDKFS_NULL_BLOCK\<rparr>))"
    "\<not> used bm 0"
    using release_indirect_spec[OF inv1 live1 _ zero(1)] ind s(3) by auto
  define fs3 where "fs3 = upd_inode (upd_inode (freed fs1 bm n) k (\<lambda>i. i\<lparr>i_indirect1 := IDKFS_NULL_BLOCK\<rparr>)) k
      (\<lambda>i. i\<lparr>i_size := 0, i_block_count := 0\<rparr>)"
  let ?g = "fs3\<lparr>bitmap := bitmap fs1\<rparr>"
  have run: "release_file k fs = Some fs3" using 1(1) 2(1) by (simp add: release_file_def fs3_def)
  have g: "bitmap ?g = bitmap fs1" "disk ?g = disk fs1" "disk_size ?g = disk_size fs1" "data_start ?g = data_start fs1"
    "\<And>k'. k' \<noteq> k \<Longrightarrow> inodes ?g k' = inodes fs1 k'"
    by (simp_all add: fs3_def data_start_def)
  have kept: "others_kept k fs1 ?g" using g(2,5) by (simp add: others_kept_def disk_same_block)
  have own: "owns fs1 k' t b" if "owns ?g k' t b" for k' t b
  proof (cases "k' = k")
    case False
    with that others_kept_owns[OF kept] show ?thesis by blast
  next
    case True
    with that show ?thesis by (cases t) (auto simp: owns_def live_def fs3_def ptr_at_def split: if_splits)
  qed
  have "geometry ?g" using inv_geometry[OF inv1] by (simp add: geometry_def g)
  then have "block_inv ?g" by (rule inv_keep[OF inv1 _ g(4) own]) (simp_all add: g(1))
  moreover have "others_kept k fs ?g" using others_kept_trans[OF _ kept] s(1) by (simp add: step_kept_def)
  moreover have "live fs3 k" using live1 by (simp add: fs3_def live_def)
  moreover have "\<not> used (bitmap fs3) 0" using 2(2) by (simp add: fs3_def)
  ultimately show ?thesis using run by blast
qed

text \<open>C30: \<open>fuse_unlink\<close> of a file whose indirect block has a zero entry, in a well-formed tree, returns 0 but
  leaves the bit of block 0, which holds the superblock, cleared in the bitmap, so that the block invariant is broken. The write
  that makes the indirect block of a file leaves 1023 such entries: a fresh indirect block is filled with zeros, while
  releasing skips \<open>UINT32_MAX\<close> only.\<close>

theorem unlink_indirect_frees_superblock:
  assumes ok: "tree_ok fs" and g: "good_path ts t"
    and p: "tree_walk fs 0 ts = int p" "i_type (inodes fs p) = ft_code IDKFS_FT_DIR"
    and f: "map_of (dir_list fs p) t = Some (ino, type)" "i_type (inodes fs (unat ino)) \<noteq> ft_code IDKFS_FT_DIR"
      "i_indirect1 (inodes fs (unat ino)) \<noteq> IDKFS_NULL_BLOCK"
    and zero: "j < IDKFS_PTRS_PER_BLOCK" "ptr_at fs (unat (i_indirect1 (inodes fs (unat ino)))) j = 0"
  shows "\<exists>fs'. fuse_unlink e fs (path_of (ts @ [t])) = Some (fs', 0) \<and> \<not> used (bitmap fs') 0 \<and> \<not> block_inv fs'"
proof -
  let ?k = "unat ino" and ?path = "path_of (ts @ [t])"
  obtain fs1 where r1: "resolve_parent e fs ?path = Some (fs1, Inr (p, t))" and s1: "same_files fs fs1"
    using resolve_parent_spec[OF ok g, of e] p(1) by auto
  have nm: "nul_free t" "stored_name t = t" using good_path_names[OF g] by simp_all
  have lp: "live fs p" using tree_walk_live[OF ok, of 0 ts] ok p(1) by (simp add: tree_ok_def)
  have w: "tree_walk fs 0 (ts @ [t]) = int ?k" by (rule tree_walk_snoc[OF p]) (simp add: nm f)
  obtain fs2 where r2: "resolve_path e fs1 ?path = Some (fs2, int ?k)" and s2: "same_files fs fs2"
    using resolve_whole[of fs1 ts t e] ok g tree_ok_same[OF s1] tree_walk_same[OF s1] w same_files_trans[OF s1] by auto
  note v = same_files_view[OF s2] and i = same_files_inode[OF s2]
  have lk: "live fs ?k" by (rule tree_ok_entry[OF ok lp p(2) f(1)])
  have k0: "p \<noteq> ?k" using f(2) p(2) by metis
  have hit: "t \<in> fst ` set (dir_list fs2 p)" using f(1) by (simp add: v) (metis domI dom_map_of_conv_image_fst)
  have c: "block_inv fs2" "live fs2 ?k" "i_indirect1 (inodes fs2 ?k) \<noteq> IDKFS_NULL_BLOCK" "dir_ok fs2 p"
    "i_type (inodes fs2 p) = ft_code IDKFS_FT_DIR" "ptr_at fs2 (unat (i_indirect1 (inodes fs2 ?k))) j = 0"
    using ok lk f(3) tree_ok_dir[OF ok lp p(2)] p(2) zero(2) by (simp_all add: v i tree_ok_def ptr_at_def same_files_fields[OF s2])
  obtain fs3 bm where r3: "release_file ?k fs2 = Some fs3" "\<not> used (bitmap fs3) 0" "block_inv (fs3\<lparr>bitmap := bm\<rparr>)"
    "others_kept ?k fs2 (fs3\<lparr>bitmap := bm\<rparr>)" "live fs3 ?k"
    using release_indirect_file[OF c(1-3) zero(1) c(6)] by blast
  let ?g = "fs3\<lparr>bitmap := bm\<rparr>"
  have dp: "dir_ok ?g p" "dir_list ?g p = dir_list fs2 p" "inodes ?g p = inodes fs2 p"
    using others_kept_dir[OF r3(4) k0 dir_ok_live[OF c(4)]] c(4) r3(4) k0 by (simp_all add: others_kept_def)
  have sz: "i_size (inodes ?g p) \<noteq> 0" using dir_list_empty[of ?g p] dp(2) hit by auto
  obtain fs4 where r4: "idkfs_dir_remove e ?g p t = Some (fs4, 0)" and s4: "dir_step p ?g fs4"
    using dir_remove_spec[OF r3(3) dp(1) _ nm(1), of e] mapped_need[OF dp(1) sz] c(5) hit dp(2,3)
    by (auto simp: dir_room_def nm)
  have r4': "idkfs_dir_remove e fs3 p t = Some (fs4\<lparr>bitmap := bitmap fs3\<rparr>, 0)"
    using blind_dir_remove[OF r3(3) dp(1) sz r4, of "bitmap fs3"] by simp
  define fs5 where "fs5 = install (fs4\<lparr>bitmap := bitmap fs3\<rparr>) ?k zero_Inode (sb_free_inodes (sb fs4) + 1)"
  have "?k < IDKFS_MAX_INODES" using lk by (simp add: live_def)
  then have run: "fuse_unlink e fs ?path = Some (fs5, 0)"
    using r1 r2 r3(1) r4' f(2) i(1) by (simp add: fuse_unlink_def inode_at_def inode_free_def install_def fs5_def)
  have n: "\<not> used (bitmap fs5) 0" using r3(2) by (simp add: fs5_def)
  have "138 \<le> data_start fs4" using inv_geometry[OF dir_step_inv[OF s4]] by (simp add: geometry_def)
  then have "0 < data_start fs5" by (simp add: fs5_def data_start_def)
  with n have "\<not> block_inv fs5" by (auto simp: block_inv_def geometry_def)
  with run n show ?thesis by blast
qed

text \<open>Writing to a file keeps the tree.\<close>

lemma write_tree_ok:
  assumes ok: "tree_ok fs" and s: "block_inv fs'" "others_kept k fs fs'" "i_type (inodes fs' k) = i_type (inodes fs k)" "live fs' k"
    and f: "live fs k" "i_type (inodes fs k) \<noteq> ft_code IDKFS_FT_DIR"
  shows "tree_ok fs'" "dir_list fs' 0 = dir_list fs 0" "i_type (inodes fs' 0) = i_type (inodes fs 0)"
proof -
  have i: "inodes fs' k' = inodes fs k'" if "k' \<noteq> k" for k' using s(2) that by (simp add: others_kept_def)
  have l: "live fs' k' = live fs k'" for k' using s(4) f(1) i[of k'] by (cases "k' = k") (simp_all add: live_def)
  have root: "live fs 0" "i_type (inodes fs 0) = ft_code IDKFS_FT_DIR" using ok by (simp_all add: tree_ok_def)
  then have "0 \<noteq> k" using f(2) by metis
  note r = others_kept_dir(2)[OF s(2) this root(1)] i[OF this]
  then show "dir_list fs' 0 = dir_list fs 0" "i_type (inodes fs' 0) = i_type (inodes fs 0)" by simp_all
  have "dir_ok fs' k' \<and> (\<forall>en \<in> set (dir_list fs' k'). live fs' (unat (fst (snd en))))"
    if "live fs' k'" "i_type (inodes fs' k') = ft_code IDKFS_FT_DIR" for k'
  proof -
    have "k' \<noteq> k" using that(2) f(2) s(3) by metis
    with that i[of k'] l[of k'] others_kept_dir[OF s(2), of k'] ok show ?thesis by (simp add: tree_ok_def l)
  qed
  then show "tree_ok fs'" using s(1) root l[of 0] r(2) by (simp add: tree_ok_def)
qed

text \<open>The first byte behind the direct blocks: the write makes an indirect block with one entry.\<close>

lemma write_first_indirect:
  assumes inv: "block_inv fs" and live: "live fs k" and none: "i_indirect1 (inodes fs k) = IDKFS_NULL_BLOCK"
    and space: "2 \<le> avail fs"
  shows "\<exists>fs'. idkfs_write e fs k buf 1 49152 = Some (fs', 1) \<and> i_indirect1 (inodes fs' k) \<noteq> IDKFS_NULL_BLOCK
    \<and> ptr_at fs' (unat (i_indirect1 (inodes fs' k))) 1 = 0"
proof -
  obtain fs1 b where w: "write_target fs k 12 = Some (fs1, Some b)" "live fs1 k" "block_inv fs1"
      "i_indirect1 (inodes fs1 k) \<noteq> IDKFS_NULL_BLOCK" "ptr_at fs1 (unat (i_indirect1 (inodes fs1 k))) 1 = 0"
    using write_target_first_indirect[OF inv live none, of 0] space by auto
  let ?ib = "unat (i_indirect1 (inodes fs1 k))"
  have wr: "writable fs1 k b" using write_target_spec[OF inv live, of 12] w(1) by auto
  then have bib: "b \<noteq> ?ib" using owns_SInd[OF w(2,4)] by (auto simp: writable_def)
  have ok: "block_ok fs1 b" using wr by (intro geometry_block_ok[OF inv_geometry[OF w(3)]]) (simp add: writable_def)
  define fs2 where "fs2 = fs1\<lparr>disk := memcpy (disk fs1) (block_ptr b)
      (memcpy (memcpy zeros 0 (disk fs1) (block_ptr b) IDKFS_BLOCK_SIZE) 0 buf 0 1) 0 IDKFS_BLOCK_SIZE, dirty := True\<rparr>"
  have io: "io_logical 49152 0 = 12" "io_blk_off 49152 0 = 0" "io_can 49152 (Suc 0) 0 = 1"
    by (simp_all add: io_logical_def io_pos_def io_blk_off_def io_can_def)
  have "write_step fs k buf 49152 1 0 = Some (fs2, True)"
    using w(1) by (simp add: write_step_def io block_read_Some[OF ok] block_write_Some[OF ok] fs2_def)
  then have "write_loop fs k buf 49152 1 0 = Some (fs2, Some 1)"
    by (subst write_loop.simps) (simp add: io write_loop.simps[of fs2])
  then have "idkfs_write e fs k buf 1 49152 = Some (write_finish e fs2 k 49153, 1)"
    using live by (simp add: idkfs_write_alt)
  moreover have "same_block fs1 fs2 ?ib" by (rule same_block_memcpy[OF bib]) (simp add: fs2_def)
  then have "ptr_at fs2 ?ib 1 = 0" using same_block_ptr[of fs1 fs2 ?ib 1] w(5) by simp
  ultimately show ?thesis
    using w(4) by (simp add: write_finish_kept ptr_at_def) (simp add: fs2_def)
qed

theorem unlink_indirect_frees_superblock_witness:
  "\<exists>fs fs1 fs2 fs3. idkfs_mkfs True True demo_env [] features_default = Some (Some fs)
    \<and> idkfs_create demo_env fs 0 [97] TIER_NORMAL 420 = Some (fs1, 1)
    \<and> idkfs_write demo_env fs1 1 zeros 1 49152 = Some (fs2, 1) \<and> block_inv fs2
    \<and> fuse_unlink demo_env fs2 [47, 97] = Some (fs3, 0) \<and> \<not> used (bitmap fs3) 0 \<and> \<not> block_inv fs3"
proof (rule demo_file)
  fix fs fs1 assume fs: "idkfs_mkfs True True demo_env [] features_default = Some (Some fs)"
    "idkfs_create demo_env fs 0 [97] TIER_NORMAL 420 = Some (fs1, 1)" "tree_ok fs1"
    "i_type (inodes fs1 0) = ft_code IDKFS_FT_DIR" "dir_list fs1 0 = dot_entries 0 0 @ [([97], 1, 1)]"
    "inodes fs1 1 = file_Inode demo_env 1 TIER_NORMAL 420" "2 \<le> avail fs1"
  have g: "good_path [] [97]" by (simp add: good_path_def component_def path_of_def nul_free_def)
  have inv: "block_inv fs1" and l1: "live fs1 1" using fs(3,6) by (simp_all add: tree_ok_def live_def)
  have i1: "i_type (inodes fs1 1) \<noteq> ft_code IDKFS_FT_DIR" "i_indirect1 (inodes fs1 1) = IDKFS_NULL_BLOCK"
    using fs(6) by (simp_all add: file_Inode_def fresh_Inode_def)
  obtain fs2 where w: "idkfs_write demo_env fs1 1 zeros 1 49152 = Some (fs2, 1)" "i_indirect1 (inodes fs2 1) \<noteq> IDKFS_NULL_BLOCK"
    "ptr_at fs2 (unat (i_indirect1 (inodes fs2 1))) 1 = 0"
    using write_first_indirect[OF inv l1 i1(2) fs(7)] by blast
  have s: "block_inv fs2" "others_kept 1 fs1 fs2" "i_type (inodes fs2 1) = i_type (inodes fs1 1)" "live fs2 1"
    using idkfs_write_spec[OF inv l1, of demo_env zeros 1 49152] w(1) by auto
  have t: "tree_ok fs2" and d: "dir_list fs2 0 = dir_list fs1 0" "i_type (inodes fs2 0) = ft_code IDKFS_FT_DIR"
    using write_tree_ok[OF fs(3) s l1 i1(1)] fs(4) by simp_all
  have "map_of (dir_list fs2 0) [97] = Some (1, 1)" using fs(5) d(1) by (simp add: dot_entries_def dot_def dotdot_def)
  from unlink_indirect_frees_superblock[OF t g _ d(2) this, of 1 demo_env] w i1(1) s(3) fs(1,2) s(1) show ?thesis
    by (auto simp: path_of_def)
qed

end
