(* ===== verification/Sort_Script.thy ===== *)
theory Sort_Script
  imports Fuse_List "HOL-Library.Product_Lexorder" "HOL-Library.List_Lexorder"
begin

text \<open>
  The script \<^verbatim>\<open>sorting.lua\<close> that \<^verbatim>\<open>idkfs_fuse.c\<close> loads by default. Its function \<open>compare\<close> is the three-way
  comparison of a key, so that \<open>qsort\<close> gets a consistent order and a listing is sorted by size, kind and name.
  Lua's \<open>lower\<close> and its order of strings are those of the C locale, which the program does not leave.
\<close>

section \<open>The script\<close>

definition type_order :: "string \<Rightarrow> int option" where
  "type_order t =
     (if t = ''dir'' then Some 0
      else if t = ''file'' then Some 1
      else if t = ''symlink'' then Some 2
      else if t = ''device'' then Some 3
      else if t = ''unknown'' then Some 4
      else None)"

definition normalize_type :: "string \<Rightarrow> int" where
  "normalize_type t = (case type_order t of Some n \<Rightarrow> n | None \<Rightarrow> the (type_order ''unknown''))"

definition lower :: "cstr \<Rightarrow> cstr" where
  "lower s = map (\<lambda>c. if 65 \<le> c \<and> c \<le> 90 then c + 32 else c) s"

text \<open>\<open>strcmp(s, t) < 0\<close>\<close>

fun str_less :: "cstr \<Rightarrow> cstr \<Rightarrow> bool" where
  "str_less s [] = False"
| "str_less [] (d # t) = True"
| "str_less (c # s) (d # t) = (if c = d then str_less s t else c < d)"

definition compare_entries :: "lua_entry \<Rightarrow> lua_entry \<Rightarrow> int" where
  "compare_entries a b =
     (if lua_size a \<noteq> lua_size b then if lua_size a < lua_size b then - 1 else 1
      else let ta = normalize_type (lua_type a); tb = normalize_type (lua_type b) in
        if ta \<noteq> tb then if ta < tb then - 1 else 1
        else let an = lower (lua_name a); bn = lower (lua_name b) in
          if an = bn then 0 else if str_less an bn then - 1 else 1)"

text \<open>\<open>None\<close> is \<open>nil\<close>.\<close>

definition script_compare :: "lua_entry option \<Rightarrow> lua_entry option \<Rightarrow> int" where
  "script_compare a b = (case (a, b) of (Some a, Some b) \<Rightarrow> compare_entries a b | _ \<Rightarrow> 0)"

section \<open>The order\<close>

definition sort_key :: "lua_entry \<Rightarrow> int \<times> int \<times> cstr" where
  "sort_key a = (lua_size a, normalize_type (lua_type a), lower (lua_name a))"

lemma str_less_lex: "str_less s t \<longleftrightarrow> s < t"
  by (induction s t rule: str_less.induct) auto

lemma compare_entries_key:
  "compare_entries a b = (if sort_key a = sort_key b then 0 else if sort_key a < sort_key b then - 1 else 1)"
  by (auto simp: compare_entries_def sort_key_def Let_def str_less_lex less_prod_def)

text \<open>The comparison that \<open>qsort\<close> calls, when the script is loaded and its calls succeed.\<close>

definition script_call :: "lua_entry \<Rightarrow> lua_entry \<Rightarrow> int option option" where
  "script_call a b = Some (Some (script_compare (Some a) (Some b)))"

definition candidate_key :: "SortCandidate \<Rightarrow> int \<times> int \<times> cstr" where
  "candidate_key c = sort_key (push_candidate_to_lua c)"

lemma script_sort_compare:
  assumes "sort_ready s" "sort_L s"
  shows "lua_sort_compare script_call s a b = (s, if candidate_key a = candidate_key b then 0
    else if candidate_key a < candidate_key b then - 1 else 1)"
  using assms by (simp add: lua_sort_compare_def script_call_def script_compare_def compare_entries_key candidate_key_def to_int32_def)

text \<open>What C promises of \<open>qsort\<close>: it permutes the array, and if the comparison is consistent with a total order
  then the result is in this order.\<close>

definition qsort_sorts :: "(('a \<Rightarrow> 'a \<Rightarrow> int) \<Rightarrow> 'a list \<Rightarrow> 'a list) \<Rightarrow> bool" where
  "qsort_sorts qs \<longleftrightarrow> (\<forall>cmp xs. mset (qs cmp xs) = mset xs \<and>
     ((\<forall>a b. (cmp a b < 0) = (0 < cmp b a)) \<longrightarrow> (\<forall>a b c. cmp a b \<le> 0 \<longrightarrow> cmp b c \<le> 0 \<longrightarrow> cmp a c \<le> 0) \<longrightarrow>
        sorted_wrt (\<lambda>a b. cmp a b \<le> 0) (qs cmp xs)))"

text \<open>The sorting step of \<open>fuse_readdir\<close> with a sorter in state \<open>s\<close>.\<close>

definition script_qsort ::
  "((SortCandidate \<Rightarrow> SortCandidate \<Rightarrow> int) \<Rightarrow> SortCandidate list \<Rightarrow> SortCandidate list) \<Rightarrow> sorter
    \<Rightarrow> SortCandidate list \<Rightarrow> SortCandidate list \<times> bool" where
  "script_qsort qs s xs = (qs (\<lambda>a b. snd (lua_sort_compare script_call s a b)) xs, sort_ready s)"

lemma script_qsort_sorts:
  assumes q: "qsort_sorts qs" and s: "sort_ready s" "sort_L s"
  shows "mset (fst (script_qsort qs s xs)) = mset xs" "sorted (map candidate_key (fst (script_qsort qs s xs)))"
proof -
  let ?cmp = "\<lambda>a b. snd (lua_sort_compare script_call s a b)"
  have le: "?cmp a b \<le> 0 \<longleftrightarrow> candidate_key a \<le> candidate_key b" and lt: "?cmp a b < 0 \<longleftrightarrow> candidate_key a < candidate_key b"
    and gt: "0 < ?cmp a b \<longleftrightarrow> candidate_key b < candidate_key a" for a b
    by (auto simp: script_sort_compare[OF s])
  show "mset (fst (script_qsort qs s xs)) = mset xs" using q by (simp add: qsort_sorts_def script_qsort_def)
  have "\<forall>a b. (?cmp a b < 0) = (0 < ?cmp b a)" by (simp only: lt gt simp_thms)
  moreover have "\<forall>a b c. ?cmp a b \<le> 0 \<longrightarrow> ?cmp b c \<le> 0 \<longrightarrow> ?cmp a c \<le> 0" unfolding le by (blast intro: order.trans)
  ultimately have "sorted_wrt (\<lambda>a b. ?cmp a b \<le> 0) (qs ?cmp xs)"
    using q[unfolded qsort_sorts_def, THEN spec, of ?cmp, THEN spec, of xs] by blast
  then show "sorted (map candidate_key (fst (script_qsort qs s xs)))"
    unfolding le by (simp add: script_qsort_def sorted_map)
qed

text \<open>C24: With \<^verbatim>\<open>sorting.lua\<close> loaded, \<open>fuse_readdir\<close> of a directory in a well-formed tree answers 0 and lists, after ``.''
  and ``..'', every entry of the directory once, in the order of their sizes, then of their kinds (directories
  first), then of their names without regard to case; sorting stays enabled.\<close>

theorem readdir_sorted_by_script:
  assumes ok: "tree_ok fs" and path: "nul_free path"
    and d: "tree_walk fs 0 (tokens (take 4095 path)) = int k" "i_type (inodes fs k) = ft_code IDKFS_FT_DIR"
    and q: "qsort_sorts qs" and s: "sort_ready s" "sort_L s"
  shows "\<exists>fs' es. fuse_readdir (script_qsort qs s) e fs True path
      = Some (fs', True, 0, [(dot, None), (dotdot, None)] @ map (\<lambda>c. (sc_name c, Some (candidate_stat c))) es)
    \<and> mset es = mset (listed fs' (dir_content fs k)) \<and> sorted (map candidate_key es)"
proof -
  obtain fs' where run: "let (es, ready') = sorted_by (script_qsort qs s) True (listed fs' (dir_content fs k)) in
      fuse_readdir (script_qsort qs s) e fs True path
      = Some (fs', ready', 0, [(dot, None), (dotdot, None)] @ map (\<lambda>c. (sc_name c, Some (candidate_stat c))) es)"
    using readdir_run[OF ok path d, where q = "script_qsort qs s" and ready = True and e = e] by blast
  let ?l = "listed fs' (dir_content fs k)"
  show ?thesis
  proof (cases "length ?l > 1")
    case True
    with run s(1) show ?thesis
      by (intro exI[of _ fs'] exI[of _ "fst (script_qsort qs s ?l)"] conjI script_qsort_sorts[OF q s])
        (simp add: script_qsort_def)
  next
    case False
    then have "sorted (map candidate_key ?l)" by (cases ?l) (auto simp: Suc_lessI)
    with run False show ?thesis by (intro exI[of _ fs'] exI[of _ ?l] conjI) simp_all
  qed
qed

lemma filter_dots_length:
  "length (filter (\<lambda>en. \<not> is_dot en) xs) = length (filter (\<lambda>x. fst x \<noteq> dot \<and> fst x \<noteq> dotdot) (map dirent xs))"
  by (induction xs) (auto simp: is_dot_name)

text \<open>Insertion sort keeps the promise.\<close>

primrec ins :: "('a \<Rightarrow> 'a \<Rightarrow> int) \<Rightarrow> 'a \<Rightarrow> 'a list \<Rightarrow> 'a list" where
  "ins cmp x [] = [x]"
| "ins cmp x (y # ys) = (if cmp x y \<le> 0 then x # y # ys else y # ins cmp x ys)"

definition ins_sort :: "('a \<Rightarrow> 'a \<Rightarrow> int) \<Rightarrow> 'a list \<Rightarrow> 'a list" where
  "ins_sort cmp xs = foldr (ins cmp) xs []"

lemma set_ins [simp]: "mset (ins cmp x ys) = add_mset x (mset ys)" "set (ins cmp x ys) = insert x (set ys)"
  by (induction ys) auto

lemma ins_sorted:
  assumes c: "\<forall>a b. (cmp a b < 0) = (0 < cmp b a)" "\<forall>a b c. cmp a b \<le> 0 \<longrightarrow> cmp b c \<le> 0 \<longrightarrow> cmp a c \<le> (0 :: int)"
  shows "sorted_wrt (\<lambda>a b. cmp a b \<le> 0) ys \<Longrightarrow> sorted_wrt (\<lambda>a b. cmp a b \<le> 0) (ins cmp x ys)"
proof (induction ys)
  case (Cons y ys)
  have "cmp y x \<le> 0" if "\<not> cmp x y \<le> 0" using that c(1) by (metis less_le_not_le linorder_not_le)
  with Cons c(2) show ?case by auto
qed simp

lemma ins_sort_sorts: "qsort_sorts ins_sort"
proof -
  have "mset (ins_sort cmp xs) = mset xs" for cmp :: "'a \<Rightarrow> 'a \<Rightarrow> int" and xs
    unfolding ins_sort_def by (induction xs) simp_all
  moreover have "sorted_wrt (\<lambda>a b. cmp a b \<le> 0) (ins_sort cmp xs)"
    if c: "\<forall>a b. (cmp a b < 0) = (0 < cmp b a)" "\<forall>a b c. cmp a b \<le> 0 \<longrightarrow> cmp b c \<le> 0 \<longrightarrow> cmp a c \<le> (0 :: int)" for cmp xs
    unfolding ins_sort_def by (induction xs) (simp_all add: ins_sorted[OF c])
  ultimately show ?thesis unfolding qsort_sorts_def by blast
qed

theorem readdir_sorted_by_script_witness:
  "let s = \<lparr>sort_L = True, sort_compare_ref = Some 3, sort_ready = True\<rparr> in
   \<exists>fs fs1 fs2 fs' es. idkfs_mkfs True True demo_env [] features_default = Some (Some fs)
    \<and> idkfs_create demo_env fs 0 [97] TIER_NORMAL 420 = Some (fs1, 1)
    \<and> idkfs_create demo_env fs1 0 [98] TIER_NORMAL 420 = Some (fs2, 2)
    \<and> length es = 2 \<and> sorted (map candidate_key es)
    \<and> fuse_readdir (script_qsort ins_sort s) demo_env fs2 True [47]
      = Some (fs', True, 0, [(dot, None), (dotdot, None)] @ map (\<lambda>c. (sc_name c, Some (candidate_stat c))) es)"
proof (rule demo_files)
  let ?s = "\<lparr>sort_L = True, sort_compare_ref = Some 3, sort_ready = True\<rparr>"
  fix fs fs1 fs2 assume fs: "idkfs_mkfs True True demo_env [] features_default = Some (Some fs)"
    "idkfs_create demo_env fs 0 [97] TIER_NORMAL 420 = Some (fs1, 1)"
    "idkfs_create demo_env fs1 0 [98] TIER_NORMAL 420 = Some (fs2, 2)" "tree_ok fs2"
    "i_type (inodes fs2 0) = ft_code IDKFS_FT_DIR"
    "dir_list fs2 0 = dot_entries 0 0 @ [([97], 1, 1), ([98], 2, 1)]"
  have n: "nul_free [47]" by (simp add: nul_free_def)
  have "tokens (take 4095 [slash]) = []" by (simp add: tokens.simps[of "[slash]"])
  then have w: "tree_walk fs2 0 (tokens (take 4095 [47])) = int 0" by simp
  have "map dirent (map (dir_entries (dir_content fs2 0)) [0..<unat (dir_count (dir_content fs2 0))]) = dir_list fs2 0"
    by (simp add: dir_list_def dir_ents_def)
  then have "length (listed fs' (dir_content fs2 0)) = 2" for fs'
    using filter_dots_length[of "map (dir_entries (dir_content fs2 0)) [0..<unat (dir_count (dir_content fs2 0))]"] fs(6)
    by (simp add: dot_entries_def dot_def dotdot_def)
  then have len: "length es = 2" if "mset es = mset (listed fs' (dir_content fs2 0))" for es fs'
    using mset_eq_length[OF that] by simp
  have r: "sort_ready ?s" "sort_L ?s" by simp_all
  show ?thesis
    unfolding Let_def using readdir_sorted_by_script[OF fs(4) n w fs(5) ins_sort_sorts r, of demo_env] fs(1-3) len by blast
qed

end
