(* ===== verification/Kfs_Types.thy ===== *)
theory Kfs_Types
  imports Prelude
begin

text \<open>
  The on-disk format of the kernel side of idkfs, \<^verbatim>\<open>idkfs_kfs.h\<close>: the packed structs shared by the
  kernel modules and by the programs that create and check an image. It is another format than the
  one of \<^verbatim>\<open>idkfs_core.c\<close>, with the same magic number. The fields are stored little-endian
  (\<open>cpu_to_le32\<close>, \<open>cpu_to_le64\<close>).
\<close>

section \<open>Constants\<close>

abbreviation (input) KFS_MAGIC :: u32 where "KFS_MAGIC \<equiv> 0x49444B46"
abbreviation (input) KFS_BLOCK_SIZE :: u64 where "KFS_BLOCK_SIZE \<equiv> 4096"
abbreviation (input) KFS_MAX_EXTENTS :: nat where "KFS_MAX_EXTENTS \<equiv> 15"
abbreviation (input) KFS_VERSION :: u32 where "KFS_VERSION \<equiv> 2"
abbreviation (input) KFS_TX_MAGIC :: u32 where "KFS_TX_MAGIC \<equiv> 0x54584B46"
abbreviation (input) KFS_SNAP_MAGIC :: u32 where "KFS_SNAP_MAGIC \<equiv> 0x534E4B46"
abbreviation (input) KFS_MAX_SNAPSHOTS :: nat where "KFS_MAX_SNAPSHOTS \<equiv> 64"

datatype idkfs_tier = KTIER_FAST | KTIER_NORMAL | KTIER_SLOW

section \<open>Structs\<close>

record idkfs_extent =
  e_logical :: u64
  e_physical :: u64
  e_len :: u32
  e_checksum :: u32

record idkfs_super_block =
  ks_magic :: u32
  ks_version :: u32
  ks_generation :: u64
  ks_root_node :: u64
  ks_next_fast :: u64
  ks_next_normal :: u64
  ks_next_slow :: u64
  ks_total_blocks :: u64
  ks_free_blocks :: u64
  ks_tx_region_block :: u64
  ks_snap_region_block :: u64
  ks_uuid :: mem
  ks_checksum :: u32
  ks_pad :: mem

record idkfs_tx_record =
  tx_magic :: u32
  tx_state :: u32
  tx_pending_generation :: u64
  tx_committed_generation :: u64
  tx_checksum :: u32
  tx_pad :: mem

record idkfs_snapshot_entry =
  se_id :: u32
  se_flags :: u32
  se_generation :: u64
  se_root_node :: u64
  se_name :: mem

record idkfs_snapshot_table =
  st_magic :: u32
  st_count :: u32
  st_next_id :: u32
  st_checksum :: u32
  st_entries :: "nat \<Rightarrow> idkfs_snapshot_entry"

text \<open>The sizes of the packed structs.\<close>

definition sizeof_super_block :: nat where
  [layout_simps]: "sizeof_super_block = 4088"

definition sizeof_tx_record :: nat where
  [layout_simps]: "sizeof_tx_record = 4096"

definition sizeof_snapshot_entry :: nat where
  [layout_simps]: "sizeof_snapshot_entry = 88"

definition sizeof_snapshot_table :: nat where
  [layout_simps]: "sizeof_snapshot_table = 16 + KFS_MAX_SNAPSHOTS * sizeof_snapshot_entry"

section \<open>Byte layout\<close>

definition super_block_bytes :: "idkfs_super_block \<Rightarrow> u8 list" where
  "super_block_bytes s =
     le32 (ks_magic s) @ le32 (ks_version s) @ le64 (ks_generation s) @ le64 (ks_root_node s) @
     le64 (ks_next_fast s) @ le64 (ks_next_normal s) @ le64 (ks_next_slow s) @
     le64 (ks_total_blocks s) @ le64 (ks_free_blocks s) @ le64 (ks_tx_region_block s) @
     le64 (ks_snap_region_block s) @ bytes_of (ks_uuid s) 0 16 @ le32 (ks_checksum s) @
     bytes_of (ks_pad s) 0 3988"

definition mem_super_block :: "mem \<Rightarrow> nat \<Rightarrow> idkfs_super_block" where
  "mem_super_block m a = \<lparr>ks_magic = rd32 m a, ks_version = rd32 m (a + 4),
     ks_generation = rd64 m (a + 8), ks_root_node = rd64 m (a + 16), ks_next_fast = rd64 m (a + 24),
     ks_next_normal = rd64 m (a + 32), ks_next_slow = rd64 m (a + 40), ks_total_blocks = rd64 m (a + 48),
     ks_free_blocks = rd64 m (a + 56), ks_tx_region_block = rd64 m (a + 64),
     ks_snap_region_block = rd64 m (a + 72), ks_uuid = trim 16 (\<lambda>j. m (a + 80 + j)),
     ks_checksum = rd32 m (a + 96), ks_pad = trim 3988 (\<lambda>j. m (a + 100 + j))\<rparr>"

definition tx_record_bytes :: "idkfs_tx_record \<Rightarrow> u8 list" where
  "tx_record_bytes t =
     le32 (tx_magic t) @ le32 (tx_state t) @ le64 (tx_pending_generation t) @
     le64 (tx_committed_generation t) @ le32 (tx_checksum t) @ bytes_of (tx_pad t) 0 4068"

definition mem_tx_record :: "mem \<Rightarrow> nat \<Rightarrow> idkfs_tx_record" where
  "mem_tx_record m a = \<lparr>tx_magic = rd32 m a, tx_state = rd32 m (a + 4),
     tx_pending_generation = rd64 m (a + 8), tx_committed_generation = rd64 m (a + 16),
     tx_checksum = rd32 m (a + 24), tx_pad = trim 4068 (\<lambda>j. m (a + 28 + j))\<rparr>"

definition snapshot_entry_bytes :: "idkfs_snapshot_entry \<Rightarrow> u8 list" where
  "snapshot_entry_bytes e =
     le32 (se_id e) @ le32 (se_flags e) @ le64 (se_generation e) @ le64 (se_root_node e) @
     bytes_of (se_name e) 0 64"

definition mem_snapshot_entry :: "mem \<Rightarrow> nat \<Rightarrow> idkfs_snapshot_entry" where
  "mem_snapshot_entry m a = \<lparr>se_id = rd32 m a, se_flags = rd32 m (a + 4), se_generation = rd64 m (a + 8),
     se_root_node = rd64 m (a + 16), se_name = trim 64 (\<lambda>j. m (a + 24 + j))\<rparr>"

definition zero_snapshot_entry :: idkfs_snapshot_entry where
  "zero_snapshot_entry = \<lparr>se_id = 0, se_flags = 0, se_generation = 0, se_root_node = 0, se_name = zeros\<rparr>"

definition snapshot_table_bytes :: "idkfs_snapshot_table \<Rightarrow> u8 list" where
  "snapshot_table_bytes t =
     le32 (st_magic t) @ le32 (st_count t) @ le32 (st_next_id t) @ le32 (st_checksum t) @
     array_bytes snapshot_entry_bytes (st_entries t) KFS_MAX_SNAPSHOTS"

definition mem_snapshot_table :: "mem \<Rightarrow> nat \<Rightarrow> idkfs_snapshot_table" where
  "mem_snapshot_table m a = \<lparr>st_magic = rd32 m a, st_count = rd32 m (a + 4), st_next_id = rd32 m (a + 8),
     st_checksum = rd32 m (a + 12),
     st_entries = (\<lambda>k. if k < KFS_MAX_SNAPSHOTS then mem_snapshot_entry m (a + 16 + k * sizeof_snapshot_entry)
                        else zero_snapshot_entry)\<rparr>"

section \<open>Round trips\<close>

definition norm_super_block :: "idkfs_super_block \<Rightarrow> idkfs_super_block" where
  "norm_super_block s = s\<lparr>ks_uuid := trim 16 (ks_uuid s), ks_pad := trim 3988 (ks_pad s)\<rparr>"

definition norm_tx_record :: "idkfs_tx_record \<Rightarrow> idkfs_tx_record" where
  "norm_tx_record t = t\<lparr>tx_pad := trim 4068 (tx_pad t)\<rparr>"

definition norm_snapshot_entry :: "idkfs_snapshot_entry \<Rightarrow> idkfs_snapshot_entry" where
  "norm_snapshot_entry e = e\<lparr>se_name := trim 64 (se_name e)\<rparr>"

definition norm_snapshot_table :: "idkfs_snapshot_table \<Rightarrow> idkfs_snapshot_table" where
  "norm_snapshot_table t = t\<lparr>st_entries := (\<lambda>k. if k < KFS_MAX_SNAPSHOTS
     then norm_snapshot_entry (st_entries t k) else zero_snapshot_entry)\<rparr>"

lemma length_super_block_bytes [simp]: "length (super_block_bytes s) = sizeof_super_block"
  by (simp add: super_block_bytes_def layout_simps)

lemma length_tx_record_bytes [simp]: "length (tx_record_bytes t) = sizeof_tx_record"
  by (simp add: tx_record_bytes_def layout_simps)

lemma length_snapshot_entry_bytes [simp]: "length (snapshot_entry_bytes e) = sizeof_snapshot_entry"
  by (simp add: snapshot_entry_bytes_def layout_simps)

lemma length_snapshot_table_bytes [simp]: "length (snapshot_table_bytes t) = sizeof_snapshot_table"
  using length_array_bytes[of snapshot_entry_bytes, OF length_snapshot_entry_bytes] by (simp add: snapshot_table_bytes_def layout_simps)

lemma bytes_of_tail [mem_simps]: "j < n \<Longrightarrow> mem_of (bytes_of m a n @ ys) j = m (a + j)"
  by (simp add: mem_of_append)

lemma mem_super_block_bytes: "mem_super_block (mem_of (super_block_bytes s)) 0 = norm_super_block s"
proof -
  have "ks_uuid (mem_super_block (mem_of (super_block_bytes s)) 0) = ks_uuid (norm_super_block s)"
    "ks_pad (mem_super_block (mem_of (super_block_bytes s)) 0) = ks_pad (norm_super_block s)"
    by (rule ext, simp add: mem_super_block_def norm_super_block_def super_block_bytes_def trim_def mem_of_append)+
  then show ?thesis
    by (simp add: mem_super_block_def norm_super_block_def super_block_bytes_def mem_simps)
qed

lemma mem_super_block_local:
  assumes "\<And>i. i < sizeof_super_block \<Longrightarrow> m (a + i) = m' (b + i)"
  shows "mem_super_block m a = mem_super_block m' b"
  using assms unfolding mem_super_block_def layout_simps idkfs_super_block.ext_inject
  by (auto intro!: rd32_eq rd64_eq ext simp: add.assoc trim_def)

interpretation ksuper_codec: struct_codec sizeof_super_block "\<lambda>s. mem_of (super_block_bytes s)"
    mem_super_block norm_super_block
  by unfold_locales (erule mem_super_block_local, rule mem_super_block_bytes)

lemma mem_tx_record_bytes: "mem_tx_record (mem_of (tx_record_bytes t)) 0 = norm_tx_record t"
proof -
  have "tx_pad (mem_tx_record (mem_of (tx_record_bytes t)) 0) = tx_pad (norm_tx_record t)"
    by (rule ext) (simp add: mem_tx_record_def norm_tx_record_def tx_record_bytes_def trim_def mem_of_append)
  then show ?thesis
    by (simp add: mem_tx_record_def norm_tx_record_def tx_record_bytes_def mem_simps)
qed

lemma mem_tx_record_local:
  assumes "\<And>i. i < sizeof_tx_record \<Longrightarrow> m (a + i) = m' (b + i)"
  shows "mem_tx_record m a = mem_tx_record m' b"
  using assms unfolding mem_tx_record_def layout_simps idkfs_tx_record.ext_inject
  by (auto intro!: rd32_eq rd64_eq ext simp: add.assoc trim_def)

interpretation tx_codec: struct_codec sizeof_tx_record "\<lambda>t. mem_of (tx_record_bytes t)" mem_tx_record norm_tx_record
  by unfold_locales (erule mem_tx_record_local, rule mem_tx_record_bytes)

lemma mem_snapshot_entry_bytes: "mem_snapshot_entry (mem_of (snapshot_entry_bytes e)) 0 = norm_snapshot_entry e"
proof -
  have "se_name (mem_snapshot_entry (mem_of (snapshot_entry_bytes e)) 0) = se_name (norm_snapshot_entry e)"
    by (rule ext) (simp add: mem_snapshot_entry_def norm_snapshot_entry_def snapshot_entry_bytes_def trim_def mem_of_append)
  then show ?thesis
    by (simp add: mem_snapshot_entry_def norm_snapshot_entry_def snapshot_entry_bytes_def mem_simps)
qed

lemma mem_snapshot_entry_local:
  assumes "\<And>i. i < sizeof_snapshot_entry \<Longrightarrow> m (a + i) = m' (b + i)"
  shows "mem_snapshot_entry m a = mem_snapshot_entry m' b"
  using assms unfolding mem_snapshot_entry_def layout_simps idkfs_snapshot_entry.ext_inject
  by (auto intro!: rd32_eq rd64_eq ext simp: add.assoc trim_def)

interpretation snap_entry_codec: struct_codec sizeof_snapshot_entry "\<lambda>e. mem_of (snapshot_entry_bytes e)"
    mem_snapshot_entry norm_snapshot_entry
  by unfold_locales (erule mem_snapshot_entry_local, rule mem_snapshot_entry_bytes)

lemma mem_snapshot_table_bytes:
  "mem_snapshot_table (mem_of (snapshot_table_bytes t)) 0 = norm_snapshot_table t"
proof -
  have "mem_snapshot_entry (mem_of (snapshot_table_bytes t)) (16 + k * sizeof_snapshot_entry)
      = norm_snapshot_entry (st_entries t k)" if "k < 64" for k
    using mem_of_array_bytes[of snapshot_entry_bytes, OF length_snapshot_entry_bytes that, of _ "st_entries t"]
    by (intro snap_entry_codec.dec_stored) (simp add: snapshot_table_bytes_def mem_of_append add.assoc)
  then have "st_entries (mem_snapshot_table (mem_of (snapshot_table_bytes t)) 0) = st_entries (norm_snapshot_table t)"
    by (simp add: mem_snapshot_table_def norm_snapshot_table_def fun_eq_iff)
  then show ?thesis
    by (simp add: mem_snapshot_table_def norm_snapshot_table_def snapshot_table_bytes_def mem_simps)
qed

lemma mem_snapshot_table_local:
  assumes "\<And>i. i < sizeof_snapshot_table \<Longrightarrow> m (a + i) = m' (b + i)"
  shows "mem_snapshot_table m a = mem_snapshot_table m' b"
proof -
  have "mem_snapshot_entry m (a + 16 + k * 88) = mem_snapshot_entry m' (b + 16 + k * 88)"
    if "k < 64" for k
  proof (rule snap_entry_codec.dec_eq)
    fix i assume "i < sizeof_snapshot_entry"
    then have "16 + k * 88 + i < sizeof_snapshot_table"
      using that by (simp add: layout_simps)
    from assms[OF this] show "m (a + 16 + k * 88 + i) = m' (b + 16 + k * 88 + i)"
      by (simp add: add.assoc)
  qed
  moreover have "rd32 m a = rd32 m' b" "rd32 m (a + 4) = rd32 m' (b + 4)"
    "rd32 m (a + 8) = rd32 m' (b + 8)" "rd32 m (a + 12) = rd32 m' (b + 12)"
    using assms by (auto intro!: rd32_eq simp: add.assoc layout_simps)
  ultimately show ?thesis
    by (auto simp: mem_snapshot_table_def sizeof_snapshot_entry_def)
qed

interpretation snap_table_codec: struct_codec sizeof_snapshot_table "\<lambda>t. mem_of (snapshot_table_bytes t)"
    mem_snapshot_table norm_snapshot_table
  by unfold_locales (erule mem_snapshot_table_local, rule mem_snapshot_table_bytes)

end
