(* ===== verification/Blk.thy ===== *)
theory Blk
  imports Kfs_Types
begin

text \<open>
  The block driver \<^verbatim>\<open>idkfs_blk.c\<close>: the addressing of file blocks through up to six levels of
  indirection, the in-memory copy of the image file with its transaction record, the request
  handler, and loading and unloading of the module.

  The state is what the file keeps in static variables, with the image file itself. \<open>vmalloc\<close>,
  \<open>kernel_read\<close>, \<open>kernel_write\<close> and the registration calls of the kernel are not part of the
  sources: their answers are arguments. An access outside of the mapped bytes is \<open>None\<close>. Pointers of
  an indirect block are read in the byte order of the host, here little-endian.
\<close>

section \<open>Addressing\<close>

abbreviation (input) BLK_BLOCK_SIZE :: u64 where "BLK_BLOCK_SIZE \<equiv> 4096"
abbreviation (input) BLK_DIRECT_BLOCKS :: u64 where "BLK_DIRECT_BLOCKS \<equiv> 12"
abbreviation (input) BLK_MAX_INDIRECT_LEVELS :: nat where "BLK_MAX_INDIRECT_LEVELS \<equiv> 6"
abbreviation (input) BLK_PTRS_PER_BLOCK :: u64 where "BLK_PTRS_PER_BLOCK \<equiv> 512"

definition BLK_NULL_BLOCK :: u64 where
  "BLK_NULL_BLOCK = - 1"

definition sizeof_inode_disk :: nat where
  [layout_simps]: "sizeof_inode_disk = (12 + 6) * 8"

fun pow_loop :: "u64 \<Rightarrow> nat \<Rightarrow> u64 \<Rightarrow> u64" where
  "pow_loop base 0 v = v"
| "pow_loop base (Suc e) v = pow_loop base e (v * base)"

definition idkfs_pow :: "u64 \<Rightarrow> u8 \<Rightarrow> u64" where
  "idkfs_pow base e = pow_loop base (unat e) 1"

definition idkfs_indirect_span :: "u8 \<Rightarrow> u64" where
  "idkfs_indirect_span level = idkfs_pow BLK_PTRS_PER_BLOCK level"

text \<open>The inner loop of \<open>idkfs_fill_chain\<close>, from index \<open>i\<close> on.\<close>

function chain_loop :: "nat \<Rightarrow> nat \<Rightarrow> u64 \<Rightarrow> u64 list \<Rightarrow> u64 list" where
  "chain_loop lvl i rem chain =
     (if i < lvl
      then let stride = idkfs_indirect_span (of_nat (lvl - i - 1))
           in chain_loop lvl (i + 1) (rem mod stride) (chain[i := rem div stride])
      else chain)"
  by auto
termination by (relation "measure (\<lambda>(lvl, i, _). lvl - i)") auto

text \<open>The outer loop, from level \<open>lvl\<close> on.\<close>

function level_loop :: "nat \<Rightarrow> u64 \<Rightarrow> u64 list \<Rightarrow> (nat \<times> u64 list) option" where
  "level_loop lvl rem chain =
     (if lvl \<le> BLK_MAX_INDIRECT_LEVELS
      then let span = idkfs_indirect_span (of_nat lvl)
           in if rem < span then Some (lvl, chain_loop lvl 0 rem chain)
              else level_loop (lvl + 1) (rem - span) chain
      else None)"
  by auto
termination by (relation "measure (\<lambda>(lvl, _). 7 - lvl)") auto

text \<open>The level and the chain; \<open>None\<close> is the result \<open>false\<close>.\<close>

definition idkfs_fill_chain :: "u64 \<Rightarrow> u64 list \<Rightarrow> (nat \<times> u64 list) option" where
  "idkfs_fill_chain logical chain =
     (if logical < BLK_DIRECT_BLOCKS then Some (0, chain[0 := logical])
      else level_loop 1 (logical - BLK_DIRECT_BLOCKS) chain)"

section \<open>State\<close>

text \<open>The pointer \<open>backing_file\<close>: an open file, an error pointer, or one whose file was closed.\<close>

datatype file_ptr = FileNull | FileErr int | FileOpen | FileClosed

record blk_state =
  backing_file :: file_ptr
  backing_map :: "mem option"
  backing_size :: u64
  idkfs_major :: int
  idkfs_dev :: bool
  dev_queue :: bool
  dev_gd :: bool
  dev_tag_set :: bool
  dev_capacity :: u64
  journal_work :: bool
  journal_dirty :: bool
  image_size :: nat
  image_bytes :: mem

definition blk_unloaded :: "nat \<Rightarrow> mem \<Rightarrow> blk_state" where
  "blk_unloaded n m = \<lparr>backing_file = FileNull, backing_map = None, backing_size = 0, idkfs_major = 0,
     idkfs_dev = False, dev_queue = False, dev_gd = False, dev_tag_set = False, dev_capacity = 0,
     journal_work = False, journal_dirty = False, image_size = n, image_bytes = m\<rparr>"

text \<open>Checked accesses to an object of \<open>n\<close> bytes.\<close>

definition ld32 :: "mem \<Rightarrow> nat \<Rightarrow> nat \<Rightarrow> u32 option" where
  "ld32 m n a = (if a + 4 \<le> n then Some (rd32 m a) else None)"

definition ld64 :: "mem \<Rightarrow> nat \<Rightarrow> nat \<Rightarrow> u64 option" where
  "ld64 m n a = (if a + 8 \<le> n then Some (rd64 m a) else None)"

definition st32 :: "mem \<Rightarrow> nat \<Rightarrow> nat \<Rightarrow> u32 \<Rightarrow> mem option" where
  "st32 m n a v = (if a + 4 \<le> n then Some (wr32 m a v) else None)"

definition st64 :: "mem \<Rightarrow> nat \<Rightarrow> nat \<Rightarrow> u64 \<Rightarrow> mem option" where
  "st64 m n a v = (if a + 8 \<le> n then Some (wr64 m a v) else None)"

abbreviation map_bytes :: "blk_state \<Rightarrow> nat" where
  "map_bytes s \<equiv> unat (backing_size s)"

section \<open>Reading pointers\<close>

definition idkfs_safe_inode_read :: "blk_state \<Rightarrow> u64 \<Rightarrow> u64 \<Rightarrow> u64 option" where
  "idkfs_safe_inode_read s inode_block off =
     (let byte = inode_block * BLK_BLOCK_SIZE in
      if byte + of_nat sizeof_inode_disk > backing_size s then Some BLK_NULL_BLOCK
      else case backing_map s of
        None \<Rightarrow> if byte = 0 then Some BLK_NULL_BLOCK else None
      | Some m \<Rightarrow> ld64 m (map_bytes s) (unat byte + 8 * unat off))"

definition idkfs_safe_pointer_read :: "blk_state \<Rightarrow> u64 \<Rightarrow> u64 \<Rightarrow> u64 option" where
  "idkfs_safe_pointer_read s block index =
     (let byte = block * BLK_BLOCK_SIZE in
      if byte + BLK_BLOCK_SIZE > backing_size s then Some BLK_NULL_BLOCK
      else if index \<ge> BLK_PTRS_PER_BLOCK then Some BLK_NULL_BLOCK
      else case backing_map s of
        None \<Rightarrow> None
      | Some m \<Rightarrow> ld64 m (map_bytes s) (unat byte + 8 * unat index))"

text \<open>The loop over the levels: the entries of the chain from \<open>depth\<close> on.\<close>

fun depth_loop :: "blk_state \<Rightarrow> u64 \<Rightarrow> u64 list \<Rightarrow> u64 option" where
  "depth_loop s current [] = Some current"
| "depth_loop s current (c # cs) =
     do { next \<leftarrow> idkfs_safe_pointer_read s current c;
          if next = BLK_NULL_BLOCK then Some BLK_NULL_BLOCK else depth_loop s next cs }"

definition idkfs_resolve_logical_block :: "blk_state \<Rightarrow> u64 \<Rightarrow> u64 \<Rightarrow> u64 option" where
  "idkfs_resolve_logical_block s logical inode_block =
     (case idkfs_fill_chain logical (replicate 6 0) of
        None \<Rightarrow> Some BLK_NULL_BLOCK
      | Some (level, chain) \<Rightarrow>
          if level = 0 then idkfs_safe_inode_read s inode_block (chain ! 0)
          else do {
            current \<leftarrow> idkfs_safe_inode_read s inode_block (BLK_DIRECT_BLOCKS + of_nat level - 1);
            if current = BLK_NULL_BLOCK then Some BLK_NULL_BLOCK
            else depth_loop s current (take level chain) })"

section \<open>The transaction record\<close>

text \<open>The offsets of the fields that the driver touches in place, in the superblock and from the start
  of the transaction record.\<close>

abbreviation (input) off_generation :: nat where "off_generation \<equiv> 8"
abbreviation (input) off_tx_region_block :: nat where "off_tx_region_block \<equiv> 64"
abbreviation (input) off_tx_state :: nat where "off_tx_state \<equiv> 4"
abbreviation (input) off_tx_pending :: nat where "off_tx_pending \<equiv> 8"
abbreviation (input) off_tx_committed :: nat where "off_tx_committed \<equiv> 16"

text \<open>The offset of the record from \<open>backing_map\<close>; the inner \<open>None\<close> is \<open>NULL\<close>.\<close>

definition idkfs_tx :: "blk_state \<Rightarrow> nat option option" where
  "idkfs_tx s = (case backing_map s of
     None \<Rightarrow> Some None
   | Some m \<Rightarrow> do { tx_block \<leftarrow> ld64 m (map_bytes s) off_tx_region_block;
                    Some (Some (unat (tx_block * BLK_BLOCK_SIZE))) })"

text \<open>The guard \<open>tx && sb && le32_to_cpu(tx->magic) == IDKFS_TX_MAGIC\<close>: the mapped bytes and the
  offset of the record when it holds.\<close>

definition tx_present :: "blk_state \<Rightarrow> nat option \<Rightarrow> (mem \<times> nat) option option" where
  "tx_present s tx = (case (tx, backing_map s) of
     (Some a, Some m) \<Rightarrow> do { magic \<leftarrow> ld32 m (map_bytes s) a;
                              Some (if magic = KFS_TX_MAGIC then Some (m, a) else None) }
   | _ \<Rightarrow> Some None)"

definition idkfs_replay_if_needed :: "blk_state \<Rightarrow> blk_state option" where
  "idkfs_replay_if_needed s = do {
     tx \<leftarrow> idkfs_tx s;
     t \<leftarrow> tx_present s tx;
     case t of
       None \<Rightarrow> Some s
     | Some (m, a) \<Rightarrow> do {
         state \<leftarrow> ld32 m (map_bytes s) (a + off_tx_state);
         if state = 1 then do {
           gen \<leftarrow> ld64 m (map_bytes s) (a + off_tx_committed);
           m \<leftarrow> st64 m (map_bytes s) off_generation gen;
           m \<leftarrow> st32 m (map_bytes s) (a + off_tx_state) 0;
           Some (s\<lparr>backing_map := Some m\<rparr>) }
         else Some s } }"

text \<open>\<open>kernel_write\<close> of the whole map to the start of the file, when it answers \<open>written\<close>.\<close>

definition kernel_write_map :: "int \<Rightarrow> blk_state \<Rightarrow> blk_state option" where
  "kernel_write_map written s = (case (backing_file s, backing_map s) of
     (FileOpen, Some m) \<Rightarrow>
       Some (s\<lparr>image_bytes := memcpy (image_bytes s) 0 m 0 (nat written),
              image_size := max (image_size s) (nat written)\<rparr>)
   | _ \<Rightarrow> None)"

text \<open>The two updates of \<open>idkfs_commit\<close> around the write: marking the transaction as open, with the
  next generation (0 when there is no record), and closing it.\<close>

definition commit_open :: "blk_state \<Rightarrow> nat option \<Rightarrow> (blk_state \<times> u64) option" where
  "commit_open s tx = do {
     t \<leftarrow> tx_present s tx;
     case t of
       None \<Rightarrow> Some (s, 0)
     | Some (m, a) \<Rightarrow> do {
         gen \<leftarrow> ld64 m (map_bytes s) off_generation;
         let next_gen = gen + 1;
         m \<leftarrow> st64 m (map_bytes s) (a + off_tx_pending) next_gen;
         m \<leftarrow> st32 m (map_bytes s) (a + off_tx_state) 1;
         Some (s\<lparr>backing_map := Some m\<rparr>, next_gen) } }"

definition commit_close :: "blk_state \<Rightarrow> nat option \<Rightarrow> u64 \<Rightarrow> blk_state option" where
  "commit_close s tx next_gen = do {
     t \<leftarrow> tx_present s tx;
     case t of
       None \<Rightarrow> Some s
     | Some (m, a) \<Rightarrow> do {
         gen \<leftarrow> ld64 m (map_bytes s) off_generation;
         let next_gen = (if next_gen = 0 then gen + 1 else next_gen);
         m \<leftarrow> st64 m (map_bytes s) off_generation next_gen;
         m \<leftarrow> st64 m (map_bytes s) (a + off_tx_committed) next_gen;
         m \<leftarrow> st32 m (map_bytes s) (a + off_tx_state) 0;
         Some (s\<lparr>backing_map := Some m\<rparr>) } }"

definition idkfs_commit :: "int \<Rightarrow> blk_state \<Rightarrow> blk_state option" where
  "idkfs_commit written s =
     (if \<not> idkfs_dev s then Some s
      else do {
        s \<leftarrow> (if journal_dirty s then do {
               tx \<leftarrow> idkfs_tx s;
               (s, next_gen) \<leftarrow> commit_open s tx;
               s \<leftarrow> kernel_write_map written s;
               if written \<noteq> sint (backing_size s) then Some s
               else do { s \<leftarrow> commit_close s tx next_gen;
                         Some (s\<lparr>journal_dirty := False\<rparr>) } }
             else Some s);
        Some (s\<lparr>journal_work := True\<rparr>) })"

definition idkfs_rollback :: "blk_state \<Rightarrow> blk_state option" where
  "idkfs_rollback s = (if idkfs_dev s then Some (s\<lparr>journal_dirty := False\<rparr>) else None)"

section \<open>Loading the image\<close>

text \<open>The answers: the error of \<open>filp_open\<close> (0 for none), whether \<open>vfs_getattr\<close> and \<open>vmalloc\<close> succeed,
  the bytes that \<open>vmalloc\<close> gives, and the result of \<open>kernel_read\<close>.\<close>

record map_answers =
  filp_open_err :: int
  getattr_ok :: bool
  vmalloc_ok :: bool
  vmalloc_bytes :: mem
  kernel_read_got :: int

abbreviation (input) BLK_EIO :: int where "BLK_EIO \<equiv> 5"
abbreviation (input) BLK_EINVAL :: int where "BLK_EINVAL \<equiv> 22"
abbreviation (input) BLK_ENOMEM :: int where "BLK_ENOMEM \<equiv> 12"

definition idkfs_map_backing :: "map_answers \<Rightarrow> blk_state \<Rightarrow> (blk_state \<times> int) option" where
  "idkfs_map_backing w s =
     (if filp_open_err w \<noteq> 0 then Some (s\<lparr>backing_file := FileErr (filp_open_err w)\<rparr>, filp_open_err w)
      else let s = s\<lparr>backing_file := FileOpen\<rparr> in
        if \<not> getattr_ok w then Some (s\<lparr>backing_file := FileClosed\<rparr>, - BLK_EIO)
        else let s = s\<lparr>backing_size := of_nat (image_size s)\<rparr> in
          if backing_size s = 0 then Some (s\<lparr>backing_file := FileClosed\<rparr>, - BLK_EINVAL)
          else if \<not> vmalloc_ok w then Some (s\<lparr>backing_map := None, backing_file := FileClosed\<rparr>, - BLK_ENOMEM)
          else let got = kernel_read_got w;
                   m = memcpy (vmalloc_bytes w) 0 (image_bytes s) 0 (nat got)
               in if got \<noteq> sint (backing_size s)
                  then Some (s\<lparr>backing_map := None, backing_file := FileClosed\<rparr>,
                             if got < 0 then got else - BLK_EIO)
                  else do { s \<leftarrow> idkfs_replay_if_needed (s\<lparr>backing_map := Some m\<rparr>); Some (s, 0) })"

text \<open>Closing a file pointer that does not hold an open file is undefined.\<close>

definition idkfs_unmap_backing :: "blk_state \<Rightarrow> blk_state option" where
  "idkfs_unmap_backing s = (case backing_file s of
     FileErr _ \<Rightarrow> None
   | FileClosed \<Rightarrow> None
   | _ \<Rightarrow> Some (s\<lparr>backing_map := None, backing_file := FileNull, backing_size := 0\<rparr>))"

section \<open>Requests\<close>

datatype req_op = REQ_OP_READ | REQ_OP_WRITE | REQ_OP_OTHER

datatype blk_status = BLK_STS_OK | BLK_STS_IOERR

text \<open>A segment is its buffer, with a length below \<open>2^32\<close>.\<close>

record request =
  rq_op :: req_op
  rq_pos :: u64
  rq_segs :: "u8 list list"

text \<open>The loop over the segments: the new state, the buffers after the request, and the status.\<close>

fun segment_loop :: "blk_state \<Rightarrow> req_op \<Rightarrow> u64 \<Rightarrow> u64 \<Rightarrow> u8 list list \<Rightarrow> (blk_state \<times> u8 list list \<times> blk_status) option" where
  "segment_loop s op sector off [] = Some (s, [], BLK_STS_OK)"
| "segment_loop s op sector off (buf # segs) =
     (let len = (of_nat (length buf) :: u32) in
      if off + ucast len > backing_size s then Some (s, buf # segs, BLK_STS_IOERR)
      else case backing_map s of
        None \<Rightarrow> None
      | Some m \<Rightarrow>
          if map_bytes s < unat off + unat len then None
          else if op = REQ_OP_WRITE \<and> \<not> idkfs_dev s then None
          else let s' = (if op = REQ_OP_READ then s
                         else s\<lparr>backing_map := Some (memcpy m (unat off) (mem_of buf) 0 (unat len)),
                                journal_dirty := True\<rparr>);
                   buf' = (if op = REQ_OP_READ then bytes_of m (unat off) (unat len) else buf);
                   sector' = sector + ucast (drop_bit 9 len)
               in do { (s', bufs, status) \<leftarrow> segment_loop s' op sector' (push_bit 9 sector') segs;
                       Some (s', buf' # bufs, status) })"

definition idkfs_blk_dispatch :: "blk_state \<Rightarrow> request \<Rightarrow> (blk_state \<times> u8 list list \<times> blk_status) option" where
  "idkfs_blk_dispatch s rq =
     (let off = push_bit 9 (rq_pos rq) in
      if backing_map s = None \<or> backing_size s = 0 then Some (s, rq_segs rq, BLK_STS_IOERR)
      else if off \<ge> backing_size s then Some (s, rq_segs rq, BLK_STS_IOERR)
      else if rq_op rq = REQ_OP_OTHER then Some (s, rq_segs rq, BLK_STS_IOERR)
      else segment_loop s (rq_op rq) (rq_pos rq) off (rq_segs rq))"

section \<open>Loading and unloading the module\<close>

text \<open>The answers of the kernel's registration calls; an error is a negative number.\<close>

record init_answers =
  kzalloc_ok :: bool
  map_ans :: map_answers
  register_ans :: int
  tag_set_ans :: int
  init_queue_err :: int
  alloc_disk_ok :: bool

definition idkfs_blk_init_disk :: "init_answers \<Rightarrow> blk_state \<Rightarrow> blk_state \<times> int" where
  "idkfs_blk_init_disk w s =
     (if init_queue_err w \<noteq> 0 then (s\<lparr>dev_queue := False\<rparr>, init_queue_err w)
      else let s = s\<lparr>dev_queue := True\<rparr> in
        if \<not> alloc_disk_ok w then (s\<lparr>dev_gd := False, dev_queue := False\<rparr>, - BLK_ENOMEM)
        else (s\<lparr>dev_gd := True, dev_capacity := drop_bit 9 (backing_size s)\<rparr>, 0))"

text \<open>\<open>kfree(idkfs_dev)\<close> ends the life of the device's own fields.\<close>

definition free_dev :: "blk_state \<Rightarrow> blk_state" where
  "free_dev s = s\<lparr>idkfs_dev := False, dev_queue := False, dev_gd := False, dev_tag_set := False,
     dev_capacity := 0, journal_work := False, journal_dirty := False\<rparr>"

definition idkfs_blk_init :: "init_answers \<Rightarrow> blk_state \<Rightarrow> (blk_state \<times> int) option" where
  "idkfs_blk_init w s =
     (if \<not> kzalloc_ok w then Some (s\<lparr>idkfs_dev := False\<rparr>, - BLK_ENOMEM)
      else do {
        (s, ret) \<leftarrow> idkfs_map_backing (map_ans w) ((free_dev s)\<lparr>idkfs_dev := True\<rparr>);
        if ret \<noteq> 0 then Some (free_dev s, ret)
        else let s = s\<lparr>idkfs_major := register_ans w\<rparr> in
          if register_ans w < 0 then do { s \<leftarrow> idkfs_unmap_backing s; Some (free_dev s, register_ans w) }
          else if tag_set_ans w \<noteq> 0 then do { s \<leftarrow> idkfs_unmap_backing s; Some (free_dev s, tag_set_ans w) }
          else let (s, ret) = idkfs_blk_init_disk w (s\<lparr>dev_tag_set := True\<rparr>) in
            if ret \<noteq> 0 then do { s \<leftarrow> idkfs_unmap_backing s; Some (free_dev s, ret) }
            else Some (s\<lparr>journal_work := True\<rparr>, 0) })"

definition idkfs_blk_exit :: "blk_state \<Rightarrow> blk_state option" where
  "idkfs_blk_exit s =
     (if \<not> idkfs_dev s then Some s
      else do { s \<leftarrow> idkfs_unmap_backing s; Some (free_dev s) })"

end
