(* ===== verification/Blk_Chain.thy ===== *)
theory Blk_Chain
  imports Blk
begin

text \<open>
  The addressing of \<^verbatim>\<open>idkfs_blk.c\<close>: \<open>idkfs_fill_chain\<close> writes the number of a block as digits to base
  512 below one of six levels, without overflow, and \<open>idkfs_resolve_logical_block\<close> follows these
  digits through the pointer blocks. The bounds check of \<open>idkfs_safe_pointer_read\<close> overflows for
  exactly the block numbers that end in 52 one bits.
\<close>

declare chain_loop.simps [simp del] level_loop.simps [simp del]

section \<open>Spans\<close>

lemma pow_loop_eq: "pow_loop b e v = v * b ^ e"
  by (induction b e v rule: pow_loop.induct) (simp_all add: mult.assoc)

lemma unat_512_pow: "k \<le> 6 \<Longrightarrow> unat ((512 :: u64) ^ k) = 512 ^ k"
proof -
  assume "k \<le> 6"
  then have "(512 :: nat) ^ k \<le> 512 ^ 6" by (intro power_increasing) simp_all
  then have "(512 :: nat) ^ k < 2 ^ 64" by simp
  then have "unat (of_nat (512 ^ k) :: u64) = 512 ^ k"
    unfolding unat_of_nat by simp
  then show ?thesis by simp
qed

lemma unat_span: "k \<le> 6 \<Longrightarrow> unat (idkfs_indirect_span (of_nat k)) = 512 ^ k"
  by (simp add: idkfs_indirect_span_def idkfs_pow_def pow_loop_eq unat_512_pow unat_of_nat)

section \<open>Chains\<close>

text \<open>The value of digits to base 512, most significant first.\<close>

definition digits_value :: "nat list \<Rightarrow> nat" where
  "digits_value = foldl (\<lambda>v d. v * 512 + d) 0"

fun digits :: "nat \<Rightarrow> nat \<Rightarrow> nat list" where
  "digits 0 v = []"
| "digits (Suc k) v = v div 512 ^ k # digits k (v mod 512 ^ k)"

text \<open>The first block below each level, and the number of blocks in all.\<close>

definition level_base :: "nat \<Rightarrow> nat" where
  "level_base lvl = 12 + (\<Sum>k = 1..<lvl. 512 ^ k)"

lemma length_digits [simp]: "length (digits k v) = k"
  by (induction k arbitrary: v) simp_all

lemma digits_less: "v < 512 ^ k \<Longrightarrow> d \<in> set (digits k v) \<Longrightarrow> d < 512"
proof (induction k arbitrary: v)
  case (Suc k)
  have "v div 512 ^ k < 512"
    using Suc.prems(1) by (simp add: less_mult_imp_div_less)
  with Suc.prems(2) Suc.IH[of "v mod 512 ^ k"] show ?case by auto
qed simp

lemma foldl_digits: "v < 512 ^ k \<Longrightarrow> foldl (\<lambda>v d. v * 512 + d) a (digits k v) = a * 512 ^ k + v"
proof (induction k arbitrary: v a)
  case (Suc k)
  then show ?case by (simp add: algebra_simps)
qed simp

lemma digits_value_digits: "v < 512 ^ k \<Longrightarrow> digits_value (digits k v) = v"
  by (simp add: digits_value_def foldl_digits)

lemma chain_loop_length [simp]: "length (chain_loop lvl i rem chain) = length chain"
  by (induction lvl i rem chain rule: chain_loop.induct) (subst chain_loop.simps, simp add: Let_def)

lemma chain_loop_before: "j < i \<Longrightarrow> chain_loop lvl i rem chain ! j = chain ! j"
proof (induction lvl i rem chain rule: chain_loop.induct)
  case (1 lvl i rem chain)
  then show ?case
    by (subst chain_loop.simps) (simp add: Let_def)
qed

lemma chain_loop_digits:
  "lvl \<le> length chain \<Longrightarrow> length chain \<le> 6 \<Longrightarrow> i \<le> lvl
     \<Longrightarrow> map unat (take (lvl - i) (drop i (chain_loop lvl i rem chain))) = digits (lvl - i) (unat rem)"
proof (induction lvl i rem chain rule: chain_loop.induct)
  case (1 lvl i rem chain)
  show ?case
  proof (cases "i < lvl")
    case True
    define stride where "stride = idkfs_indirect_span (of_nat (lvl - i - 1))"
    let ?c = "chain_loop lvl (i + 1) (rem mod stride) (chain[i := rem div stride])"
    from True obtain k where k: "lvl - i = Suc k" "lvl - i - 1 = k" "lvl - Suc i = k"
      by (metis Suc_diff_Suc diff_Suc_1 diff_Suc_eq_diff_pred)
    have un: "unat stride = 512 ^ k"
      using 1(2,3) True k by (simp add: stride_def unat_span del: One_nat_def)
    have "chain_loop lvl i rem chain = ?c"
      using True by (subst chain_loop.simps) (simp add: Let_def stride_def)
    moreover have "?c ! i = rem div stride"
      using True 1(2) by (simp add: chain_loop_before)
    moreover have "map unat (take (lvl - Suc i) (drop (Suc i) ?c)) = digits (lvl - Suc i) (unat (rem mod stride))"
      using 1(1)[OF True stride_def] True 1(2,3) by simp
    moreover have "drop i ?c = ?c ! i # drop (Suc i) ?c"
      using True 1(2) by (intro Cons_nth_drop_Suc[symmetric]) simp
    ultimately show ?thesis
      using k un by (simp add: unat_div unat_mod)
  next
    case False
    with 1(4) show ?thesis by simp
  qed
qed

text \<open>What the loop answers when it starts at level \<open>lvl\<close> with \<open>n\<close> blocks to go.\<close>

definition level_result :: "nat \<Rightarrow> nat \<Rightarrow> (nat \<times> u64 list) option \<Rightarrow> bool" where
  "level_result lvl n res \<longleftrightarrow> (case res of
     None \<Rightarrow> (\<Sum>k = lvl..<7. 512 ^ k) \<le> n
   | Some (lv, c) \<Rightarrow> lvl \<le> lv \<and> lv \<le> 6 \<and> length c = 6 \<and> (\<Sum>k = lvl..<lv. 512 ^ k) \<le> n
       \<and> n - (\<Sum>k = lvl..<lv. 512 ^ k) < 512 ^ lv \<and> map unat (take lv c) = digits lv (n - (\<Sum>k = lvl..<lv. 512 ^ k)))"

lemma level_result_next:
  assumes "level_result (lvl + 1) (n - 512 ^ lvl) res" "512 ^ lvl \<le> n" "lvl \<le> 6"
  shows "level_result lvl n res"
proof -
  have "(\<Sum>k = lvl..<m. 512 ^ k) = 512 ^ lvl + (\<Sum>k = lvl + 1..<m. 512 ^ k :: nat)" if "lvl < m" for m
    using that by (simp add: sum.atLeast_Suc_lessThan)
  with assms show ?thesis
    by (auto simp: level_result_def le_diff_conv split: option.splits)
qed

lemma level_loop_result:
  assumes "1 \<le> lvl" "lvl \<le> 7" "length chain = 6"
  shows "level_result lvl (unat rem) (level_loop lvl rem chain)"
  using assms
proof (induction lvl rem chain rule: level_loop.induct)
  case (1 lvl rem chain)
  define span where "span = idkfs_indirect_span (of_nat lvl)"
  consider "lvl = 7" | "lvl \<le> 6" "rem < span" | "lvl \<le> 6" "\<not> rem < span"
    using 1(3) by linarith
  then show ?case
  proof cases
    case 1
    then show ?thesis by (simp add: level_loop.simps level_result_def)
  next
    case 2
    have "level_loop lvl rem chain = Some (lvl, chain_loop lvl 0 rem chain)"
      using 2 by (subst level_loop.simps) (simp add: Let_def span_def)
    moreover have "unat rem < 512 ^ lvl"
      using 2 by (simp add: span_def unat_span word_less_nat_alt)
    moreover have "map unat (take lvl (chain_loop lvl 0 rem chain)) = digits lvl (unat rem)"
      using chain_loop_digits[of lvl chain 0 rem] 2 1(4) by simp
    ultimately show ?thesis
      using 2 1(4) by (simp add: level_result_def)
  next
    case 3
    have "unat span = 512 ^ lvl"
      using 3 by (simp add: span_def unat_span)
    then have le: "512 ^ lvl \<le> unat rem" and sub: "unat (rem - span) = unat rem - 512 ^ lvl"
      using 3 by (simp_all add: not_less word_le_nat_alt unat_sub)
    have step: "level_loop lvl rem chain = level_loop (lvl + 1) (rem - span) chain"
      using 3 by (subst level_loop.simps) (simp add: Let_def span_def)
    have "level_result (lvl + 1) (unat (rem - span)) (level_loop (lvl + 1) (rem - span) chain)"
      by (rule 1(1)[OF 3(1) span_def 3(2)]) (use 3(1) 1(4) in simp_all)
    then show ?thesis
      unfolding step sub by (rule level_result_next[OF _ le 3(1)])
  qed
qed

lemma fill_chain_cases:
  obtains (direct) "logical < 12" "idkfs_fill_chain logical (replicate 6 0) = Some (0, (replicate 6 0)[0 := logical])"
  | (indirect) level chain where "idkfs_fill_chain logical (replicate 6 0) = Some (level, chain)"
      "1 \<le> level" "level \<le> 6" "length chain = 6" "level_base level \<le> unat logical"
      "unat logical - level_base level < 512 ^ level"
      "map unat (take level chain) = digits level (unat logical - level_base level)"
  | (beyond) "idkfs_fill_chain logical (replicate 6 0) = None" "level_base 7 \<le> unat logical"
proof (cases "logical < 12")
  case True
  then show ?thesis by (intro direct) (simp_all add: idkfs_fill_chain_def)
next
  case False
  then have ge: "12 \<le> unat logical" and sub: "unat (logical - 12) = unat logical - 12"
    by (simp_all add: not_less word_le_nat_alt unat_sub)
  have *: "idkfs_fill_chain logical (replicate 6 0) = level_loop 1 (logical - 12) (replicate 6 0)"
    using False by (simp add: idkfs_fill_chain_def)
  have r: "level_result 1 (unat logical - 12) (idkfs_fill_chain logical (replicate 6 0))"
    using level_loop_result[of 1 "replicate 6 0" "logical - 12"] by (simp add: sub *)
  show ?thesis
  proof (cases "idkfs_fill_chain logical (replicate 6 0)")
    case None
    with r ge show ?thesis by (intro beyond) (simp_all add: level_result_def level_base_def)
  next
    case (Some v)
    obtain lv c where v: "v = (lv, c)" by fastforce
    with r Some have "(\<Sum>k = 1..<lv. 512 ^ k) \<le> unat logical - 12" by (simp add: level_result_def)
    then have "level_base lv \<le> unat logical" using ge by (simp add: level_base_def)
    moreover have "unat logical - 12 - (\<Sum>k = 1..<lv. 512 ^ k) = unat logical - level_base lv"
      by (simp add: level_base_def)
    ultimately show ?thesis
      using r Some v by (intro indirect[of lv c]) (simp_all add: level_result_def)
  qed
qed

lemma level_base_mono: "l \<le> l' \<Longrightarrow> level_base l \<le> level_base l'"
  unfolding level_base_def by (intro add_left_mono sum_mono2) auto

lemma level_base_Suc: "1 \<le> l \<Longrightarrow> level_base (Suc l) = level_base l + 512 ^ l"
  by (simp add: level_base_def)

section \<open>What the chain means\<close>

text \<open>C14: \<open>idkfs_fill_chain\<close> decomposes every block number below \<open>12 + 512 + ... + 512^6\<close> and refuses the
  others: the first 12 are direct, and for the others there is a level from 1 to 6 with as many
  indices, each below 512, whose value to base 512 is the number of the block among those of its
  level. No arithmetic on the way overflows.\<close>

theorem fill_chain_decodes:
  "case idkfs_fill_chain logical (replicate 6 0) of
     None \<Rightarrow> level_base 7 \<le> unat logical
   | Some (level, chain) \<Rightarrow>
       unat logical < level_base 7 \<and> length chain = 6 \<and>
       (if level = 0 then unat logical < 12 \<and> chain ! 0 = logical
        else level \<le> 6 \<and> list_all (\<lambda>c. unat c < 512) (take level chain)
          \<and> unat logical = level_base level + digits_value (map unat (take level chain)))"
proof (cases rule: fill_chain_cases[of logical])
  case direct
  then show ?thesis by (simp add: level_base_def word_less_nat_alt)
next
  case (indirect level chain)
  let ?v = "unat logical - level_base level"
  have "level_base (Suc level) \<le> level_base 7"
    using indirect by (intro level_base_mono) simp
  then have "unat logical < level_base 7"
    using indirect by (simp add: level_base_Suc)
  moreover have "unat logical = level_base level + digits_value (map unat (take level chain))"
    using indirect by (simp add: digits_value_digits)
  moreover have "list_all (\<lambda>c. unat c < 512) (take level chain)"
  proof -
    have "\<forall>d \<in> set (map unat (take level chain)). d < 512"
      unfolding indirect(7) using digits_less[OF indirect(6)] by blast
    then show ?thesis by (simp add: list_all_iff)
  qed
  ultimately show ?thesis
    using indirect(1-4) by (simp only: option.case prod.case) simp
next
  case beyond
  then show ?thesis by simp
qed

end
