(* ===== verification/Blk_Resolve.thy ===== *)
theory Blk_Resolve
  imports Blk_Chain
begin

text \<open>
  Following the chain of \<^verbatim>\<open>idkfs_blk.c\<close> through the image: which pointer reads stay inside of the
  mapped bytes, and the block that \<open>idkfs_resolve_logical_block\<close> finds.
\<close>

section \<open>Bounds of the pointer reads\<close>

lemma unat_NULL_BLOCK [simp]: "unat BLK_NULL_BLOCK = 2 ^ 64 - 1"
  by (simp add: BLK_NULL_BLOCK_def unsigned_minus_1_eq_mask mask_eq_exp_minus_1)

lemma unat_block_byte: "unat (b * BLK_BLOCK_SIZE) = (unat b mod 2 ^ 52) * 4096"
proof -
  have "unat (b * BLK_BLOCK_SIZE) = (unat b * 4096) mod (2 ^ 52 * 4096)"
    by (simp add: unat_word_ariths)
  then show ?thesis by (simp only: mod_mult_mult2)
qed

lemma unat_byte_add:
  assumes "q * 4096 + k < 2 ^ 64" "unat byte = q * 4096" "k < 2 ^ 64"
  shows "unat ((byte :: u64) + of_nat k) = q * 4096 + k"
  using assms by (simp add: unat_word_ariths unat_of_nat)

lemma safe_inode_read_ld:
  assumes "backing_map s = Some m"
  shows "idkfs_safe_inode_read s ib off =
    (let q = unat ib mod 2 ^ 52
     in if q * 4096 + 144 \<le> map_bytes s then ld64 m (map_bytes s) (q * 4096 + 8 * unat off) else Some BLK_NULL_BLOCK)"
proof -
  define q where "q = unat ib mod 2 ^ 52"
  have "q < 2 ^ 52" by (simp add: q_def)
  then have "unat (ib * 4096 + of_nat 144) = q * 4096 + 144"
    by (intro unat_byte_add) (simp_all add: unat_block_byte q_def)
  then show ?thesis
    using assms by (simp add: idkfs_safe_inode_read_def Let_def word_less_nat_alt layout_simps
        unat_block_byte q_def not_less)
qed

lemma safe_inode_read_eq:
  assumes "backing_map s = Some m" "map_bytes s < 2 ^ 63" "unat off < 18"
  shows "idkfs_safe_inode_read s ib off =
    (let q = unat ib mod 2 ^ 52
     in Some (if q * 4096 + 144 \<le> map_bytes s then rd64 m (q * 4096 + 8 * unat off) else BLK_NULL_BLOCK))"
  using assms(3) by (simp add: safe_inode_read_ld[OF assms(1)] ld64_def Let_def)

lemma safe_pointer_read_eq:
  assumes "backing_map s = Some m" "map_bytes s < 2 ^ 63" "unat block mod 2 ^ 52 \<noteq> 2 ^ 52 - 1" "index < 512"
  shows "idkfs_safe_pointer_read s block index =
    (let q = unat block mod 2 ^ 52
     in Some (if (q + 1) * 4096 \<le> map_bytes s then rd64 m (q * 4096 + 8 * unat index) else BLK_NULL_BLOCK))"
proof -
  define q where "q = unat block mod 2 ^ 52"
  have "q < 2 ^ 52" by (simp add: q_def)
  with assms(3) have "q < 2 ^ 52 - 1" by (simp add: q_def)
  then have "unat (block * 4096 + of_nat 4096) = q * 4096 + 4096"
    by (intro unat_byte_add) (simp_all add: unat_block_byte q_def)
  moreover have "unat index < 512"
    using assms(4) by (simp add: word_less_nat_alt)
  ultimately show ?thesis
    using assms by (simp add: idkfs_safe_pointer_read_def Let_def word_less_nat_alt word_le_nat_alt ld64_def
        unat_block_byte q_def not_less)
qed

text \<open>C38: With an image mapped, \<open>idkfs_safe_pointer_read\<close> reads outside of the map for exactly the block
  numbers whose low 52 bits are all one (and an index below 512): there \<open>byte + IDKFS_BLOCK_SIZE\<close>
  wraps around to 0 and passes the check against \<open>backing_size\<close>. \<open>idkfs_safe_inode_read\<close>, which does not
  check its offset, reads outside exactly for an inode inside of the map and an offset whose word ends
  behind the map; so it never does for the 18 offsets of the inode's pointers.\<close>

theorem safe_reads_in_bounds:
  assumes "backing_map s = Some m" "map_bytes s < 2 ^ 63"
  shows "(idkfs_safe_pointer_read s block index = None \<longleftrightarrow> unat block mod 2 ^ 52 = 2 ^ 52 - 1 \<and> index < 512)
    \<and> (idkfs_safe_inode_read s block off = None \<longleftrightarrow>
         unat (block * 4096) + sizeof_inode_disk \<le> map_bytes s \<and> map_bytes s < unat (block * 4096) + 8 * unat off + 8)
    \<and> (unat off < 18 \<longrightarrow> idkfs_safe_inode_read s block off \<noteq> None)"
proof -
  have "idkfs_safe_pointer_read s block index = None"
    if q: "unat block mod 2 ^ 52 = 2 ^ 52 - 1" and i: "index < 512"
  proof -
    have byte: "unat (block * 4096) = 2 ^ 64 - 4096"
      unfolding unat_block_byte q by simp
    then have "unat (block * 4096 + 4096) = 0"
      by (simp add: unat_word_ariths)
    then have "block * 4096 + 4096 = 0"
      by (simp add: unat_eq_zero)
    then show ?thesis
      using assms i byte by (simp add: idkfs_safe_pointer_read_def Let_def ld64_def not_le)
  qed
  moreover have "idkfs_safe_pointer_read s block index \<noteq> None" if "\<not> index < 512"
    using that by (simp add: idkfs_safe_pointer_read_def Let_def not_less)
  ultimately have "idkfs_safe_pointer_read s block index = None \<longleftrightarrow> unat block mod 2 ^ 52 = 2 ^ 52 - 1 \<and> index < 512"
    using safe_pointer_read_eq[OF assms] by (metis option.distinct(1))
  moreover have "unat off < 18 \<longrightarrow> idkfs_safe_inode_read s block off \<noteq> None"
    using safe_inode_read_eq[OF assms] by (simp add: Let_def)
  moreover have "idkfs_safe_inode_read s block off = None \<longleftrightarrow>
      unat (block * 4096) + sizeof_inode_disk \<le> map_bytes s \<and> map_bytes s < unat (block * 4096) + 8 * unat off + 8"
    by (simp add: safe_inode_read_ld[OF assms(1)] ld64_def Let_def unat_block_byte layout_simps not_le)
  ultimately show ?thesis by blast
qed

definition demo_blk :: "mem \<Rightarrow> blk_state" where
  "demo_blk m = (blk_unloaded 65536 m)\<lparr>backing_file := FileOpen, backing_map := Some m, backing_size := 65536,
     idkfs_dev := True\<rparr>"

lemma demo_blk_simps [simp]:
  "backing_map (demo_blk m) = Some m" "backing_size (demo_blk m) = 65536" "idkfs_dev (demo_blk m)"
  "backing_file (demo_blk m) = FileOpen"
  by (simp_all add: demo_blk_def)

theorem safe_reads_in_bounds_witness:
  "idkfs_safe_pointer_read (demo_blk zeros) 0xFFFFFFFFFFFFF 0 = None
     \<and> idkfs_safe_inode_read (demo_blk zeros) 0xFFFFFFFFFFFFF 17 \<noteq> None"
  using safe_reads_in_bounds[of "demo_blk zeros" zeros "0xFFFFFFFFFFFFF" 0 17] by simp

section \<open>The block that is found\<close>

text \<open>The pointer \<open>i\<close> of block \<open>b\<close> of an image of \<open>n\<close> bytes, and following a list of indices.\<close>

definition ptr_at :: "mem \<Rightarrow> nat \<Rightarrow> nat \<Rightarrow> nat \<Rightarrow> u64" where
  "ptr_at m n b i = (if (b + 1) * 4096 \<le> n then rd64 m (b * 4096 + 8 * i) else BLK_NULL_BLOCK)"

fun follow :: "mem \<Rightarrow> nat \<Rightarrow> u64 \<Rightarrow> nat list \<Rightarrow> u64" where
  "follow m n b [] = b"
| "follow m n b (i # is) = (if b = BLK_NULL_BLOCK then BLK_NULL_BLOCK else follow m n (ptr_at m n (unat b) i) is)"

text \<open>Every aligned word of the image is the null pointer or below the wrap-around of byte offsets.\<close>

definition sane_pointers :: "mem \<Rightarrow> nat \<Rightarrow> bool" where
  "sane_pointers m n \<longleftrightarrow>
     (\<forall>a. a + 8 \<le> n \<longrightarrow> 8 dvd a \<longrightarrow> rd64 m a = BLK_NULL_BLOCK \<or> unat (rd64 m a) < 2 ^ 52 - 1)"

lemma follow_NULL [simp]: "follow m n BLK_NULL_BLOCK is = BLK_NULL_BLOCK"
  by (cases "is") simp_all

lemma ptr_at_sane:
  assumes "sane_pointers m n" "i < 512"
  shows "ptr_at m n b i = BLK_NULL_BLOCK \<or> unat (ptr_at m n b i) < 2 ^ 52 - 1"
proof (cases "(b + 1) * 4096 \<le> n")
  case True
  then have "b * 4096 + 8 * i + 8 \<le> n" "8 dvd b * 4096 + 8 * i"
    using assms(2) by (auto intro!: dvd_add dvd_mult)
  then show ?thesis
    using assms(1) True unfolding sane_pointers_def ptr_at_def by presburger
qed (simp add: ptr_at_def)

lemma depth_loop_follow:
  assumes "backing_map s = Some m" "map_bytes s < 2 ^ 63" "sane_pointers m (map_bytes s)"
    and "unat b < 2 ^ 52 - 1" "list_all (\<lambda>c. unat c < 512) cs"
  shows "depth_loop s b cs = Some (follow m (map_bytes s) b (map unat cs))"
  using assms(4,5)
proof (induction cs arbitrary: b)
  case (Cons c cs)
  have b: "unat b mod 2 ^ 52 = unat b" "b \<noteq> BLK_NULL_BLOCK"
    using Cons.prems(1) by auto
  let ?p = "ptr_at m (map_bytes s) (unat b) (unat c)"
  have "c < 512"
    using Cons.prems(2) by (simp add: word_less_nat_alt)
  with safe_pointer_read_eq[OF assms(1,2), of b c] b Cons.prems
  have read: "idkfs_safe_pointer_read s b c = Some ?p"
    by (simp add: ptr_at_def Let_def)
  have "?p = BLK_NULL_BLOCK \<or> unat ?p < 2 ^ 52 - 1"
    using Cons.prems(2) by (intro ptr_at_sane assms(3)) simp
  then show ?case
    using Cons.IH[of ?p] Cons.prems(2) b(2) by (auto simp: read)
qed simp

lemma inode_pointer_sane:
  assumes "sane_pointers m n" "b * 4096 + 144 \<le> n" "i < 18"
  shows "rd64 m (b * 4096 + 8 * i) = BLK_NULL_BLOCK \<or> unat (rd64 m (b * 4096 + 8 * i)) < 2 ^ 52 - 1"
proof -
  have "b * 4096 + 8 * i + 8 \<le> n" "8 dvd b * 4096 + 8 * i"
    using assms by (auto intro!: dvd_add dvd_mult)
  then show ?thesis
    using assms(1) unfolding sane_pointers_def by blast
qed

lemma fill_chain_decodes_none:
  assumes "level_base 7 \<le> unat logical"
  shows "idkfs_fill_chain logical (replicate 6 0) = None"
proof (cases rule: fill_chain_cases[of logical])
  case direct
  then show ?thesis using assms by (simp add: word_less_nat_alt level_base_def)
next
  case (indirect level chain)
  have "level_base (Suc level) \<le> level_base 7"
    using indirect by (intro level_base_mono) simp
  with indirect assms level_base_Suc[of level] show ?thesis by linarith
qed

lemma digits_digits_value:
  assumes "\<forall>d \<in> set ds. d < 512"
  shows "digits (length ds) (digits_value ds) = ds \<and> digits_value ds < 512 ^ length ds"
  using assms
proof (induction ds rule: rev_induct)
  case (snoc d ds)
  have app: "digits (Suc k) (v * 512 + d) = digits k v @ [d]" if "v < 512 ^ k" "d < 512" for k v
    using that
  proof (induction k arbitrary: v)
    case (Suc k)
    have div: "(v * 512 + d) div 512 ^ Suc k = v div 512 ^ k"
      using Suc.prems(2) by (simp add: div_mult2_eq)
    have "(v * 512 + d) mod 512 ^ Suc k = (v mod 512 ^ k) * 512 + d"
      using Suc.prems(2) by (simp add: mod_mult2_eq mult.commute)
    then show ?case
      using Suc.IH[of "v mod 512 ^ k"] Suc.prems(2) div by simp
  qed simp
  have "digits_value (ds @ [d]) = digits_value ds * 512 + d"
    by (simp add: digits_value_def)
  moreover have "digits_value ds * 512 + d < 512 ^ length ds * 512"
    using snoc by auto
  ultimately show ?case
    using snoc app[of "digits_value ds" "length ds"] by (simp add: mult.commute)
qed (simp add: digits_value_def)

lemma fill_chain_level:
  assumes "1 \<le> l" "l \<le> 6" "length ds = l" "\<forall>d \<in> set ds. d < 512"
    and "unat logical = level_base l + digits_value ds"
  obtains chain where "idkfs_fill_chain logical (replicate 6 0) = Some (l, chain)" "map unat (take l chain) = ds"
proof (cases rule: fill_chain_cases[of logical])
  case direct
  then show ?thesis using assms(5) by (simp add: word_less_nat_alt level_base_def)
next
  case (indirect level chain)
  have v: "digits_value ds < 512 ^ l"
    using digits_digits_value[OF assms(4)] assms(3) by simp
  have "level = l"
  proof (rule ccontr)
    assume "level \<noteq> l"
    then consider "Suc level \<le> l" | "Suc l \<le> level" by linarith
    then show False
    proof cases
      case 1
      with level_base_mono[OF 1] level_base_Suc[OF indirect(2)] indirect(6) assms(5) show False by linarith
    next
      case 2
      with level_base_mono[OF 2] level_base_Suc[OF assms(1)] indirect(5) assms(5) v show False by linarith
    qed
  qed
  moreover have "digits l (digits_value ds) = ds"
    using digits_digits_value[OF assms(4)] assms(3) by simp
  ultimately show ?thesis
    using indirect assms(5) by (intro that[of chain]) simp_all
next
  case beyond
  have "level_base (Suc l) \<le> level_base 7"
    using assms(2) by (intro level_base_mono) simp
  moreover have "digits_value ds < 512 ^ l"
    using digits_digits_value[OF assms(4)] assms(3) by simp
  ultimately show ?thesis
    using beyond(2) assms(5) level_base_Suc[OF assms(1)] by linarith
qed

lemma level_index: "1 \<le> l \<Longrightarrow> l \<le> 6 \<Longrightarrow> unat (BLK_DIRECT_BLOCKS + of_nat l - 1) = 11 + l"
proof -
  assume "1 \<le> l" "l \<le> 6"
  then have "BLK_DIRECT_BLOCKS + of_nat l - 1 = of_nat (11 + l)" by simp
  moreover have "unat (of_nat (11 + l) :: u64) = 11 + l"
    unfolding unat_of_nat using \<open>l \<le> 6\<close> by simp
  ultimately show ?thesis by (simp only:)
qed

text \<open>C15: In a mapped image without wild pointers, and for an inode inside of it, the block that
  \<open>idkfs_resolve_logical_block\<close> finds is the direct pointer for one of the first 12 blocks; for the block
  with indices \<open>ds\<close> of level \<open>l\<close> it is what following \<open>ds\<close> from the inode's indirect pointer
  \<open>l\<close> gives (null as soon as a pointer is null or outside of the image); and null for the block numbers
  that have no address.\<close>

theorem resolve_follows_pointers:
  assumes map: "backing_map s = Some m" "map_bytes s < 2 ^ 63" and sane: "sane_pointers m (map_bytes s)"
    and inode: "unat ib * 4096 + 144 \<le> map_bytes s"
  shows "(unat logical < 12 \<longrightarrow> idkfs_resolve_logical_block s logical ib = Some (rd64 m (unat ib * 4096 + 8 * unat logical)))
    \<and> (1 \<le> l \<longrightarrow> l \<le> 6 \<longrightarrow> length ds = l \<longrightarrow> (\<forall>d \<in> set ds. d < 512)
      \<longrightarrow> unat logical = level_base l + digits_value ds
      \<longrightarrow> idkfs_resolve_logical_block s logical ib = Some (follow m (map_bytes s) (rd64 m (unat ib * 4096 + 8 * (11 + l))) ds))
    \<and> (level_base 7 \<le> unat logical \<longrightarrow> idkfs_resolve_logical_block s logical ib = Some BLK_NULL_BLOCK)"
proof -
  have ib: "unat ib mod 2 ^ 52 = unat ib"
    using inode map(2) by (intro mod_less) simp
  have read: "idkfs_safe_inode_read s ib k = Some (rd64 m (unat ib * 4096 + 8 * unat k))" if "unat k < 18" for k
    using safe_inode_read_eq[OF map that, of ib] ib inode by (simp add: Let_def)
  have "idkfs_resolve_logical_block s logical ib = Some (rd64 m (unat ib * 4096 + 8 * unat logical))"
    if "unat logical < 12"
    using that by (simp add: idkfs_resolve_logical_block_def idkfs_fill_chain_def word_less_nat_alt read)
  moreover have "idkfs_resolve_logical_block s logical ib = Some BLK_NULL_BLOCK" if "level_base 7 \<le> unat logical"
    using fill_chain_decodes_none[OF that] by (simp add: idkfs_resolve_logical_block_def)
  moreover have "idkfs_resolve_logical_block s logical ib = Some (follow m (map_bytes s) (rd64 m (unat ib * 4096 + 8 * (11 + l))) ds)"
    if l: "1 \<le> l" "l \<le> 6" "length ds = l" and ds: "\<forall>d \<in> set ds. d < 512"
      and logical: "unat logical = level_base l + digits_value ds"
  proof -
    obtain chain where chain: "idkfs_fill_chain logical (replicate 6 0) = Some (l, chain)" "map unat (take l chain) = ds"
      using fill_chain_level[OF l ds logical] by blast
    let ?p = "rd64 m (unat ib * 4096 + 8 * (11 + l))"
    have "list_all (\<lambda>c. unat c < 512) (take l chain)"
      using ds unfolding chain(2)[symmetric] by (auto simp: list_all_iff)
    then have "?p = BLK_NULL_BLOCK \<or> depth_loop s ?p (take l chain) = Some (follow m (map_bytes s) ?p ds)"
      using inode_pointer_sane[OF sane inode, of "11 + l"] l depth_loop_follow[OF map sane, of ?p "take l chain"]
      unfolding chain(2) by auto
    then show ?thesis
      using l chain(1) read[of "BLK_DIRECT_BLOCKS + of_nat l - 1"] level_index[OF l(1,2)]
      by (auto simp: idkfs_resolve_logical_block_def)
  qed
  ultimately show ?thesis by blast
qed

text \<open>An image whose inode, in block 0, points to block 1 at the first level, with a pointer to block 7 at
  index 3.\<close>

definition demo_tree :: mem where
  "demo_tree = wr64 (wr64 zeros 96 1) (4096 + 24) 7"

lemma rd64_zeros [simp]: "rd64 zeros a = 0"
  by (simp add: rd64_def rd32_def)

lemma rd64_wr64_aligned: "8 dvd a \<Longrightarrow> 8 dvd b \<Longrightarrow> rd64 (wr64 m a v) b = (if a = b then v else rd64 m b)"
proof -
  assume "8 dvd a" "8 dvd b"
  then have "a = b \<or> b + 8 \<le> a \<or> a + 8 \<le> b"
    by (elim dvdE) auto
  then show ?thesis by (auto simp: mem_simps)
qed

lemma demo_tree_sane: "sane_pointers demo_tree n"
  by (auto simp: sane_pointers_def demo_tree_def rd64_wr64_aligned)

theorem resolve_follows_pointers_witness:
  "idkfs_resolve_logical_block (demo_blk demo_tree) 15 0 = Some 7
     \<and> idkfs_resolve_logical_block (demo_blk demo_tree) 11 0 = Some 0
     \<and> idkfs_resolve_logical_block (demo_blk demo_tree) (2 ^ 60) 0 = Some BLK_NULL_BLOCK"
proof -
  note r = resolve_follows_pointers[of "demo_blk demo_tree" demo_tree 0, simplified, OF demo_tree_sane]
  have "rd64 demo_tree 96 = 1" "rd64 demo_tree 4120 = 7" "rd64 demo_tree 88 = 0"
    by (simp_all add: demo_tree_def rd64_wr64_aligned)
  moreover have "{1..<7} = {1, 2, 3, 4, 5, 6 :: nat}" by auto
  then have "level_base 7 \<le> unat (2 ^ 60 :: u64)"
    by (simp add: level_base_def)
  ultimately show ?thesis
    using r[of 11 1 "[]"] r[of 15 1 "[3]"] r[of "2 ^ 60" 1 "[]"]
    by (simp add: level_base_def digits_value_def ptr_at_def BLK_NULL_BLOCK_def)
qed

end
