(* ===== verification/Blk_Io.thy ===== *)
theory Blk_Io
  imports Blk_Resolve
begin

text \<open>
  The request handler of \<^verbatim>\<open>idkfs_blk.c\<close>: it stays inside of the mapped image for every request, and a
  request of whole sectors reads or writes exactly the bytes it names.
\<close>

lemma unat_ucast_u32 [simp]: "unat (ucast (w :: u32) :: u64) = unat w"
proof -
  have "unat w < 2 ^ 64"
    using unsigned_less[of w, where 'a = nat] by simp
  then show ?thesis
    by (simp add: unsigned_ucast_eq take_bit_nat_eq_self)
qed

lemma unat_len [simp]: "length buf < 2 ^ 32 \<Longrightarrow> unat (of_nat (length buf) :: u32) = length buf"
  by (simp add: unat_of_nat)

lemma unat_len_sectors [simp]:
  "length buf < 2 ^ 32 \<Longrightarrow> unat (drop_bit 9 (of_nat (length buf) :: u32)) = length buf div 512"
  by (simp add: drop_bit_eq_div unat_div unat_of_nat)

text \<open>A device with a mapped image, of a size that a file can have.\<close>

definition blk_ready :: "blk_state \<Rightarrow> mem \<Rightarrow> bool" where
  "blk_ready s m \<longleftrightarrow> idkfs_dev s \<and> backing_map s = Some m \<and> backing_size s \<noteq> 0 \<and> map_bytes s < 2 ^ 63"

abbreviation bufs_ok :: "u8 list list \<Rightarrow> bool" where
  "bufs_ok segs \<equiv> list_all (\<lambda>b. length b < 2 ^ 32) segs"

text \<open>The state after one segment was written.\<close>

definition stored :: "blk_state \<Rightarrow> mem \<Rightarrow> nat \<Rightarrow> u8 list \<Rightarrow> blk_state" where
  "stored s m off buf = s\<lparr>backing_map := Some (memcpy m off (mem_of buf) 0 (length buf)), journal_dirty := True\<rparr>"

lemma stored_ready: "blk_ready s m \<Longrightarrow> blk_ready (stored s m off buf) (memcpy m off (mem_of buf) 0 (length buf))"
  by (simp add: blk_ready_def stored_def)

lemma stored_size [simp]: "backing_size (stored s m off buf) = backing_size s"
  by (simp add: stored_def)

lemma unat_off_len:
  assumes "unat off \<le> n" "n < 2 ^ 63" "length buf < 2 ^ 32"
  shows "unat ((off :: u64) + ucast (of_nat (length buf) :: u32)) = unat off + length buf"
  using assms by (simp add: unat_word_ariths)

text \<open>One step of the loop, with the checks resolved.\<close>

lemma segment_loop_step:
  assumes r: "blk_ready s m" and off: "unat off \<le> map_bytes s" and len: "length buf < 2 ^ 32"
  shows "segment_loop s op sector off (buf # segs) =
    (if map_bytes s < unat off + length buf then Some (s, buf # segs, BLK_STS_IOERR)
     else let sector' = sector + of_nat (length buf div 512) in
       if op = REQ_OP_READ
       then do { (s', bufs, st) \<leftarrow> segment_loop s op sector' (push_bit 9 sector') segs;
                 Some (s', bytes_of m (unat off) (length buf) # bufs, st) }
       else do { (s', bufs, st) \<leftarrow> segment_loop (stored s m (unat off) buf) op sector' (push_bit 9 sector') segs;
                 Some (s', buf # bufs, st) })"
proof -
  have "ucast (drop_bit 9 (of_nat (length buf) :: u32)) = (of_nat (length buf div 512) :: u64)"
    using len by (simp add: word_unat_eq_iff unat_of_nat)
  moreover have "backing_size s < off + ucast (of_nat (length buf) :: u32) \<longleftrightarrow> map_bytes s < unat off + length buf"
    using r unat_off_len[OF off _ len] by (simp add: word_less_nat_alt blk_ready_def)
  ultimately show ?thesis
    using r len by (simp add: Let_def blk_ready_def stored_def)
qed

declare segment_loop.simps(2) [simp del]

lemma next_offset:
  assumes "off = push_bit 9 sector" "unat off + length buf \<le> n" "n < 2 ^ 63"
  shows "unat (push_bit 9 (sector + of_nat (length buf div 512)) :: u64) = unat off + length buf div 512 * 512"
proof -
  have "push_bit 9 (sector + of_nat (length buf div 512)) = off + of_nat (length buf div 512 * 512)"
    by (simp add: assms(1) push_bit_eq_mult algebra_simps)
  moreover have "length buf div 512 * 512 \<le> length buf" by simp
  then have "unat off + length buf div 512 * 512 < 2 ^ 64"
    using assms(2,3) by simp
  then have "unat (off + of_nat (length buf div 512 * 512)) = unat off + length buf div 512 * 512"
    unfolding unat_word_ariths unat_of_nat by simp
  ultimately show ?thesis by simp
qed

lemma segment_loop_safe:
  assumes "blk_ready s m" "off = push_bit 9 sector" "unat off \<le> map_bytes s" "bufs_ok segs"
  shows "\<exists>s' bufs st. segment_loop s op sector off segs = Some (s', bufs, st)
     \<and> map length bufs = map length segs \<and> backing_size s' = backing_size s \<and> (\<exists>m'. blk_ready s' m')
     \<and> (op = REQ_OP_READ \<longrightarrow> s' = s)"
  using assms
proof (induction segs arbitrary: s m sector off)
  case Nil
  then show ?case by auto
next
  case (Cons buf segs)
  define sector' where "sector' = sector + of_nat (length buf div 512)"
  show ?case
  proof (cases "map_bytes s < unat off + length buf")
    case True
    with Cons.prems show ?thesis by (auto simp: segment_loop_step)
  next
    case False
    have n: "map_bytes s < 2 ^ 63"
      using Cons.prems(1) by (simp add: blk_ready_def)
    have "unat (push_bit 9 sector' :: u64) = unat off + length buf div 512 * 512"
      unfolding sector'_def by (rule next_offset[OF Cons.prems(2) _ n]) (use False in simp)
    moreover have "length buf div 512 * 512 \<le> length buf" by simp
    ultimately have nxt: "unat (push_bit 9 sector' :: u64) \<le> map_bytes s"
      using False by linarith
    note step = segment_loop_step[OF Cons.prems(1,3), of buf op sector segs]
    show ?thesis
    proof (cases "op = REQ_OP_READ")
      case True
      from Cons.IH[OF Cons.prems(1) refl nxt] Cons.prems(4)
      obtain bufs st where "segment_loop s op sector' (push_bit 9 sector') segs = Some (s, bufs, st)"
        "map length bufs = map length segs"
        using True by auto
      with True step False Cons.prems(1,4) show ?thesis
        by (auto simp: Let_def sector'_def[symmetric])
    next
      case op: False
      from Cons.IH[OF stored_ready[OF Cons.prems(1), of "unat off" buf] refl, of sector'] nxt Cons.prems(4)
      obtain s' bufs st where "segment_loop (stored s m (unat off) buf) op sector' (push_bit 9 sector') segs = Some (s', bufs, st)"
        "map length bufs = map length segs" "backing_size s' = backing_size s" "\<exists>m'. blk_ready s' m'"
        by auto
      with op step False Cons.prems(1,4) show ?thesis
        by (auto simp: Let_def sector'_def[symmetric])
    qed
  qed
qed

text \<open>C34: On a ready device \<open>idkfs_blk_dispatch\<close> never touches a byte outside of the mapped image, whatever
  sector, direction and segment lengths a request has: it returns a status, keeps the size of the
  image and of each buffer, and a read leaves the device as it was.\<close>

theorem dispatch_stays_in_bounds:
  assumes "blk_ready s m" "bufs_ok (rq_segs rq)"
  shows "\<exists>s' bufs st. idkfs_blk_dispatch s rq = Some (s', bufs, st)
     \<and> map length bufs = map length (rq_segs rq) \<and> backing_size s' = backing_size s \<and> (\<exists>m'. blk_ready s' m')
     \<and> (rq_op rq = REQ_OP_READ \<longrightarrow> s' = s)"
  using assms segment_loop_safe[OF assms(1) refl, of "rq_pos rq" "rq_segs rq" "rq_op rq"]
  by (auto simp: idkfs_blk_dispatch_def Let_def not_le word_less_nat_alt)

theorem dispatch_stays_in_bounds_witness:
  "\<exists>s' bufs st. idkfs_blk_dispatch (demo_blk zeros) \<lparr>rq_op = REQ_OP_WRITE, rq_pos = 127, rq_segs = [[1, 2], [3]]\<rparr> = Some (s', bufs, st)
     \<and> backing_size s' = 65536"
proof -
  have "blk_ready (demo_blk zeros) zeros" by (simp add: blk_ready_def)
  from dispatch_stays_in_bounds[OF this, of "\<lparr>rq_op = REQ_OP_WRITE, rq_pos = 127, rq_segs = [[1, 2], [3]]\<rparr>"]
  show ?thesis by auto
qed

text \<open>The loop changes only the bytes from its start offset on and the flag of unflushed changes.\<close>

lemma segment_loop_frame:
  assumes "blk_ready s m" "off = push_bit 9 sector" "unat off \<le> map_bytes s" "bufs_ok segs"
    and "segment_loop s op sector off segs = Some (s', bufs, st)"
  shows "\<exists>m' d. s' = s\<lparr>backing_map := Some m', journal_dirty := d\<rparr> \<and> (\<forall>i < unat off. m' i = m i)"
  using assms
proof (induction segs arbitrary: s m sector off s' bufs)
  case Nil
  then show ?case by (intro exI[of _ m] exI[of _ "journal_dirty s"]) (simp add: blk_ready_def)
next
  case (Cons buf segs)
  define sector' where "sector' = sector + of_nat (length buf div 512)"
  have n: "map_bytes s < 2 ^ 63" and s: "s\<lparr>backing_map := Some m, journal_dirty := journal_dirty s\<rparr> = s"
    using Cons.prems(1) by (simp_all add: blk_ready_def)
  note step = segment_loop_step[OF Cons.prems(1,3), of buf op sector segs]
  show ?case
  proof (cases "map_bytes s < unat off + length buf")
    case True
    with step Cons.prems(4,5) s show ?thesis by (intro exI[of _ m] exI[of _ "journal_dirty s"]) simp
  next
    case False
    have off': "unat (push_bit 9 sector' :: u64) = unat off + length buf div 512 * 512"
      unfolding sector'_def by (rule next_offset[OF Cons.prems(2) _ n]) (use False in simp)
    moreover have "length buf div 512 * 512 \<le> length buf" by simp
    ultimately have nxt: "unat (push_bit 9 sector' :: u64) \<le> map_bytes s" "unat off \<le> unat (push_bit 9 sector' :: u64)"
      using False by linarith+
    show ?thesis
    proof (cases "op = REQ_OP_READ")
      case True
      then obtain bufs' where "segment_loop s op sector' (push_bit 9 sector') segs = Some (s', bufs', st)"
        using step False Cons.prems(4,5) by (auto simp: Let_def sector'_def[symmetric] split: Option.bind_splits)
      from Cons.IH[OF Cons.prems(1) refl nxt(1) _ this] Cons.prems(4) nxt(2) show ?thesis
        by fastforce
    next
      case op: False
      let ?s = "stored s m (unat off) buf"
      obtain bufs' where "segment_loop ?s op sector' (push_bit 9 sector') segs = Some (s', bufs', st)"
        using op step False Cons.prems(4,5) by (auto simp: Let_def sector'_def[symmetric] split: Option.bind_splits)
      from Cons.IH[OF stored_ready[OF Cons.prems(1)] refl _ _ this] Cons.prems(4) nxt
      obtain m' d where "s' = ?s\<lparr>backing_map := Some m', journal_dirty := d\<rparr>"
        "\<forall>i < unat (push_bit 9 sector' :: u64). m' i = memcpy m (unat off) (mem_of buf) 0 (length buf) i"
        by auto
      then show ?thesis
        using nxt(2) by (intro exI[of _ m'] exI[of _ d]) (auto simp: stored_def memcpy_def)
    qed
  qed
qed

section \<open>Whole sectors\<close>

text \<open>A request of whole sectors, and the bytes of its segments one after the other.\<close>

abbreviation sectors_ok :: "u8 list list \<Rightarrow> bool" where
  "sectors_ok segs \<equiv> list_all (\<lambda>b. length b < 2 ^ 32 \<and> 512 dvd length b) segs"

lemma memcpy_chunks:
  "memcpy (memcpy m off (mem_of xs) 0 (length xs)) (off + length xs) (mem_of ys) 0 (length ys)
     = memcpy m off (mem_of (xs @ ys)) 0 (length xs + length ys)"
  by (auto simp: memcpy_def fun_eq_iff mem_of_def nth_append)

lemma memcpy_none [simp]: "memcpy m off src 0 0 = m"
  by (auto simp: memcpy_def fun_eq_iff)

lemma bytes_of_append: "bytes_of m off (k + l) = bytes_of m off k @ bytes_of m (off + k) l"
  by (rule nth_equalityI) (auto simp: nth_append)

lemma bytes_of_memcpy: "bytes_of (memcpy m off (mem_of bs) 0 (length bs)) off (length bs) = bs"
  by (rule nth_equalityI) (auto simp: memcpy_def mem_of_def)

lemma sector_step:
  assumes "off = push_bit 9 sector" "unat off + length buf \<le> n" "n < 2 ^ 63" "512 dvd length buf"
  shows "unat (push_bit 9 (sector + of_nat (length buf div 512)) :: u64) = unat off + length buf"
  using next_offset[OF assms(1-3)] assms(4) by simp

lemma segment_loop_write:
  assumes "blk_ready s m" "off = push_bit 9 sector" "unat off + length (concat segs) \<le> map_bytes s" "sectors_ok segs"
  shows "segment_loop s REQ_OP_WRITE sector off segs =
    Some (if segs = [] then s else stored s m (unat off) (concat segs), segs, BLK_STS_OK)"
  using assms
proof (induction segs arbitrary: s m sector off)
  case (Cons buf segs)
  define sector' where "sector' = sector + of_nat (length buf div 512)"
  have n: "map_bytes s < 2 ^ 63"
    using Cons.prems(1) by (simp add: blk_ready_def)
  have off': "unat (push_bit 9 sector' :: u64) = unat off + length buf"
    unfolding sector'_def using Cons.prems by (intro sector_step[OF _ _ n]) simp_all
  let ?s = "stored s m (unat off) buf"
  have "segment_loop ?s REQ_OP_WRITE sector' (push_bit 9 sector') segs =
    Some (if segs = [] then ?s
          else stored ?s (memcpy m (unat off) (mem_of buf) 0 (length buf)) (unat off + length buf) (concat segs),
          segs, BLK_STS_OK)"
    unfolding off'[symmetric] using Cons.prems off'
    by (intro Cons.IH stored_ready) simp_all
  moreover have "stored ?s (memcpy m (unat off) (mem_of buf) 0 (length buf)) (unat off + length buf) (concat segs)
      = stored s m (unat off) (buf @ concat segs)"
    by (simp add: stored_def memcpy_chunks)
  ultimately show ?case
    using Cons.prems segment_loop_step[OF Cons.prems(1), of off buf REQ_OP_WRITE sector segs]
    by (simp add: Let_def sector'_def[symmetric])
qed simp

lemma segment_loop_read:
  assumes "blk_ready s m" "off = push_bit 9 sector" "unat off + length (concat segs) \<le> map_bytes s" "sectors_ok segs"
  shows "\<exists>bufs. segment_loop s REQ_OP_READ sector off segs = Some (s, bufs, BLK_STS_OK)
     \<and> map length bufs = map length segs \<and> concat bufs = bytes_of m (unat off) (length (concat segs))"
  using assms
proof (induction segs arbitrary: sector off)
  case (Cons buf segs)
  define sector' where "sector' = sector + of_nat (length buf div 512)"
  have n: "map_bytes s < 2 ^ 63"
    using Cons.prems(1) by (simp add: blk_ready_def)
  have off': "unat (push_bit 9 sector' :: u64) = unat off + length buf"
    unfolding sector'_def using Cons.prems by (intro sector_step[OF _ _ n]) simp_all
  from Cons.IH[OF Cons.prems(1) refl, of sector'] Cons.prems off'
  obtain bufs where "segment_loop s REQ_OP_READ sector' (push_bit 9 sector') segs = Some (s, bufs, BLK_STS_OK)"
    "map length bufs = map length segs" "concat bufs = bytes_of m (unat off + length buf) (length (concat segs))"
    by (auto simp: add.assoc)
  with Cons.prems segment_loop_step[OF Cons.prems(1), of off buf REQ_OP_READ sector segs] show ?case
    by (simp add: Let_def sector'_def[symmetric] bytes_of_append)
qed (simp add: bytes_of_def)

text \<open>The request of the given direction for the sectors from \<open>pos\<close> on.\<close>

abbreviation (input) mk_rq :: "req_op \<Rightarrow> u64 \<Rightarrow> u8 list list \<Rightarrow> request" where
  "mk_rq op pos segs \<equiv> \<lparr>rq_op = op, rq_pos = pos, rq_segs = segs\<rparr>"

lemma dispatch_in_range:
  assumes "blk_ready s m" "unat pos * 512 + length (concat segs) \<le> map_bytes s" "0 < length (concat segs)" "op \<noteq> REQ_OP_OTHER"
  shows "idkfs_blk_dispatch s (mk_rq op pos segs) = segment_loop s op pos (push_bit 9 pos) segs"
    and "unat (push_bit 9 pos :: u64) = unat pos * 512"
proof -
  show off: "unat (push_bit 9 pos :: u64) = unat pos * 512"
    using assms(1,2) by (simp add: push_bit_eq_mult unat_word_ariths blk_ready_def)
  have "unat pos * 512 < map_bytes s"
    using assms(2,3) by linarith
  with off assms(1,4) show "idkfs_blk_dispatch s (mk_rq op pos segs) = segment_loop s op pos (push_bit 9 pos) segs"
    by (simp add: idkfs_blk_dispatch_def Let_def blk_ready_def word_le_nat_alt)
qed

text \<open>C16: A write request of whole sectors inside of the image stores the bytes of its segments one after
  the other, changes no other byte, and marks the image as not yet flushed; a read of the same sectors
  then returns these bytes.\<close>

theorem dispatch_write_read:
  assumes "blk_ready s m" "sectors_ok segs" "sectors_ok segs'"
    and "0 < length (concat segs)" "length (concat segs') = length (concat segs)"
    and "unat pos * 512 + length (concat segs) \<le> map_bytes s"
  shows "\<exists>s' bufs. idkfs_blk_dispatch s (mk_rq REQ_OP_WRITE pos segs) = Some (s', segs, BLK_STS_OK)
     \<and> s' = s\<lparr>backing_map := Some (memcpy m (unat pos * 512) (mem_of (concat segs)) 0 (length (concat segs))), journal_dirty := True\<rparr>
     \<and> idkfs_blk_dispatch s' (mk_rq REQ_OP_READ pos segs') = Some (s', bufs, BLK_STS_OK)
     \<and> concat bufs = concat segs"
proof -
  note w = dispatch_in_range[OF assms(1,6,4), of REQ_OP_WRITE, simplified]
  let ?s = "stored s m (unat pos * 512) (concat segs)"
  let ?m = "memcpy m (unat pos * 512) (mem_of (concat segs)) 0 (length (concat segs))"
  have ready: "blk_ready ?s ?m"
    using assms(1) by (rule stored_ready)
  have "idkfs_blk_dispatch s (mk_rq REQ_OP_WRITE pos segs) = Some (?s, segs, BLK_STS_OK)"
    using segment_loop_write[OF assms(1) refl _ assms(2), of pos] w assms(4,6) by auto
  moreover obtain bufs where "idkfs_blk_dispatch ?s (mk_rq REQ_OP_READ pos segs') = Some (?s, bufs, BLK_STS_OK)"
    "concat bufs = bytes_of ?m (unat pos * 512) (length (concat segs))"
    using segment_loop_read[OF ready refl _ assms(3), of pos] dispatch_in_range[OF ready, of pos segs' REQ_OP_READ]
      w(2) assms(4-6) by auto
  ultimately show ?thesis
    by (simp add: bytes_of_memcpy stored_def)
qed

theorem dispatch_write_read_witness:
  "\<exists>s' bufs. idkfs_blk_dispatch (demo_blk zeros) (mk_rq REQ_OP_WRITE 8 [replicate 512 5, replicate 512 6]) = Some (s', [replicate 512 5, replicate 512 6], BLK_STS_OK)
     \<and> idkfs_blk_dispatch s' (mk_rq REQ_OP_READ 8 [replicate 1024 0]) = Some (s', bufs, BLK_STS_OK)
     \<and> concat bufs = replicate 512 5 @ replicate 512 6"
proof -
  have "blk_ready (demo_blk zeros) zeros" by (simp add: blk_ready_def)
  from dispatch_write_read[OF this, of "[replicate 512 5, replicate 512 6]" "[replicate 1024 0]" 8]
  show ?thesis by auto
qed

end
