(* ===== verification/Mkfs_Fsck.thy ===== *)
theory Mkfs_Fsck
  imports Kfs_Types
begin

text \<open>
  The two host programs of the kernel format: \<^verbatim>\<open>mkfs_idkfs.c\<close> writes a new image,
  \<^verbatim>\<open>tools/idkfs_fsck.c\<close> checks one. A host file is the list of its bytes. The answers of the
  operating system are arguments: which \<open>open\<close> and \<open>read\<close> calls succeed, and how many bytes each
  \<open>write\<close> takes.
\<close>

section \<open>mkfs\<close>

definition mkfs_super :: idkfs_super_block where
  "mkfs_super = \<lparr>ks_magic = KFS_MAGIC, ks_version = KFS_VERSION, ks_generation = 1, ks_root_node = 0,
     ks_next_fast = 10, ks_next_normal = (1024 * 1024) div 4, ks_next_slow = (1024 * 1024) div 2,
     ks_total_blocks = 1024 * 1024, ks_free_blocks = 1024 * 1024 - 16,
     ks_tx_region_block = 1, ks_snap_region_block = 2, ks_uuid = zeros, ks_checksum = 0, ks_pad = zeros\<rparr>"

definition mkfs_tx :: idkfs_tx_record where
  "mkfs_tx = \<lparr>tx_magic = KFS_TX_MAGIC, tx_state = 0, tx_pending_generation = 1,
     tx_committed_generation = 1, tx_checksum = 0, tx_pad = zeros\<rparr>"

definition mkfs_snaps :: idkfs_snapshot_table where
  "mkfs_snaps = \<lparr>st_magic = KFS_SNAP_MAGIC, st_count = 0, st_next_id = 1, st_checksum = 0,
     st_entries = (\<lambda>_. zero_snapshot_entry)\<rparr>"

text \<open>\<open>write(fd, buf, n)\<close> at the end of the file, when the system call answers \<open>w\<close>: a negative
  answer writes nothing, another one that many bytes of the buffer.\<close>

definition write_end :: "int \<Rightarrow> u8 list \<Rightarrow> u8 list \<Rightarrow> u8 list" where
  "write_end w file buf = file @ take (nat w) buf"

text \<open>The exit status and the file; \<open>w0\<close>, \<open>w1\<close>, \<open>w2\<close> are the answers of the three writes. Without a
  file argument, or when \<open>open\<close> fails, no file is made.\<close>

definition mkfs_idkfs_main :: "nat \<Rightarrow> bool \<Rightarrow> int \<Rightarrow> int \<Rightarrow> int \<Rightarrow> int \<times> u8 list option" where
  "mkfs_idkfs_main argc open_ok w0 w1 w2 =
     (if argc < 2 then (1, None)
      else if \<not> open_ok then (1, None)
      else let f0 = write_end w0 [] (super_block_bytes mkfs_super) in
        if w0 \<noteq> int sizeof_super_block then (1, Some f0)
        else let f1 = write_end w1 f0 (tx_record_bytes mkfs_tx) in
          if w1 \<noteq> int sizeof_tx_record then (1, Some f1)
          else let f2 = write_end w2 f1 (snapshot_table_bytes mkfs_snaps) in
            if w2 \<noteq> int sizeof_snapshot_table then (1, Some f2)
            else (0, Some f2))"

section \<open>fsck\<close>

text \<open>\<open>lseek\<close> to the cast of a \<open>u64\<close> to \<open>long\<close>: a negative offset is refused.\<close>

definition lseek_set :: "u64 \<Rightarrow> nat option" where
  "lseek_set pos = (if sint pos < 0 then None else Some (unat pos))"

text \<open>\<open>read\<close> of \<open>n\<close> bytes at an offset gives fewer bytes at the end of the file; with
  \<open>ok\<close> false it fails. The functions below read one struct, and fail unless all of it was read.\<close>

definition read_at :: "bool \<Rightarrow> u8 list \<Rightarrow> nat \<Rightarrow> nat \<Rightarrow> u8 list option" where
  "read_at ok file pos n = (if ok then Some (take n (drop pos file)) else None)"

definition read_struct :: "bool \<Rightarrow> u8 list \<Rightarrow> u64 \<Rightarrow> nat \<Rightarrow> mem option" where
  "read_struct ok file pos n = do {
     p \<leftarrow> lseek_set pos;
     bs \<leftarrow> read_at ok file p n;
     if length bs = n then Some (mem_of bs) else None }"

definition read_super :: "bool \<Rightarrow> u8 list \<Rightarrow> idkfs_super_block option" where
  "read_super ok file = map_option (\<lambda>m. mem_super_block m 0) (read_struct ok file 0 sizeof_super_block)"

definition read_tx :: "bool \<Rightarrow> u8 list \<Rightarrow> idkfs_super_block \<Rightarrow> idkfs_tx_record option" where
  "read_tx ok file sb = map_option (\<lambda>m. mem_tx_record m 0)
     (read_struct ok file (ks_tx_region_block sb * KFS_BLOCK_SIZE) sizeof_tx_record)"

definition read_snaps :: "bool \<Rightarrow> u8 list \<Rightarrow> idkfs_super_block \<Rightarrow> idkfs_snapshot_table option" where
  "read_snaps ok file sb = map_option (\<lambda>m. mem_snapshot_table m 0)
     (read_struct ok file (ks_snap_region_block sb * KFS_BLOCK_SIZE) sizeof_snapshot_table)"

text \<open>The message that each return of \<open>main\<close> prints.\<close>

datatype fsck_message = UsageMsg | OpenErr | ReadSuperErr | BadMagic | UnsupportedVersion
  | FreeAboveTotal | TierPointersInvalid | ReadTxErr | ReadSnapshotsErr | TxRegionInvalid
  | SnapshotRegionInvalid | SnapshotCountInvalid | Clean

record fsck_os =
  open_super_ok :: bool
  read_super_ok :: bool
  open_regions_ok :: bool
  read_tx_ok :: bool
  read_snaps_ok :: bool

text \<open>The part of \<open>main\<close> from the second \<open>open\<close> on.\<close>

definition fsck_regions :: "fsck_os \<Rightarrow> u8 list \<Rightarrow> idkfs_super_block \<Rightarrow> fsck_message \<times> int" where
  "fsck_regions os file sb =
     (if \<not> open_regions_ok os then (OpenErr, 2)
      else case read_tx (read_tx_ok os) file sb of
        None \<Rightarrow> (ReadTxErr, 2)
      | Some tx \<Rightarrow> (case read_snaps (read_snaps_ok os) file sb of
          None \<Rightarrow> (ReadSnapshotsErr, 2)
        | Some snaps \<Rightarrow>
            if tx_magic tx \<noteq> KFS_TX_MAGIC then (TxRegionInvalid, 1)
            else if st_magic snaps \<noteq> KFS_SNAP_MAGIC then (SnapshotRegionInvalid, 1)
            else if unat (st_count snaps) > KFS_MAX_SNAPSHOTS then (SnapshotCountInvalid, 1)
            else (Clean, 0)))"

definition fsck_main :: "nat \<Rightarrow> fsck_os \<Rightarrow> u8 list \<Rightarrow> fsck_message \<times> int" where
  "fsck_main argc os file =
     (if argc \<noteq> 2 then (UsageMsg, 2)
      else if \<not> open_super_ok os then (OpenErr, 2)
      else case read_super (read_super_ok os) file of
        None \<Rightarrow> (ReadSuperErr, 2)
      | Some sb \<Rightarrow>
          if ks_magic sb \<noteq> KFS_MAGIC then (BadMagic, 1)
          else if ks_version sb < 1 \<or> ks_version sb > KFS_VERSION then (UnsupportedVersion, 1)
          else if ks_free_blocks sb > ks_total_blocks sb then (FreeAboveTotal, 1)
          else if \<not> (ks_next_fast sb \<le> ks_next_normal sb \<and> ks_next_normal sb \<le> ks_next_slow sb
                     \<and> ks_next_slow sb \<le> ks_total_blocks sb) then (TierPointersInvalid, 1)
          else fsck_regions os file sb)"

section \<open>What the checker decides\<close>

text \<open>The bytes \<open>bs\<close> stand at offset \<open>pos\<close> of the file.\<close>

definition stored_at :: "u8 list \<Rightarrow> nat \<Rightarrow> u8 list \<Rightarrow> bool" where
  "stored_at file pos bs \<longleftrightarrow> take (length bs) (drop pos file) = bs"

text \<open>The consistency of the three regions that the checker promises.\<close>

definition kfs_consistent :: "idkfs_super_block \<Rightarrow> idkfs_tx_record \<Rightarrow> idkfs_snapshot_table \<Rightarrow> bool" where
  "kfs_consistent sb tx snaps \<longleftrightarrow>
     ks_magic sb = KFS_MAGIC \<and> ks_version sb \<in> {1, 2} \<and> ks_free_blocks sb \<le> ks_total_blocks sb \<and>
     sorted [ks_next_fast sb, ks_next_normal sb, ks_next_slow sb, ks_total_blocks sb] \<and>
     tx_magic tx = KFS_TX_MAGIC \<and> st_magic snaps = KFS_SNAP_MAGIC \<and> unat (st_count snaps) \<le> KFS_MAX_SNAPSHOTS"

text \<open>Every call of the operating system succeeds.\<close>

definition os_fine :: fsck_os where
  "os_fine = \<lparr>open_super_ok = True, read_super_ok = True, open_regions_ok = True, read_tx_ok = True,
     read_snaps_ok = True\<rparr>"

lemma stored_at_bound: "stored_at file pos bs \<Longrightarrow> bs \<noteq> [] \<Longrightarrow> pos + length bs \<le> length file"
proof -
  assume "stored_at file pos bs" "bs \<noteq> []"
  then have "length bs \<le> length file - pos" "0 < length bs"
    unfolding stored_at_def by (metis length_drop length_take min.cobounded1, simp)
  then show ?thesis by linarith
qed

lemma lseek_set_small: "unat pos < 2 ^ 63 \<Longrightarrow> lseek_set pos = Some (unat pos)"
  by (simp add: lseek_set_def sint_small)

lemma unat_block_offset: "unat b * 4096 < 2 ^ 63 \<Longrightarrow> unat (b * KFS_BLOCK_SIZE) = unat b * 4096"
  by (simp add: unat_word_ariths)

lemma read_struct_stored:
  assumes "stored_at file (unat pos) bs" "length bs = n" "unat pos < 2 ^ 63"
  shows "read_struct True file pos n = Some (mem_of bs)"
proof -
  have "take n (drop (unat pos) file) = bs"
    using assms by (simp add: stored_at_def)
  with assms(2,3) show ?thesis
    by (simp add: read_struct_def lseek_set_small read_at_def del: length_take)
qed

lemma read_region_stored:
  assumes "stored_at file (unat b * 4096) bs" "length bs = n" "0 < n" "length file < 2 ^ 63"
  shows "read_struct True file (b * KFS_BLOCK_SIZE) n = Some (mem_of bs)"
proof -
  have "unat b * 4096 < 2 ^ 63"
    using stored_at_bound[OF assms(1)] assms(2-4) by force
  with unat_block_offset[OF this] assms show ?thesis
    by (intro read_struct_stored) simp_all
qed

lemma read_super_stored:
  "stored_at file 0 (super_block_bytes sb) \<Longrightarrow> read_super True file = Some (norm_super_block sb)"
  by (simp add: read_super_def read_struct_stored mem_super_block_bytes)

lemma read_tx_stored:
  "stored_at file (unat (ks_tx_region_block sb) * 4096) (tx_record_bytes tx) \<Longrightarrow> length file < 2 ^ 63
     \<Longrightarrow> read_tx True file sb = Some (norm_tx_record tx)"
  by (simp add: read_tx_def read_region_stored sizeof_tx_record_def mem_tx_record_bytes)

lemma read_snaps_stored:
  "stored_at file (unat (ks_snap_region_block sb) * 4096) (snapshot_table_bytes snaps) \<Longrightarrow> length file < 2 ^ 63
     \<Longrightarrow> read_snaps True file sb = Some (norm_snapshot_table snaps)"
  by (simp add: read_snaps_def read_region_stored layout_simps mem_snapshot_table_bytes)

lemma version_supported: "\<not> (v < 1 \<or> v > (2 :: u32)) \<longleftrightarrow> v \<in> {1, 2}"
proof -
  have "v = 1 \<or> v = 2" if "1 \<le> v" "v \<le> 2"
  proof -
    have "unat v = 1 \<or> unat v = 2"
      using that by (auto simp: word_le_nat_alt)
    then have "unat v = unat (1 :: u32) \<or> unat v = unat (2 :: u32)" by simp
    then show ?thesis by (simp only: word_unat_eq_iff)
  qed
  moreover have "(1 :: u32) \<le> 2" by simp
  ultimately show ?thesis unfolding de_Morgan_disj not_less by blast
qed

text \<open>C18: On a file that holds a superblock at its start and a transaction record and a snapshot table
  at the blocks the superblock names, \<open>idkfs_fsck\<close> exits with status 0 (and says so) exactly when the
  three are consistent: magic numbers, a known version, no more free blocks than blocks, ordered zone
  pointers and at most 64 snapshots.\<close>

theorem fsck_decides_consistency:
  assumes "stored_at file 0 (super_block_bytes sb)"
    and "stored_at file (unat (ks_tx_region_block sb) * 4096) (tx_record_bytes tx)"
    and "stored_at file (unat (ks_snap_region_block sb) * 4096) (snapshot_table_bytes snaps)"
    and "length file < 2 ^ 63"
  shows "(snd (fsck_main 2 os_fine file) = 0 \<longleftrightarrow> kfs_consistent sb tx snaps)
    \<and> (fst (fsck_main 2 os_fine file) = Clean \<longleftrightarrow> kfs_consistent sb tx snaps)"
proof -
  have "read_tx True file (norm_super_block sb) = Some (norm_tx_record tx)"
    "read_snaps True file (norm_super_block sb) = Some (norm_snapshot_table snaps)"
    using assms by (auto intro: read_tx_stored read_snaps_stored simp: norm_super_block_def)
  then have "snd (fsck_main 2 os_fine file) = 0 \<longleftrightarrow> kfs_consistent sb tx snaps"
    "fst (fsck_main 2 os_fine file) = Clean \<longleftrightarrow> kfs_consistent sb tx snaps"
    unfolding fsck_main_def fsck_regions_def kfs_consistent_def version_supported[symmetric]
    by (simp_all add: os_fine_def read_super_stored[OF assms(1)])
      (auto simp: norm_super_block_def norm_tx_record_def norm_snapshot_table_def not_less)
  then show ?thesis by blast
qed

text \<open>The structures of a new file system, each at the block it belongs to.\<close>

definition aligned_image :: "u8 list" where
  "aligned_image = super_block_bytes mkfs_super @ replicate 8 0 @ tx_record_bytes mkfs_tx @ snapshot_table_bytes mkfs_snaps"

lemma mkfs_consistent: "kfs_consistent mkfs_super mkfs_tx mkfs_snaps"
  by (simp add: kfs_consistent_def mkfs_super_def mkfs_tx_def mkfs_snaps_def)

theorem fsck_decides_consistency_witness:
  "length aligned_image = 13840 \<and> snd (fsck_main 2 os_fine aligned_image) = 0"
proof -
  have "stored_at aligned_image 0 (super_block_bytes mkfs_super)"
    "stored_at aligned_image (unat (ks_tx_region_block mkfs_super) * 4096) (tx_record_bytes mkfs_tx)"
    "stored_at aligned_image (unat (ks_snap_region_block mkfs_super) * 4096) (snapshot_table_bytes mkfs_snaps)"
    by (simp_all add: stored_at_def aligned_image_def layout_simps mkfs_super_def)
  moreover have len: "length aligned_image = 13840"
    by (simp add: aligned_image_def layout_simps)
  ultimately have "snd (fsck_main 2 os_fine aligned_image) = 0"
    using fsck_decides_consistency[of aligned_image mkfs_super mkfs_tx mkfs_snaps] mkfs_consistent
    by simp
  with len show ?thesis by simp
qed

section \<open>A fresh image\<close>

lemma mkfs_idkfs_image:
  assumes "mkfs_idkfs_main argc open_ok w0 w1 w2 = (0, Some img)"
  shows "img = super_block_bytes mkfs_super @ tx_record_bytes mkfs_tx @ snapshot_table_bytes mkfs_snaps"
  using assms by (auto simp: mkfs_idkfs_main_def write_end_def Let_def split: if_splits)

text \<open>C37: Whenever \<open>mkfs_idkfs\<close> succeeds, the file has 13832 bytes, and \<open>idkfs_fsck\<close> rejects it with
  status 2: the superblock struct has 4088 bytes and not 4096, so that the record and the table that
  follow it are 8 bytes before the blocks 1 and 2 named in the superblock, and the table read from
  block 2 is 8 bytes short.\<close>

theorem fsck_rejects_fresh_image:
  assumes "mkfs_idkfs_main argc open_ok w0 w1 w2 = (0, Some img)"
  shows "length img = 13832 \<and> fsck_main 2 os_fine img = (ReadSnapshotsErr, 2)"
proof -
  note img = mkfs_idkfs_image[OF assms]
  have len: "length img = 13832"
    by (simp add: img layout_simps)
  have "read_super True img = Some (norm_super_block mkfs_super)"
    by (rule read_super_stored) (simp add: img stored_at_def layout_simps)
  moreover have "read_snaps True img (norm_super_block mkfs_super) = None"
    by (simp add: read_snaps_def read_struct_def lseek_set_small read_at_def len norm_super_block_def
        mkfs_super_def layout_simps)
  moreover have "\<exists>tx. read_tx True img (norm_super_block mkfs_super) = Some tx"
    by (simp add: read_tx_def read_struct_def lseek_set_small read_at_def len norm_super_block_def
        mkfs_super_def layout_simps)
  ultimately have "fsck_main 2 os_fine img = (ReadSnapshotsErr, 2)"
    by (auto simp: fsck_main_def fsck_regions_def os_fine_def norm_super_block_def mkfs_super_def)
  with len show ?thesis by simp
qed

theorem fsck_rejects_fresh_image_witness:
  "\<exists>img. mkfs_idkfs_main 2 True 4088 4096 5648 = (0, Some img) \<and> length img = 13832
     \<and> fsck_main 2 os_fine img = (ReadSnapshotsErr, 2)"
proof -
  have "\<exists>img. mkfs_idkfs_main 2 True 4088 4096 5648 = (0, Some img)"
    by (simp add: mkfs_idkfs_main_def layout_simps Let_def)
  then show ?thesis
    using fsck_rejects_fresh_image by blast
qed

end
