(* ===== verification/Blk_Journal.thy ===== *)
theory Blk_Journal
  imports Blk_Io Mkfs_Fsck
begin

text \<open>
  The transaction record of \<^verbatim>\<open>idkfs_blk.c\<close> over the life of an image: loading it, writing to its data
  blocks, commits that may be cut short, unloading and crashes. The record is at offset \<open>a\<close> of an
  image of \<open>n\<close> bytes.
\<close>

section \<open>The fields of the record\<close>

definition gen_of :: "mem \<Rightarrow> u64" where
  "gen_of m = rd64 m off_generation"

definition state_of :: "mem \<Rightarrow> nat \<Rightarrow> u32" where
  "state_of m a = rd32 m (a + off_tx_state)"

definition committed_of :: "mem \<Rightarrow> nat \<Rightarrow> u64" where
  "committed_of m a = rd64 m (a + off_tx_committed)"

text \<open>The superblock names a record behind the superblock and inside of the image.\<close>

definition has_record :: "nat \<Rightarrow> nat \<Rightarrow> mem \<Rightarrow> bool" where
  "has_record n a m \<longleftrightarrow> unat (rd64 m off_tx_region_block * BLK_BLOCK_SIZE) = a \<and> 4096 \<le> a \<and> a + 24 \<le> n
     \<and> rd32 m a = KFS_TX_MAGIC"

definition open_record :: "mem \<Rightarrow> nat \<Rightarrow> mem" where
  "open_record m a = wr32 (wr64 m (a + off_tx_pending) (gen_of m + 1)) (a + off_tx_state) 1"

definition close_record :: "mem \<Rightarrow> nat \<Rightarrow> u64 \<Rightarrow> mem" where
  "close_record m a g = wr32 (wr64 (wr64 m off_generation g) (a + off_tx_committed) g) (a + off_tx_state) 0"

definition replayed :: "mem \<Rightarrow> nat \<Rightarrow> mem" where
  "replayed m a = (if state_of m a = 1
     then wr32 (wr64 m off_generation (committed_of m a)) (a + off_tx_state) 0 else m)"

lemmas record_defs = gen_of_def state_of_def committed_of_def has_record_def

lemma has_record_bounds: "has_record n a m \<Longrightarrow> 4096 \<le> a \<and> a + 24 \<le> n"
  by (simp add: has_record_def)

lemma open_record_fields:
  assumes "has_record n a m"
  shows "has_record n a (open_record m a)" "gen_of (open_record m a) = gen_of m"
    "state_of (open_record m a) a = 1" "committed_of (open_record m a) a = committed_of m a"
  using has_record_bounds[OF assms] assms by (auto simp: open_record_def record_defs mem_simps)

lemma close_record_fields:
  assumes "has_record n a m"
  shows "has_record n a (close_record m a g)" "gen_of (close_record m a g) = g"
    "state_of (close_record m a g) a = 0" "committed_of (close_record m a g) a = g"
  using has_record_bounds[OF assms] assms by (auto simp: close_record_def record_defs mem_simps)

lemma replayed_fields:
  assumes "has_record n a m"
  shows "has_record n a (replayed m a)"
    "gen_of (replayed m a) = (if state_of m a = 1 then committed_of m a else gen_of m)"
    "state_of (replayed m a) a = (if state_of m a = 1 then 0 else state_of m a)"
    "committed_of (replayed m a) a = committed_of m a"
  using has_record_bounds[OF assms] assms by (auto simp: replayed_def record_defs mem_simps)

section \<open>The operations on the record\<close>

lemma tx_found:
  assumes "has_record n a m" "backing_map s = Some m" "map_bytes s = n"
  shows "idkfs_tx s = Some (Some a)" "tx_present s (Some a) = Some (Some (m, a))"
  using assms by (auto simp: idkfs_tx_def tx_present_def ld64_def ld32_def has_record_def)

lemma replay_eq:
  assumes "has_record n a m" "backing_map s = Some m" "map_bytes s = n"
  shows "idkfs_replay_if_needed s = Some (s\<lparr>backing_map := Some (replayed m a)\<rparr>)"
  using tx_found[OF assms] has_record_bounds[OF assms(1)] assms(2,3)
  by (auto simp: idkfs_replay_if_needed_def replayed_def state_of_def committed_of_def ld64_def ld32_def st64_def st32_def)

lemma commit_open_eq:
  assumes "has_record n a m" "backing_map s = Some m" "map_bytes s = n"
  shows "commit_open s (Some a) = Some (s\<lparr>backing_map := Some (open_record m a)\<rparr>, gen_of m + 1)"
  using tx_found[OF assms] has_record_bounds[OF assms(1)] assms(2,3)
  by (auto simp: commit_open_def open_record_def gen_of_def ld64_def ld32_def st64_def st32_def Let_def)

lemma commit_close_eq:
  assumes "has_record n a m" "backing_map s = Some m" "map_bytes s = n"
  shows "commit_close s (Some a) (gen_of m + 1) = Some (s\<lparr>backing_map := Some (close_record m a (gen_of m + 1))\<rparr>)"
  using tx_found[OF assms] has_record_bounds[OF assms(1)] assms(2,3)
  by (auto simp: commit_close_def close_record_def gen_of_def ld64_def ld32_def st64_def st32_def Let_def)

text \<open>A commit of a changed image: the record is opened in memory, \<open>written\<close> bytes of the map reach the
  file, and the record is closed (in memory) when these are all.\<close>

lemma commit_eq:
  assumes rec: "has_record n a m" and s: "backing_map s = Some m" "map_bytes s = n" "n < 2 ^ 63"
    and dev: "idkfs_dev s" "journal_dirty s" "backing_file s = FileOpen"
  shows "idkfs_commit written s = Some (s\<lparr>
      image_bytes := memcpy (image_bytes s) 0 (open_record m a) 0 (nat written),
      image_size := max (image_size s) (nat written),
      backing_map := Some (if written = int n then close_record (open_record m a) a (gen_of m + 1) else open_record m a),
      journal_dirty := (written \<noteq> int n), journal_work := True\<rparr>)"
proof -
  let ?m = "open_record m a"
  let ?s = "s\<lparr>backing_map := Some ?m,
      image_bytes := memcpy (image_bytes s) 0 ?m 0 (nat written), image_size := max (image_size s) (nat written)\<rparr>"
  have "commit_close ?s (Some a) (gen_of m + 1)
      = Some (?s\<lparr>backing_map := Some (close_record ?m a (gen_of m + 1))\<rparr>)"
    using commit_close_eq[OF open_record_fields(1)[OF rec], of ?s] s open_record_fields(2)[OF rec] by simp
  then show ?thesis
    using dev s tx_found[OF rec s(1,2)] commit_open_eq[OF rec s(1,2)] sint_small[of "backing_size s"]
    by (auto simp: idkfs_commit_def kernel_write_map_def)
qed

lemma map_backing_eq:
  assumes "idkfs_map_backing w s = Some (s', 0)" "image_size s = n" "n < 2 ^ 63"
    and "has_record n a (image_bytes s)"
  shows "\<exists>m. s' = s\<lparr>backing_file := FileOpen, backing_size := of_nat n, backing_map := Some (replayed m a)\<rparr>
     \<and> (\<forall>i < n. m i = image_bytes s i)"
proof -
  let ?m = "memcpy (vmalloc_bytes w) 0 (image_bytes s) 0 n"
  let ?s = "s\<lparr>backing_file := FileOpen, backing_size := of_nat n, backing_map := Some ?m\<rparr>"
  have n: "unat (of_nat n :: u64) = n"
    using assms(3) by (simp add: unat_of_nat)
  have same: "?m i = image_bytes s i" if "i < n" for i
    using that by (simp add: memcpy_def)
  have "rd32 ?m a = rd32 (image_bytes s) a" "rd64 ?m 64 = rd64 (image_bytes s) 64"
    using has_record_bounds[OF assms(4)] by (auto intro!: rd32_eq rd64_eq same)
  then have "has_record n a ?m"
    using assms(4) by (simp add: has_record_def)
  from replay_eq[OF this, of ?s] n have "idkfs_replay_if_needed ?s = Some (?s\<lparr>backing_map := Some (replayed ?m a)\<rparr>)"
    by simp
  moreover have "idkfs_replay_if_needed ?s = Some s'"
    using assms(1,2) n sint_small[of "of_nat n"] assms(3)
    by (auto simp: idkfs_map_backing_def Let_def split: if_splits Option.bind_splits)
  ultimately show ?thesis
    using same by (intro exI[of _ ?m]) auto
qed

section \<open>Torn writes\<close>

text \<open>A file of which the first \<open>k\<close> bytes were overwritten keeps every field that has the same value in
  both, and a state that goes from 0 to 1 is one of the two.\<close>

lemma torn_same:
  "rd64 f p = rd64 m p \<Longrightarrow> rd64 (memcpy f 0 m 0 k) p = rd64 f p"
  "rd32 f p = rd32 m p \<Longrightarrow> rd32 (memcpy f 0 m 0 k) p = rd32 f p"
  by (rule rd64_eq rd32_eq; simp add: memcpy_def rd64_bytes[of f p m p] rd32_bytes[of f p m p])+

lemma torn_state:
  assumes "rd32 f p = 0" "rd32 m p = 1"
  shows "rd32 (memcpy f 0 m 0 k) p \<in> {0, 1}"
proof -
  have bytes: "[f p, f (p + 1), f (p + 2), f (p + 3)] = [0, 0, 0, 0]" "[m p, m (p + 1), m (p + 2), m (p + 3)] = [1, 0, 0, 0]"
    unfolding le32_rd32[symmetric] assms by (simp_all add: le32_def drop_bit_eq_div)
  then have "memcpy f 0 m 0 k (p + i) = (if p < k then m (p + i) else f (p + i))" if "i < 4" for i
    using that by (cases "i = 0"; cases "i = 1"; cases "i = 2") (auto simp: memcpy_def numeral_eq_Suc less_Suc_eq)
  then have "rd32 (memcpy f 0 m 0 k) p = (if p < k then rd32 m p else rd32 f p)"
    by (auto intro!: rd32_eq)
  with assms show ?thesis by simp
qed

section \<open>Invariant\<close>

definition file_ok :: "nat \<Rightarrow> nat \<Rightarrow> mem \<Rightarrow> bool" where
  "file_ok n a f \<longleftrightarrow> has_record n a f \<and> state_of f a \<in> {0, 1} \<and> (state_of f a = 0 \<longrightarrow> gen_of f = committed_of f a)"

definition map_ok :: "nat \<Rightarrow> nat \<Rightarrow> mem \<Rightarrow> mem \<Rightarrow> bool" where
  "map_ok n a f m \<longleftrightarrow> has_record n a m \<and> gen_of m = committed_of m a \<and> state_of m a \<in> {0, 1}
     \<and> rd64 f off_tx_region_block = rd64 m off_tx_region_block \<and> (state_of f a = 0 \<longrightarrow> gen_of f = gen_of m)"

definition journal_inv :: "nat \<Rightarrow> nat \<Rightarrow> blk_state \<Rightarrow> bool" where
  "journal_inv n a s \<longleftrightarrow> n < 2 ^ 63 \<and> image_size s = n \<and> file_ok n a (image_bytes s) \<and>
     (idkfs_dev s \<longrightarrow> backing_file s = FileOpen \<and> map_bytes s = n
        \<and> (\<exists>m. backing_map s = Some m \<and> map_ok n a (image_bytes s) m))"

lemma torn_file:
  fixes k :: nat
  assumes f: "file_ok n a f" and m: "map_ok n a f m"
  defines "f' \<equiv> memcpy f 0 (open_record m a) 0 k"
  shows "file_ok n a f'" "state_of f' a = 0 \<Longrightarrow> gen_of f' = gen_of m"
    "rd64 f' off_tx_region_block = rd64 m off_tx_region_block" "a + 8 \<le> k \<Longrightarrow> state_of f' a = 1"
proof -
  let ?m = "open_record m a"
  have rec: "has_record n a m" "has_record n a f"
    using f m by (simp_all add: file_ok_def map_ok_def)
  note o = open_record_fields[OF rec(1)]
  have tx: "rd64 ?m off_tx_region_block = rd64 m off_tx_region_block" "rd32 ?m a = rd32 m a"
    using has_record_bounds[OF rec(1)] by (auto simp: open_record_def mem_simps)
  show tx': "rd64 f' off_tx_region_block = rd64 m off_tx_region_block"
    unfolding f'_def using m tx by (subst torn_same) (simp_all add: map_ok_def)
  have "rd32 f' a = rd32 f a"
    unfolding f'_def using rec tx by (intro torn_same) (simp add: has_record_def)
  with tx' rec have rec': "has_record n a f'"
    by (simp add: has_record_def)
  have st: "state_of f' a \<in> {0, 1}"
  proof (cases "state_of f a = 1")
    case True
    then show ?thesis
      using torn_same(2)[of f "a + 4" ?m k] o(3) by (simp add: state_of_def f'_def)
  next
    case False
    with f show ?thesis
      using torn_state[of f "a + 4" ?m k] o(3) by (auto simp: state_of_def f'_def file_ok_def)
  qed
  have zero: "gen_of f' = gen_of m \<and> committed_of f' a = committed_of m a" if "state_of f' a = 0"
  proof -
    have "state_of f a = 0"
      using that f torn_same(2)[of f "a + 4" ?m k] o(3) by (auto simp: state_of_def f'_def file_ok_def)
    then have "gen_of f = gen_of ?m" "committed_of f a = committed_of ?m a"
      using f m o by (simp_all add: file_ok_def map_ok_def)
    then show ?thesis
      using o torn_same(1)[of f _ ?m k] by (simp add: gen_of_def committed_of_def f'_def)
  qed
  show "state_of f' a = 0 \<Longrightarrow> gen_of f' = gen_of m"
    using zero by simp
  show "file_ok n a f'"
    using rec' st zero m by (simp add: file_ok_def map_ok_def)
  show "state_of f' a = 1" if "a + 8 \<le> k"
  proof -
    have "state_of f' a = state_of ?m a"
      unfolding state_of_def f'_def using that by (intro rd32_eq) (simp add: memcpy_def)
    then show ?thesis using o(3) by simp
  qed
qed

lemma commit_inv:
  assumes inv: "journal_inv n a s" and c: "idkfs_commit written s = Some s'" "written \<le> int n"
  shows "journal_inv n a s'"
proof (cases "idkfs_dev s \<and> journal_dirty s")
  case True
  then obtain m where m: "backing_map s = Some m" "map_ok n a (image_bytes s) m" and
    s: "backing_file s = FileOpen" "map_bytes s = n" "n < 2 ^ 63" "image_size s = n" "file_ok n a (image_bytes s)"
    using inv by (auto simp: journal_inv_def)
  have rec: "has_record n a m"
    using m(2) by (simp add: map_ok_def)
  note o = open_record_fields[OF rec]
  let ?f = "memcpy (image_bytes s) 0 (open_record m a) 0 (nat written)"
  let ?m = "if written = int n then close_record (open_record m a) a (gen_of m + 1) else open_record m a"
  note t = torn_file[OF s(5) m(2), of "nat written"]
  have "a + 8 \<le> nat written" if "written = int n"
    using that has_record_bounds[OF rec] by simp
  then have "map_ok n a ?f ?m"
    using t close_record_fields[OF o(1)] o m(2) has_record_bounds[OF rec]
    by (auto simp: map_ok_def close_record_def open_record_def mem_simps)
  moreover have "max (image_size s) (nat written) = n"
    using c(2) s(4) by simp
  ultimately show ?thesis
    using commit_eq[OF rec m(1) s(2,3) _ _ s(1), of written] True c s t(1)
    by (auto simp: journal_inv_def)
next
  case False
  then show ?thesis
    using c(1) inv by (auto simp: idkfs_commit_def journal_inv_def split: if_splits)
qed

section \<open>Loading, requests and unloading\<close>

lemma map_backing_failed:
  "idkfs_map_backing w s = Some (s', r) \<Longrightarrow> r \<noteq> 0 \<Longrightarrow> image_size s' = image_size s \<and> image_bytes s' = image_bytes s"
  by (auto simp: idkfs_map_backing_def Let_def split: if_splits Option.bind_splits)

lemma unmap_image:
  "idkfs_unmap_backing s = Some s' \<Longrightarrow> image_size s' = image_size s \<and> image_bytes s' = image_bytes s"
  by (auto simp: idkfs_unmap_backing_def split: file_ptr.splits)

lemma free_dev_simps [simp]:
  "image_size (free_dev s) = image_size s" "image_bytes (free_dev s) = image_bytes s" "\<not> idkfs_dev (free_dev s)"
  by (simp_all add: free_dev_def)

lemma init_disk_keeps:
  "idkfs_blk_init_disk w s = (s', r) \<Longrightarrow> image_size s' = image_size s \<and> image_bytes s' = image_bytes s
     \<and> backing_map s' = backing_map s \<and> backing_size s' = backing_size s \<and> backing_file s' = backing_file s
     \<and> idkfs_dev s' = idkfs_dev s"
  by (auto simp: idkfs_blk_init_disk_def Let_def split: if_splits)

text \<open>Either the module is not loaded and the image is as before, or the map is the replayed image.\<close>

lemma init_cases:
  assumes "idkfs_blk_init w s = Some (s', r)" "image_size s = n" "n < 2 ^ 63" "has_record n a (image_bytes s)"
  shows "image_size s' = n \<and> image_bytes s' = image_bytes s \<and>
    (r \<noteq> 0 \<and> \<not> idkfs_dev s' \<or>
     r = 0 \<and> backing_file s' = FileOpen \<and> map_bytes s' = n \<and>
       (\<exists>m. backing_map s' = Some (replayed m a) \<and> (\<forall>i < n. m i = image_bytes s i)))"
proof (cases "kzalloc_ok w")
  case True
  let ?s = "(free_dev s)\<lparr>idkfs_dev := True\<rparr>"
  obtain s1 r1 where mb: "idkfs_map_backing (map_ans w) ?s = Some (s1, r1)"
    using assms(1) True by (auto simp: idkfs_blk_init_def split: Option.bind_splits)
  show ?thesis
  proof (cases "r1 = 0")
    case r1: True
    obtain m where m: "s1 = ?s\<lparr>backing_file := FileOpen, backing_size := of_nat n, backing_map := Some (replayed m a)\<rparr>"
      "\<forall>i < n. m i = image_bytes s i"
      using map_backing_eq[of "map_ans w" ?s s1 n a] mb r1 assms(2-4) by auto
    have n: "unat (of_nat n :: u64) = n"
      using assms(3) by (simp add: unat_of_nat)
    show ?thesis
      using assms(1,2) True mb r1 m n
      by (auto simp: idkfs_blk_init_def Let_def split: if_splits Option.bind_splits prod.splits
          dest!: unmap_image init_disk_keeps)
  next
    case False
    with assms(1,2) True mb map_backing_failed[OF mb] show ?thesis
      by (auto simp: idkfs_blk_init_def)
  qed
qed (use assms in \<open>auto simp: idkfs_blk_init_def\<close>)

text \<open>The bytes of the journal: the generation and the place of the record in the superblock, and the record up
  to its committed generation.\<close>

definition same_fields :: "nat \<Rightarrow> mem \<Rightarrow> mem \<Rightarrow> bool" where
  "same_fields a m' m \<longleftrightarrow> (\<forall>i \<in> {off_generation..<off_generation + 8} \<union> {off_tx_region_block..<off_tx_region_block + 8}
     \<union> {a..<a + 24}. m' i = m i)"

lemma same_fields:
  assumes "same_fields a m' m"
  shows "has_record n a m' = has_record n a m" "gen_of m' = gen_of m" "state_of m' a = state_of m a"
    "committed_of m' a = committed_of m a" "rd64 m' off_tx_region_block = rd64 m off_tx_region_block"
proof -
  have "rd64 m' p = rd64 m p" if "p \<in> {8, 64, a + 16}" for p
    using that assms by (intro rd64_eq) (auto simp: same_fields_def)
  moreover have "rd32 m' p = rd32 m p" if "p \<in> {a, a + 4}" for p
    using that assms by (intro rd32_eq) (auto simp: same_fields_def)
  ultimately show "has_record n a m' = has_record n a m" "gen_of m' = gen_of m" "state_of m' a = state_of m a"
    "committed_of m' a = committed_of m a" "rd64 m' off_tx_region_block = rd64 m off_tx_region_block"
    by (simp_all add: record_defs)
qed

lemma same_record:
  assumes "\<forall>i < b. m' i = m i" "a + 24 \<le> b" "4096 \<le> a"
  shows "has_record n a m' = has_record n a m" "gen_of m' = gen_of m" "state_of m' a = state_of m a"
    "committed_of m' a = committed_of m a" "rd64 m' off_tx_region_block = rd64 m off_tx_region_block"
proof -
  have "same_fields a m' m"
    using assms by (auto simp: same_fields_def)
  then show "has_record n a m' = has_record n a m" "gen_of m' = gen_of m" "state_of m' a = state_of m a"
    "committed_of m' a = committed_of m a" "rd64 m' off_tx_region_block = rd64 m off_tx_region_block"
    by (rule same_fields)+
qed

text \<open>A request that leaves these bytes of the map as they are.\<close>

definition record_kept :: "nat \<Rightarrow> blk_state \<Rightarrow> blk_state \<Rightarrow> bool" where
  "record_kept a s s' \<longleftrightarrow> (\<forall>m m'. backing_map s = Some m \<longrightarrow> backing_map s' = Some m' \<longrightarrow> same_fields a m' m)"

lemma loaded_map:
  assumes "file_ok n a f" "\<forall>i < n. m i = f i"
  shows "map_ok n a f (replayed m a)" "state_of (replayed m a) a = 0" "gen_of (replayed m a) = committed_of f a"
proof -
  have rec: "has_record n a f" and b: "4096 \<le> a" "a + 24 \<le> n"
    using assms(1) has_record_bounds by (auto simp: file_ok_def)
  note same = same_record[OF assms(2) b(2,1)]
  have "has_record n a m"
    using rec same(1) by simp
  note r = replayed_fields[OF this]
  have "rd64 (replayed m a) off_tx_region_block = rd64 m off_tx_region_block"
    using b by (simp add: replayed_def mem_simps)
  then show "map_ok n a f (replayed m a)" "state_of (replayed m a) a = 0" "gen_of (replayed m a) = committed_of f a"
    using r same assms(1) by (auto simp: map_ok_def file_ok_def)
qed

lemma init_inv:
  assumes "journal_inv n a s" "idkfs_blk_init w s = Some (s', r)"
  shows "journal_inv n a s'"
  using assms(1) init_cases[OF assms(2), of n a] loaded_map
  by (auto simp: journal_inv_def file_ok_def)

lemma request_inv:
  assumes inv: "journal_inv n a s" and "idkfs_dev s" and bufs: "bufs_ok (rq_segs rq)"
    and d: "idkfs_blk_dispatch s rq = Some (s', bufs, st)" and kept: "record_kept a s s'"
  shows "journal_inv n a s'"
proof -
  obtain m where m: "backing_map s = Some m" "map_ok n a (image_bytes s) m" and b: "4096 \<le> a" "a + 24 \<le> n"
    and s: "n < 2 ^ 63" "map_bytes s = n"
    using inv \<open>idkfs_dev s\<close> has_record_bounds by (fastforce simp: journal_inv_def map_ok_def)
  have ready: "blk_ready s m"
    using m(1) s b \<open>idkfs_dev s\<close> by (auto simp: blk_ready_def)
  have "s' = s \<or> (\<exists>m' d. s' = s\<lparr>backing_map := Some m', journal_dirty := d\<rparr>
      \<and> (\<forall>i < unat (push_bit 9 (rq_pos rq) :: u64). m' i = m i))"
    using d segment_loop_frame[OF ready refl _ bufs]
    by (auto simp: idkfs_blk_dispatch_def Let_def not_le word_less_nat_alt split: if_splits)
  then show ?thesis
  proof (elim disjE exE conjE)
    fix m' d
    assume s': "s' = s\<lparr>backing_map := Some m', journal_dirty := d\<rparr>"
    with kept m(1) have "same_fields a m' m" by (simp add: record_kept_def)
    from same_fields[OF this] m(2) have "map_ok n a (image_bytes s) m'"
      by (simp add: map_ok_def)
    with inv s' show ?thesis by (simp add: journal_inv_def)
  qed (use inv in simp)
qed

lemma exit_inv: "journal_inv n a s \<Longrightarrow> idkfs_blk_exit s = Some s' \<Longrightarrow> journal_inv n a s'"
  by (auto simp: idkfs_blk_exit_def journal_inv_def split: if_splits Option.bind_splits dest!: unmap_image)

section \<open>Crashes\<close>

text \<open>What can happen to an image that starts with the bytes \<open>f0\<close>: loading (with or without success),
  reads and writes anywhere that leave the bytes of the journal as they are, commits of which the kernel
  writes at most the size of the image, unloading, and a crash, which leaves the file and nothing else. The
  driver itself does not stop a write to these bytes.\<close>

inductive blk_reach :: "nat \<Rightarrow> nat \<Rightarrow> mem \<Rightarrow> blk_state \<Rightarrow> bool" for n a f0 where
  start: "blk_reach n a f0 (blk_unloaded n f0)"
| load: "blk_reach n a f0 s \<Longrightarrow> \<not> idkfs_dev s \<Longrightarrow> idkfs_blk_init w s = Some (s', r) \<Longrightarrow> blk_reach n a f0 s'"
| request: "blk_reach n a f0 s \<Longrightarrow> idkfs_dev s \<Longrightarrow> bufs_ok (rq_segs rq)
    \<Longrightarrow> idkfs_blk_dispatch s rq = Some (s', bufs, st) \<Longrightarrow> record_kept a s s' \<Longrightarrow> blk_reach n a f0 s'"
| commit: "blk_reach n a f0 s \<Longrightarrow> idkfs_commit written s = Some s' \<Longrightarrow> written \<le> int n \<Longrightarrow> blk_reach n a f0 s'"
| unload: "blk_reach n a f0 s \<Longrightarrow> idkfs_blk_exit s = Some s' \<Longrightarrow> blk_reach n a f0 s'"
| crash: "blk_reach n a f0 s \<Longrightarrow> blk_reach n a f0 (blk_unloaded (image_size s) (image_bytes s))"

lemma blk_unloaded_simps [simp]:
  "image_size (blk_unloaded n f) = n" "image_bytes (blk_unloaded n f) = f" "\<not> idkfs_dev (blk_unloaded n f)"
  by (simp_all add: blk_unloaded_def)

lemma blk_reach_inv:
  assumes "blk_reach n a f0 s" "file_ok n a f0" "n < 2 ^ 63"
  shows "journal_inv n a s"
  using assms
proof (induction rule: blk_reach.induct)
  case start
  then show ?case by (simp add: journal_inv_def)
next
  case (load s w s' r)
  then show ?case by (blast intro: init_inv)
next
  case (request s rq s' bufs st)
  then show ?case by (blast intro: request_inv)
next
  case (commit s written s')
  then show ?case by (blast intro: commit_inv)
next
  case (unload s s')
  then show ?case by (blast intro: exit_inv)
next
  case (crash s)
  then show ?case by (simp add: journal_inv_def)
qed

text \<open>The answers with which everything succeeds, and loading with them.\<close>

definition good_answers :: "nat \<Rightarrow> init_answers" where
  "good_answers n = \<lparr>kzalloc_ok = True, map_ans = \<lparr>filp_open_err = 0, getattr_ok = True, vmalloc_ok = True,
     vmalloc_bytes = zeros, kernel_read_got = int n\<rparr>, register_ans = 250, tag_set_ans = 0, init_queue_err = 0,
     alloc_disk_ok = True\<rparr>"

lemma init_good:
  assumes "0 < n" "n < 2 ^ 63"
  shows "idkfs_blk_init (good_answers n) (blk_unloaded n f) = do {
     s \<leftarrow> idkfs_replay_if_needed ((blk_unloaded n f)\<lparr>idkfs_dev := True, backing_file := FileOpen,
           backing_size := of_nat n, backing_map := Some (memcpy zeros 0 f 0 n)\<rparr>);
     Some (s\<lparr>idkfs_major := 250, dev_tag_set := True, dev_queue := True, dev_gd := True,
             dev_capacity := drop_bit 9 (backing_size s), journal_work := True\<rparr>, 0) }"
proof -
  have "unat (of_nat n :: u64) = n"
    using assms(2) by (simp add: unat_of_nat)
  then have "sint (of_nat n :: u64) = int n" "(of_nat n :: u64) \<noteq> 0"
    using assms sint_small[of "of_nat n"] by (auto simp: unat_eq_zero[symmetric])
  then show ?thesis
    by (simp add: good_answers_def idkfs_blk_init_def idkfs_map_backing_def idkfs_blk_init_disk_def
        Let_def free_dev_def blk_unloaded_def)
qed

lemma init_good_record:
  assumes "has_record n a f" "n < 2 ^ 63"
  shows "\<exists>s'. idkfs_blk_init (good_answers n) (blk_unloaded n f) = Some (s', 0) \<and> idkfs_dev s'"
proof -
  have b: "4096 \<le> a" "a + 24 \<le> n"
    using has_record_bounds[OF assms(1)] by auto
  let ?m = "memcpy zeros 0 f 0 n"
  have "has_record n a ?m"
    using same_record(1)[of n ?m f a n] b assms(1) by (simp add: memcpy_def)
  moreover have "unat (of_nat n :: u64) = n"
    using assms(2) by (simp add: unat_of_nat)
  ultimately show ?thesis
    using init_good[of n f] b assms(2) by (simp add: replay_eq)
qed

lemma aligned_image_ok: "file_ok 13840 4096 (mem_of aligned_image)"
proof -
  have "rd64 (mem_of aligned_image) 64 = 1" "rd64 (mem_of aligned_image) 8 = 1"
    by (simp_all add: aligned_image_def super_block_bytes_def mkfs_super_def mem_simps)
  moreover have "rd32 (mem_of aligned_image) 4096 = KFS_TX_MAGIC" "rd32 (mem_of aligned_image) 4100 = 0"
    "rd64 (mem_of aligned_image) 4112 = 1"
    by (simp_all add: aligned_image_def mem_simps layout_simps)
      (simp_all add: tx_record_bytes_def mkfs_tx_def mem_simps)
  ultimately show ?thesis
    by (simp add: file_ok_def record_defs)
qed

text \<open>C9: For an image that has a transaction record in the block which its superblock names, with state 0 or 1, and
  with the committed generation in the superblock when the state is 0 (an image of \<open>mkfs_idkfs\<close> has no
  such record): however often it is loaded, read and written by requests that leave the generation and the
  place of the record in the superblock and the first 24 bytes of the record as they are, committed (also
  when a commit writes only a part of the image, cut at any byte), unloaded and crashed, a later successful
  load finds a closed transaction record and a superblock with the committed generation, the one that the
  file's record names; and while it is loaded the two generations agree.\<close>

theorem journal_recovers:
  assumes "blk_reach n a f0 s" "file_ok n a f0" "n < 2 ^ 63"
  shows "(idkfs_blk_init w (blk_unloaded (image_size s) (image_bytes s)) = Some (s', 0)
      \<longrightarrow> (\<exists>m. backing_map s' = Some m \<and> state_of m a = 0 \<and> gen_of m = committed_of m a
            \<and> gen_of m = committed_of (image_bytes s) a))
    \<and> (idkfs_dev s \<longrightarrow> (\<exists>m. backing_map s = Some m \<and> gen_of m = committed_of m a))"
proof -
  have inv: "journal_inv n a s"
    using assms by (rule blk_reach_inv)
  then have "idkfs_dev s \<longrightarrow> (\<exists>m. backing_map s = Some m \<and> gen_of m = committed_of m a)"
    by (auto simp: journal_inv_def map_ok_def)
  moreover have img: "file_ok n a (image_bytes s)" "image_size s = n"
    using inv by (simp_all add: journal_inv_def)
  have "\<exists>m. backing_map s' = Some m \<and> state_of m a = 0 \<and> gen_of m = committed_of m a
            \<and> gen_of m = committed_of (image_bytes s) a"
    if init: "idkfs_blk_init w (blk_unloaded (image_size s) (image_bytes s)) = Some (s', 0)"
    using init_cases[OF init, of n a] img assms(3) loaded_map[OF img(1)]
    by (auto simp: file_ok_def map_ok_def)
  ultimately show ?thesis by blast
qed

text \<open>A loaded image with a write to its data that was not committed yet.\<close>

lemma demo_dirty:
  "\<exists>s m. blk_reach 13840 4096 (mem_of aligned_image) s \<and> idkfs_dev s \<and> journal_dirty s
     \<and> backing_file s = FileOpen \<and> map_bytes s = 13840 \<and> image_size s = 13840
     \<and> backing_map s = Some m \<and> has_record 13840 4096 m \<and> gen_of m = committed_of m 4096"
proof -
  let ?r = "blk_reach 13840 4096 (mem_of aligned_image)"
  obtain s1 where s1: "idkfs_blk_init (good_answers 13840) (blk_unloaded 13840 (mem_of aligned_image)) = Some (s1, 0)" "idkfs_dev s1"
    using init_good_record[of 13840 4096 "mem_of aligned_image"] aligned_image_ok by (auto simp: file_ok_def)
  have r1: "?r s1"
    using blk_reach.load[OF blk_reach.start _ s1(1)] by simp
  then obtain m1 where m1: "backing_map s1 = Some m1" "map_bytes s1 = 13840"
    using blk_reach_inv[OF r1 aligned_image_ok] s1(2) by (auto simp: journal_inv_def)
  then have "blk_ready s1 m1"
    using s1(2) by (auto simp: blk_ready_def)
  from segment_loop_write[OF this refl, of 16 "[replicate 512 7]"] dispatch_in_range[OF this, of 16 "[replicate 512 7]" REQ_OP_WRITE] m1
  have d: "idkfs_blk_dispatch s1 (mk_rq REQ_OP_WRITE 16 [replicate 512 7])
      = Some (stored s1 m1 8192 (replicate 512 7), [replicate 512 7], BLK_STS_OK)"
    by simp
  let ?s = "stored s1 m1 8192 (replicate 512 7)"
  have "record_kept 4096 s1 ?s"
    using m1(1) by (auto simp: record_kept_def same_fields_def stored_def memcpy_def)
  then have r: "?r ?s"
    using blk_reach.request[OF r1 s1(2) _ d] by simp
  have "idkfs_dev ?s" "journal_dirty ?s"
    using s1(2) by (simp_all add: stored_def)
  with r blk_reach_inv[OF r aligned_image_ok] show ?thesis
    by (intro exI[of _ ?s]) (auto simp: journal_inv_def map_ok_def)
qed

theorem journal_recovers_witness:
  "\<exists>s s' m. blk_reach 13840 4096 (mem_of aligned_image) s \<and> journal_dirty s
     \<and> idkfs_blk_init (good_answers 13840) (blk_unloaded (image_size s) (image_bytes s)) = Some (s', 0)
     \<and> backing_map s' = Some m \<and> state_of m 4096 = 0 \<and> gen_of m = committed_of m 4096"
proof -
  obtain s0 m where s0: "blk_reach 13840 4096 (mem_of aligned_image) s0" "idkfs_dev s0" "journal_dirty s0"
    "backing_file s0 = FileOpen" "map_bytes s0 = 13840" "backing_map s0 = Some m" "has_record 13840 4096 m"
    using demo_dirty by blast
  from commit_eq[OF s0(7,6,5) _ s0(2,3,4), of 4500] obtain s where s: "idkfs_commit 4500 s0 = Some s" "journal_dirty s"
    by simp
  have r: "blk_reach 13840 4096 (mem_of aligned_image) s"
    using blk_reach.commit[OF s0(1) s(1)] by simp
  have "has_record 13840 4096 (image_bytes s)" "image_size s = 13840"
    using blk_reach_inv[OF r aligned_image_ok] by (simp_all add: journal_inv_def file_ok_def)
  then obtain s' where i: "idkfs_blk_init (good_answers 13840) (blk_unloaded (image_size s) (image_bytes s)) = Some (s', 0)"
    using init_good_record by fastforce
  from journal_recovers[OF r aligned_image_ok, of "good_answers 13840" s'] r s(2) i show ?thesis
    by auto
qed

text \<open>C39: On an image with a transaction record where its superblock says, and with the committed generation in
  its superblock: a commit that writes the whole image raises the generation in memory, but the file it leaves is
  the one with the open record. It has the generation from before the commit and every byte of the new data,
  all bytes but those of the record's state and pending generation; and the next successful load takes the committed
  transaction for an incomplete one and goes back to the old generation, with the new data.\<close>

theorem commit_generation_not_durable:
  assumes "has_record n a m" "gen_of m = committed_of m a" "backing_map s = Some m" "map_bytes s = n" "n < 2 ^ 63"
    and "idkfs_dev s" "journal_dirty s" "backing_file s = FileOpen" "image_size s = n"
    and "idkfs_commit (int n) s = Some s'"
  shows "(\<exists>m'. backing_map s' = Some m' \<and> gen_of m' = gen_of m + 1 \<and> committed_of m' a = gen_of m + 1 \<and> state_of m' a = 0)
    \<and> \<not> journal_dirty s' \<and> state_of (image_bytes s') a = 1 \<and> gen_of (image_bytes s') = gen_of m
    \<and> (\<forall>i < n. i \<notin> {a + off_tx_state..<a + off_tx_committed} \<longrightarrow> image_bytes s' i = m i)
    \<and> (idkfs_blk_init w (blk_unloaded (image_size s') (image_bytes s')) = Some (s'', 0)
      \<longrightarrow> (\<exists>m''. backing_map s'' = Some m'' \<and> gen_of m'' = gen_of m
            \<and> (\<forall>i < n. i \<notin> {off_generation..<off_generation + 8} \<union> {a + off_tx_state..<a + off_tx_committed} \<longrightarrow> m'' i = m i)))"
proof -
  note o = open_record_fields[OF assms(1)]
  have s': "s' = s\<lparr>image_bytes := memcpy (image_bytes s) 0 (open_record m a) 0 n, image_size := n,
      backing_map := Some (close_record (open_record m a) a (gen_of m + 1)), journal_dirty := False, journal_work := True\<rparr>"
    using commit_eq[OF assms(1,3-8), of "int n"] assms(9,10) by simp
  then have mem: "(\<exists>m'. backing_map s' = Some m' \<and> gen_of m' = gen_of m + 1 \<and> committed_of m' a = gen_of m + 1 \<and> state_of m' a = 0)
    \<and> \<not> journal_dirty s'"
    using close_record_fields[OF o(1)] by simp
  have written: "\<forall>i < n. image_bytes s' i = open_record m a i"
    by (simp add: s' memcpy_def)
  then have data: "\<forall>i < n. i \<notin> {a + off_tx_state..<a + off_tx_committed} \<longrightarrow> image_bytes s' i = m i"
    by (simp add: open_record_def wr32_def wr64_def memcpy_def)
  note same = same_record[OF written, of a] has_record_bounds[OF assms(1)]
  then have st: "state_of (image_bytes s') a = 1 \<and> gen_of (image_bytes s') = gen_of m"
    using o by simp
  then have img: "file_ok n a (image_bytes s')" "committed_of (image_bytes s') a = gen_of m"
    using same o assms(2) by (simp_all add: file_ok_def)
  have "\<exists>m''. backing_map s'' = Some m'' \<and> gen_of m'' = gen_of m
      \<and> (\<forall>i < n. i \<notin> {off_generation..<off_generation + 8} \<union> {a + off_tx_state..<a + off_tx_committed} \<longrightarrow> m'' i = m i)"
    if init: "idkfs_blk_init w (blk_unloaded (image_size s') (image_bytes s')) = Some (s'', 0)"
  proof -
    obtain m1 where m1: "backing_map s'' = Some (replayed m1 a)" "\<forall>i < n. m1 i = image_bytes s' i"
      using init_cases[OF init, of n a] img assms(5) s' by (auto simp: file_ok_def)
    have "replayed m1 a i = m i"
      if "i < n" "i \<notin> {off_generation..<off_generation + 8} \<union> {a + off_tx_state..<a + off_tx_committed}" for i
      using that m1(2) data by (auto simp: replayed_def wr32_def wr64_def memcpy_def)
    with m1(1) loaded_map(3)[OF img(1) m1(2)] img(2) show ?thesis by auto
  qed
  with mem st data show ?thesis by blast
qed

theorem commit_generation_not_durable_witness:
  "\<exists>s m s' m' s'' m''. backing_map s = Some m \<and> idkfs_commit 13840 s = Some s'
     \<and> backing_map s' = Some m' \<and> gen_of m' = gen_of m + 1 \<and> state_of (image_bytes s') 4096 = 1
     \<and> idkfs_blk_init (good_answers 13840) (blk_unloaded (image_size s') (image_bytes s')) = Some (s'', 0)
     \<and> backing_map s'' = Some m'' \<and> gen_of m'' = gen_of m"
proof -
  obtain s m where s: "idkfs_dev s" "journal_dirty s" "backing_file s = FileOpen" "map_bytes s = 13840"
    "image_size s = 13840" "backing_map s = Some m" "has_record 13840 4096 m" "gen_of m = committed_of m 4096"
    "blk_reach 13840 4096 (mem_of aligned_image) s"
    using demo_dirty by blast
  from commit_eq[OF s(7,6,4) _ s(1,2,3), of 13840] obtain s' where c: "idkfs_commit (int 13840) s = Some s'"
    by simp
  have "blk_reach 13840 4096 (mem_of aligned_image) s'"
    using blk_reach.commit[OF s(9) c] by simp
  from blk_reach_inv[OF this aligned_image_ok] have "has_record 13840 4096 (image_bytes s')" "image_size s' = 13840"
    by (simp_all add: journal_inv_def file_ok_def)
  then obtain s'' where i: "idkfs_blk_init (good_answers 13840) (blk_unloaded (image_size s') (image_bytes s')) = Some (s'', 0)"
    using init_good_record by fastforce
  have "13840 < (2 :: nat) ^ 63" by simp
  note t = commit_generation_not_durable[OF s(7,8,6,4) this s(1,2,3,5) c, of "good_answers 13840" s'']
  have "idkfs_commit 13840 s = Some s'" using c by simp
  with t i s(6) show ?thesis by blast
qed

section \<open>Images made by mkfs\<close>

lemma no_record_state:
  assumes "mkfs_idkfs_main argc open_ok w0 w1 w2 = (0, Some img)"
    and t: "backing_map t = Some (memcpy zeros 0 (mem_of img) 0 13832)" "backing_size t = 13832"
  shows "idkfs_tx t = Some (Some 4096)" "tx_present t (Some 4096) = Some None"
    "gen_of (memcpy zeros 0 (mem_of img) 0 13832) = 1"
proof -
  note img = mkfs_idkfs_image[OF assms(1)]
  let ?m = "memcpy zeros 0 (mem_of img) 0 13832"
  have "rd32 ?m p = rd32 (mem_of img) p" if "p < 13000" for p
    using that by (intro rd32_eq) (simp add: memcpy_def)
  moreover have "rd64 ?m q = rd64 (mem_of img) q" if "q < 13000" for q
    using that by (intro rd64_eq) (simp add: memcpy_def)
  moreover have "rd64 (mem_of img) 64 = 1" "rd64 (mem_of img) 8 = 1"
    by (simp_all add: img super_block_bytes_def mkfs_super_def mem_simps)
  moreover have "rd32 (mem_of img) 4096 = 1"
    by (simp add: img mem_simps layout_simps) (simp add: tx_record_bytes_def mkfs_tx_def mem_simps le64_def)
  ultimately have f: "rd64 ?m 64 = 1" "rd64 ?m 8 = 1" "rd32 ?m 4096 = 1"
    by simp_all
  then show "idkfs_tx t = Some (Some 4096)" "tx_present t (Some 4096) = Some None" "gen_of ?m = 1"
    using t by (simp_all add: idkfs_tx_def tx_present_def ld64_def ld32_def gen_of_def)
qed

text \<open>On an image made by \<open>mkfs_idkfs\<close> the journal never works: the driver does not find the record, which
  mkfs wrote 8 bytes before block 1. Loading does not replay, and a commit only copies the map to the
  file; the generation is 1 and stays so.\<close>

theorem mkfs_image_has_no_journal:
  assumes "mkfs_idkfs_main argc open_ok w0 w1 w2 = (0, Some img)"
    and "idkfs_blk_init (good_answers (length img)) (blk_unloaded (length img) (mem_of img)) = Some (s, 0)"
    and "idkfs_commit written (s\<lparr>journal_dirty := True\<rparr>) = Some s'"
  shows "idkfs_tx s = Some (Some 4096) \<and> (\<exists>m. backing_map s = Some m \<and> gen_of m = 1 \<and> tx_present s (Some 4096) = Some None \<and> backing_map s' = Some m)"
proof -
  have len: "length img = 13832"
    by (simp add: mkfs_idkfs_image[OF assms(1)] layout_simps)
  let ?m = "memcpy zeros 0 (mem_of img) 0 13832"
  note no_tx = no_record_state[OF assms(1)]
  have s: "backing_map s = Some ?m" "backing_size s = 13832" "idkfs_dev s" "backing_file s = FileOpen"
    using assms(2) init_good[of 13832 "mem_of img"] no_tx(1,2) by (auto simp: len idkfs_replay_if_needed_def)
  moreover have "backing_map s' = Some ?m"
    using assms(3) s no_tx(1,2)
    by (auto simp: idkfs_commit_def commit_open_def commit_close_def kernel_write_map_def split: if_splits Option.bind_splits)
  ultimately show ?thesis
    using no_tx by simp
qed

theorem mkfs_image_has_no_journal_witness:
  "\<exists>img s s'. mkfs_idkfs_main 2 True 4088 4096 5648 = (0, Some img)
     \<and> idkfs_blk_init (good_answers 13832) (blk_unloaded 13832 (mem_of img)) = Some (s, 0)
     \<and> idkfs_commit 13832 (s\<lparr>journal_dirty := True\<rparr>) = Some s'
     \<and> (\<exists>m. backing_map s' = Some m \<and> gen_of m = 1)"
proof -
  obtain img where mk: "mkfs_idkfs_main 2 True 4088 4096 5648 = (0, Some img)"
    by (simp add: mkfs_idkfs_main_def layout_simps Let_def)
  note img = mkfs_idkfs_image[OF mk]
  have len: "length img = 13832"
    by (simp add: img layout_simps)
  let ?s = "(blk_unloaded 13832 (mem_of img))\<lparr>idkfs_dev := True, backing_file := FileOpen,
      backing_size := 13832, backing_map := Some (memcpy zeros 0 (mem_of img) 0 13832)\<rparr>"
  obtain s where i: "idkfs_blk_init (good_answers (length img)) (blk_unloaded (length img) (mem_of img)) = Some (s, 0)"
    and s: "idkfs_dev s" "backing_file s = FileOpen" "backing_size s = 13832" "backing_map s = backing_map ?s"
    using init_good[of 13832 "mem_of img"] no_record_state[OF mk, of ?s] by (auto simp: len idkfs_replay_if_needed_def)
  moreover obtain s' where c: "idkfs_commit 13832 (s\<lparr>journal_dirty := True\<rparr>) = Some s'"
    using s no_record_state[OF mk] by (auto simp: idkfs_commit_def commit_open_def commit_close_def kernel_write_map_def)
  ultimately show ?thesis
    using mk mkfs_image_has_no_journal[OF mk i c] by (auto simp: len)
qed

end
