(* ===== verification/Kfs_Inode.thy ===== *)
theory Kfs_Inode
  imports Kfs_Types
begin

text \<open>
  The inode of the kernel's on-disk format, \<open>struct idkfs_inode\<close> of \<^verbatim>\<open>idkfs_kfs.h\<close>, with its array of
  extents, and their byte layout. The modules and the tools of the repository do not read or write it yet.
\<close>

section \<open>Structs\<close>

record idkfs_kinode =
  ki_ino :: u32
  ki_mode :: u16
  ki_nlink :: u16
  ki_tier :: u8
  ki_pad :: u8
  ki_uid :: u32
  ki_gid :: u32
  ki_size :: u64
  ki_blocks :: u64
  ki_atime :: u64
  ki_mtime :: u64
  ki_ctime :: u64
  ki_generation :: u64
  ki_extents :: "nat \<Rightarrow> idkfs_extent"
  ki_checksum :: u32

definition sizeof_extent :: nat where
  [layout_simps]: "sizeof_extent = 24"

definition sizeof_kinode :: nat where
  [layout_simps]: "sizeof_kinode = 66 + KFS_MAX_EXTENTS * sizeof_extent + 4"

definition extent_bytes :: "idkfs_extent \<Rightarrow> u8 list" where
  "extent_bytes e = le64 (e_logical e) @ le64 (e_physical e) @ le32 (e_len e) @ le32 (e_checksum e)"

definition mem_extent :: "mem \<Rightarrow> nat \<Rightarrow> idkfs_extent" where
  "mem_extent m a = \<lparr>e_logical = rd64 m a, e_physical = rd64 m (a + 8), e_len = rd32 m (a + 16), e_checksum = rd32 m (a + 20)\<rparr>"

definition zero_extent :: idkfs_extent where
  "zero_extent = \<lparr>e_logical = 0, e_physical = 0, e_len = 0, e_checksum = 0\<rparr>"

definition kinode_bytes :: "idkfs_kinode \<Rightarrow> u8 list" where
  "kinode_bytes i =
     le32 (ki_ino i) @ le16 (ki_mode i) @ le16 (ki_nlink i) @ [ki_tier i, ki_pad i] @ le32 (ki_uid i) @ le32 (ki_gid i) @
     le64 (ki_size i) @ le64 (ki_blocks i) @ le64 (ki_atime i) @ le64 (ki_mtime i) @ le64 (ki_ctime i) @
     le64 (ki_generation i) @ array_bytes extent_bytes (ki_extents i) KFS_MAX_EXTENTS @ le32 (ki_checksum i)"

definition mem_kinode :: "mem \<Rightarrow> nat \<Rightarrow> idkfs_kinode" where
  "mem_kinode m a = \<lparr>ki_ino = rd32 m a, ki_mode = rd16 m (a + 4), ki_nlink = rd16 m (a + 6), ki_tier = m (a + 8),
     ki_pad = m (a + 9), ki_uid = rd32 m (a + 10), ki_gid = rd32 m (a + 14), ki_size = rd64 m (a + 18),
     ki_blocks = rd64 m (a + 26), ki_atime = rd64 m (a + 34), ki_mtime = rd64 m (a + 42), ki_ctime = rd64 m (a + 50),
     ki_generation = rd64 m (a + 58),
     ki_extents = (\<lambda>k. if k < KFS_MAX_EXTENTS then mem_extent m (a + 66 + k * sizeof_extent) else zero_extent),
     ki_checksum = rd32 m (a + 426)\<rparr>"

section \<open>Round trips\<close>

lemma length_extent_bytes [simp]: "length (extent_bytes e) = sizeof_extent"
  by (simp add: extent_bytes_def layout_simps)

lemmas length_extents_bytes [simp] = length_array_bytes[of extent_bytes, OF length_extent_bytes]

lemma length_kinode_bytes [simp]: "length (kinode_bytes i) = sizeof_kinode"
  by (simp add: kinode_bytes_def layout_simps)

lemma mem_extent_bytes: "mem_extent (mem_of (extent_bytes e)) 0 = e"
  by (simp add: mem_extent_def extent_bytes_def mem_simps)

lemma mem_extent_local:
  assumes "\<And>i. i < sizeof_extent \<Longrightarrow> m (a + i) = m' (b + i)"
  shows "mem_extent m a = mem_extent m' b"
  using assms unfolding mem_extent_def layout_simps idkfs_extent.ext_inject
  by (auto intro!: rd32_eq rd64_eq simp: add.assoc)

interpretation extent_codec: struct_codec sizeof_extent "\<lambda>e. mem_of (extent_bytes e)" mem_extent "\<lambda>e. e"
  by unfold_locales (erule mem_extent_local, rule mem_extent_bytes)

definition norm_kinode :: "idkfs_kinode \<Rightarrow> idkfs_kinode" where
  "norm_kinode i = i\<lparr>ki_extents := (\<lambda>k. if k < KFS_MAX_EXTENTS then ki_extents i k else zero_extent)\<rparr>"

lemma mem_kinode_bytes: "mem_kinode (mem_of (kinode_bytes i)) 0 = norm_kinode i"
proof -
  have "mem_extent (mem_of (kinode_bytes i)) (66 + k * sizeof_extent) = ki_extents i k" if "k < 15" for k
  proof (rule extent_codec.dec_stored)
    fix j assume j: "j < sizeof_extent"
    with that have "k * sizeof_extent + j < 15 * sizeof_extent"
      by (simp add: layout_simps)
    then show "mem_of (kinode_bytes i) (66 + k * sizeof_extent + j) = mem_of (extent_bytes (ki_extents i k)) j"
      using mem_of_array_bytes[of extent_bytes, OF length_extent_bytes that j, of "ki_extents i"]
      by (simp add: kinode_bytes_def mem_of_append mem_of_Cons add.assoc) (simp add: mem_of_def)
  qed
  then have "ki_extents (mem_kinode (mem_of (kinode_bytes i)) 0) = ki_extents (norm_kinode i)"
    by (simp add: mem_kinode_def norm_kinode_def fun_eq_iff)
  moreover have "mem_of (kinode_bytes i) 8 = ki_tier i" "mem_of (kinode_bytes i) 9 = ki_pad i"
    by (simp_all add: kinode_bytes_def mem_of_append mem_of_Cons)
  ultimately show ?thesis
    by (simp add: mem_kinode_def norm_kinode_def kinode_bytes_def mem_simps layout_simps)
qed

lemma mem_kinode_local:
  assumes "\<And>i. i < sizeof_kinode \<Longrightarrow> m (a + i) = m' (b + i)"
  shows "mem_kinode m a = mem_kinode m' b"
proof -
  have "mem_extent m (a + 66 + k * 24) = mem_extent m' (b + 66 + k * 24)" if "k < 15" for k
  proof (rule extent_codec.dec_eq)
    fix i assume "i < sizeof_extent"
    with that have "66 + k * 24 + i < sizeof_kinode"
      by (simp add: layout_simps)
    from assms[OF this] show "m (a + 66 + k * 24 + i) = m' (b + 66 + k * 24 + i)"
      by (simp add: add.assoc)
  qed
  then have "(\<lambda>k. if k < 15 then mem_extent m (a + 66 + k * 24) else zero_extent)
      = (\<lambda>k. if k < 15 then mem_extent m' (b + 66 + k * 24) else zero_extent)"
    by auto
  then show ?thesis
    using assms unfolding mem_kinode_def layout_simps idkfs_kinode.ext_inject
    by (auto intro!: rd16_eq rd32_eq rd64_eq simp: add.assoc)
qed

interpretation kinode_codec: struct_codec sizeof_kinode "\<lambda>i. mem_of (kinode_bytes i)" mem_kinode norm_kinode
  by unfold_locales (erule mem_kinode_local, rule mem_kinode_bytes)

end
