(* ===== verification/Vfs.thy ===== *)
theory Vfs
  imports Kfs_Inode
begin

text \<open>
  The file-system module \<^verbatim>\<open>idkfs_vfs.c\<close>: choosing a tier by file name, allocating blocks from the zone
  of a tier, mapping the blocks of a file through its extents, and the directory operations.

  The kernel is not part of the sources. Its functions are arguments: \<open>tolower\<close> of the kernel's
  \<open>strncasecmp\<close>, \<open>inode_init_owner\<close>, \<open>simple_empty\<close>, the results of \<open>simple_rename\<close>,
  \<open>get_next_ino\<close> and \<open>current_time\<close>, and whether an allocation succeeds. The lock of the superblock
  makes an allocation one step.
\<close>

section \<open>State\<close>

text \<open>The superblock in its buffer, and whether the buffer is marked dirty or was written back.\<close>

record idkfs_sb_info =
  isb :: idkfs_super_block
  sbh_dirty :: bool
  sbh_synced :: bool

datatype inode_ops = NoOps | FileOps | DirOps

record inode =
  i_number :: u64
  i_umode :: u16
  i_nlink :: u32
  i_blocks :: u64
  i_times :: "int \<times> int \<times> int"
  i_ops :: inode_ops
  i_dirty :: bool

record idkfs_inode_info =
  vfs_inode :: inode
  ii_extents :: "idkfs_extent list"
  ii_tier :: u8

abbreviation (input) VFS_ENOSPC :: int where "VFS_ENOSPC \<equiv> 28"
abbreviation (input) VFS_ENOMEM :: int where "VFS_ENOMEM \<equiv> 12"
abbreviation (input) VFS_EINVAL :: int where "VFS_EINVAL \<equiv> 22"
abbreviation (input) VFS_EIO :: int where "VFS_EIO \<equiv> 5"
abbreviation (input) VFS_ENOTEMPTY :: int where "VFS_ENOTEMPTY \<equiv> 39"
abbreviation (input) S_IFDIR_bits :: u16 where "S_IFDIR_bits \<equiv> 0x4000"

fun ktier_code :: "idkfs_tier \<Rightarrow> u8" where
  "ktier_code KTIER_FAST = 0"
| "ktier_code KTIER_NORMAL = 1"
| "ktier_code KTIER_SLOW = 2"

text \<open>\<open>sbi\<close> may be \<open>NULL\<close>; its buffer never is while it exists.\<close>

definition idkfs_mark_sb_dirty :: "idkfs_sb_info option \<Rightarrow> idkfs_sb_info option" where
  "idkfs_mark_sb_dirty sbi = map_option (\<lambda>s. s\<lparr>sbh_dirty := True\<rparr>) sbi"

section \<open>Tiers\<close>

text \<open>The module parameters \<open>fast_exts\<close> (``.so,.bin,.exe,.o'') and \<open>slow_exts\<close>
  (``.iso,.tar,.zip,.gz,.bz2,.zst'').\<close>

definition fast_exts :: cstr where
  "fast_exts = bytes_of_string ''.so,.bin,.exe,.o''"

definition slow_exts :: cstr where
  "slow_exts = bytes_of_string ''.iso,.tar,.zip,.gz,.bz2,.zst''"

abbreviation (input) comma :: u8 where "comma \<equiv> 44"

text \<open>\<open>strsep(&cur, ",")\<close>: the token, and the rest after the comma (\<open>None\<close> is \<open>NULL\<close>).\<close>

definition strsep :: "cstr \<Rightarrow> cstr \<times> cstr option" where
  "strsep cur = (takeWhile (\<lambda>c. c \<noteq> comma) cur,
     case dropWhile (\<lambda>c. c \<noteq> comma) cur of [] \<Rightarrow> None | _ # rest \<Rightarrow> Some rest)"

text \<open>\<open>strncasecmp(s, t, strlen(t)) == 0\<close> for a string \<open>s\<close> of the same length.\<close>

definition case_equal :: "(u8 \<Rightarrow> u8) \<Rightarrow> cstr \<Rightarrow> cstr \<Rightarrow> bool" where
  "case_equal lower s t \<longleftrightarrow> map lower s = map lower t"

lemma strsep_shorter: "strsep cur = (tok, Some rest) \<Longrightarrow> length rest < length cur"
proof -
  assume "strsep cur = (tok, Some rest)"
  then obtain c where "dropWhile (\<lambda>c. c \<noteq> comma) cur = c # rest"
    by (auto simp: strsep_def split: list.splits)
  then show ?thesis
    using length_dropWhile_le[of "\<lambda>c. c \<noteq> comma" cur] by simp
qed

function ext_loop :: "(u8 \<Rightarrow> u8) \<Rightarrow> cstr \<Rightarrow> cstr option \<Rightarrow> bool" where
  "ext_loop lower name None = False"
| "ext_loop lower name (Some cur) =
     (let (tok, rest) = strsep cur; nl = length name; el = length tok
      in if tok = [] then ext_loop lower name rest
         else if nl \<ge> el \<and> case_equal lower (drop (nl - el) name) tok then True
         else ext_loop lower name rest)"
  by pat_completeness auto
termination
  by (relation "measure (\<lambda>(_, _, cur). case cur of None \<Rightarrow> 0 | Some c \<Rightarrow> Suc (length c))")
    (auto dest: strsep_shorter[OF sym] split: option.splits)

text \<open>With \<open>kstrdup_ok\<close> false the copy of the list could not be allocated. The names are never
  \<open>NULL\<close> here.\<close>

definition idkfs_ext_match :: "(u8 \<Rightarrow> u8) \<Rightarrow> bool \<Rightarrow> cstr \<Rightarrow> cstr \<Rightarrow> bool" where
  "idkfs_ext_match lower kstrdup_ok name ext_csv = (kstrdup_ok \<and> ext_loop lower name (Some ext_csv))"

definition idkfs_get_tier :: "(u8 \<Rightarrow> u8) \<Rightarrow> bool \<Rightarrow> cstr \<Rightarrow> u8" where
  "idkfs_get_tier lower kstrdup_ok name =
     (if idkfs_ext_match lower kstrdup_ok name fast_exts then ktier_code KTIER_FAST
      else if idkfs_ext_match lower kstrdup_ok name slow_exts then ktier_code KTIER_SLOW
      else ktier_code KTIER_NORMAL)"

section \<open>Blocks\<close>

definition idkfs_alloc_tiered :: "idkfs_sb_info \<Rightarrow> u8 \<Rightarrow> idkfs_sb_info \<times> u64" where
  "idkfs_alloc_tiered sbi tier =
     (let b = isb sbi in
      if ks_free_blocks b = 0 then (sbi, 0)
      else let (phys, b) =
             (if tier = ktier_code KTIER_FAST then (ks_next_fast b, b\<lparr>ks_next_fast := ks_next_fast b + 1\<rparr>)
              else if tier = ktier_code KTIER_SLOW then (ks_next_slow b, b\<lparr>ks_next_slow := ks_next_slow b + 1\<rparr>)
              else (ks_next_normal b, b\<lparr>ks_next_normal := ks_next_normal b + 1\<rparr>))
           in (sbi\<lparr>isb := b\<lparr>ks_free_blocks := ks_free_blocks b - 1\<rparr>, sbh_dirty := True\<rparr>, phys))"

text \<open>What \<open>idkfs_get_block\<close> leaves in \<open>bh_result\<close>: nothing, or a mapped block, new or not.\<close>

datatype bh_result = Unmapped | MappedBlock u64 | MappedNew u64

text \<open>The first loop: the block behind the first extent that covers \<open>iblock\<close>.\<close>

fun extent_find :: "idkfs_extent list \<Rightarrow> u64 \<Rightarrow> u64 option" where
  "extent_find [] iblock = None"
| "extent_find (e # es) iblock =
     (if iblock \<ge> e_logical e \<and> iblock < e_logical e + ucast (e_len e)
      then Some (e_physical e + (iblock - e_logical e))
      else extent_find es iblock)"

text \<open>The second loop: the first unused extent takes the new block, if there is one.\<close>

fun extent_put :: "idkfs_extent list \<Rightarrow> u64 \<Rightarrow> u64 \<Rightarrow> idkfs_extent list" where
  "extent_put [] iblock phys = []"
| "extent_put (e # es) iblock phys =
     (if e_len e = 0 then e\<lparr>e_logical := iblock, e_physical := phys, e_len := 1\<rparr> # es
      else e # extent_put es iblock phys)"

definition idkfs_get_block ::
    "idkfs_sb_info \<Rightarrow> idkfs_inode_info \<Rightarrow> u64 \<Rightarrow> bool \<Rightarrow> idkfs_sb_info \<times> idkfs_inode_info \<times> bh_result \<times> int" where
  "idkfs_get_block sbi ii iblock create =
     (case extent_find (ii_extents ii) iblock of
        Some p \<Rightarrow> (sbi, ii, MappedBlock p, 0)
      | None \<Rightarrow>
          if \<not> create then (sbi, ii, Unmapped, 0)
          else let (sbi, phys) = idkfs_alloc_tiered sbi (ii_tier ii) in
            if phys = 0 then (sbi, ii, Unmapped, - VFS_ENOSPC)
            else (sbi, ii\<lparr>ii_extents := extent_put (ii_extents ii) iblock phys\<rparr>, MappedNew phys, 0))"

text \<open>\<open>block_write_begin\<close> is the kernel's: it prepares the pages of a range of a file and calls back for
  their blocks.\<close>

type_synonym get_block = "idkfs_sb_info \<Rightarrow> idkfs_inode_info \<Rightarrow> u64 \<Rightarrow> bool
    \<Rightarrow> idkfs_sb_info \<times> idkfs_inode_info \<times> bh_result \<times> int"

type_synonym page_writer = "get_block \<Rightarrow> idkfs_sb_info \<Rightarrow> idkfs_inode_info \<Rightarrow> u64 \<Rightarrow> u32
    \<Rightarrow> idkfs_sb_info \<times> idkfs_inode_info \<times> int"

definition idkfs_write_begin :: "page_writer \<Rightarrow> idkfs_sb_info \<Rightarrow> idkfs_inode_info \<Rightarrow> u64 \<Rightarrow> u32
    \<Rightarrow> idkfs_sb_info \<times> idkfs_inode_info \<times> int" where
  "idkfs_write_begin block_write_begin sbi ii pos len = block_write_begin idkfs_get_block sbi ii pos len"

definition idkfs_write_inode :: "idkfs_sb_info option \<Rightarrow> bool \<Rightarrow> idkfs_sb_info option \<times> int" where
  "idkfs_write_inode sbi sync_all = (case sbi of
     None \<Rightarrow> (None, - VFS_EIO)
   | Some s \<Rightarrow> (Some (if sync_all then s\<lparr>sbh_dirty := False, sbh_synced := True\<rparr> else s\<lparr>sbh_dirty := True\<rparr>), 0))"

section \<open>Inodes and directories\<close>

text \<open>\<open>mem\<close> is what the slab cache returned (\<open>None\<close> when it is exhausted); its fields, the tier among
  them, are those of an earlier use.\<close>

definition idkfs_alloc_inode :: "idkfs_inode_info option \<Rightarrow> idkfs_inode_info option" where
  "idkfs_alloc_inode ii = map_option (\<lambda>ii. ii\<lparr>ii_extents := replicate KFS_MAX_EXTENTS zero_extent\<rparr>) ii"

text \<open>The objects of the cache by address; freeing an inode gives its object back.\<close>

type_synonym inode_cache = "nat \<rightharpoonup> idkfs_inode_info"

definition idkfs_free_inode :: "inode_cache \<Rightarrow> nat \<Rightarrow> inode_cache" where
  "idkfs_free_inode live a = live(a := None)"

text \<open>The kernel's side of an operation: \<open>inode_init\<close> is what \<open>new_inode\<close> does to the embedded
  inode after \<open>idkfs_alloc_inode\<close>.\<close>

record kernel =
  k_tolower :: "u8 \<Rightarrow> u8"
  kstrdup_succeeds :: bool
  slab :: "idkfs_inode_info option"
  inode_init :: "inode \<Rightarrow> inode"
  init_owner :: "inode \<Rightarrow> inode \<Rightarrow> u16 \<Rightarrow> inode"
  next_ino :: u64
  cur_time :: int
  dir_empty :: bool
  rename_ret :: int

definition new_inode :: "kernel \<Rightarrow> idkfs_inode_info option" where
  "new_inode k = map_option (\<lambda>ii. ii\<lparr>vfs_inode := inode_init k (vfs_inode ii)\<rparr>) (idkfs_alloc_inode (slab k))"

text \<open>\<open>dir->i_mtime = dir->i_ctime = current_time(dir)\<close> and \<open>mark_inode_dirty(dir)\<close>.\<close>

definition touch_dir :: "kernel \<Rightarrow> inode \<Rightarrow> inode" where
  "touch_dir k d = d\<lparr>i_times := (fst (i_times d), cur_time k, cur_time k), i_dirty := True\<rparr>"

text \<open>The operations return the directory, the inode that \<open>d_instantiate\<close> attaches to the new name, the
  superblock's state and the error number.\<close>

definition vfs_create :: "kernel \<Rightarrow> idkfs_sb_info option \<Rightarrow> inode \<Rightarrow> cstr \<Rightarrow> u16
    \<Rightarrow> idkfs_sb_info option \<times> inode \<times> idkfs_inode_info option \<times> int" where
  "vfs_create k sbi d name mode = (case new_inode k of
     None \<Rightarrow> (sbi, d, None, - VFS_ENOMEM)
   | Some ii \<Rightarrow>
       let ii = ii\<lparr>ii_tier := idkfs_get_tier (k_tolower k) (kstrdup_succeeds k) name\<rparr>;
           v = init_owner k (vfs_inode ii) d mode;
           t = cur_time k;
           v = v\<lparr>i_number := next_ino k, i_times := (t, t, t), i_blocks := 0, i_ops := FileOps, i_dirty := True\<rparr>
       in (idkfs_mark_sb_dirty sbi, touch_dir k d, Some (ii\<lparr>vfs_inode := v\<rparr>), 0))"

definition vfs_unlink :: "kernel \<Rightarrow> idkfs_sb_info option \<Rightarrow> inode \<Rightarrow> inode \<Rightarrow> idkfs_sb_info option \<times> inode \<times> inode \<times> int" where
  "vfs_unlink k sbi d v =
     (let v = v\<lparr>i_times := (fst (i_times v), fst (snd (i_times v)), cur_time k), i_nlink := i_nlink v - 1, i_dirty := True\<rparr>
      in (idkfs_mark_sb_dirty sbi, touch_dir k d, v, 0))"

definition vfs_mkdir :: "kernel \<Rightarrow> idkfs_sb_info option \<Rightarrow> inode \<Rightarrow> u16
    \<Rightarrow> idkfs_sb_info option \<times> inode \<times> idkfs_inode_info option \<times> int" where
  "vfs_mkdir k sbi d mode = (case new_inode k of
     None \<Rightarrow> (sbi, d, None, - VFS_ENOMEM)
   | Some ii \<Rightarrow>
       let v = init_owner k (vfs_inode ii) d (S_IFDIR_bits OR mode);
           t = cur_time k;
           v = v\<lparr>i_number := next_ino k, i_ops := DirOps, i_times := (t, t, t), i_nlink := 2\<rparr>
       in (idkfs_mark_sb_dirty sbi, touch_dir k (d\<lparr>i_nlink := i_nlink d + 1\<rparr>), Some (ii\<lparr>vfs_inode := v\<rparr>), 0))"

definition vfs_rmdir :: "kernel \<Rightarrow> idkfs_sb_info option \<Rightarrow> inode \<Rightarrow> inode \<Rightarrow> idkfs_sb_info option \<times> inode \<times> inode \<times> int" where
  "vfs_rmdir k sbi d v =
     (if \<not> dir_empty k then (sbi, d, v, - VFS_ENOTEMPTY)
      else (idkfs_mark_sb_dirty sbi, touch_dir k (d\<lparr>i_nlink := i_nlink d - 1\<rparr>), v\<lparr>i_nlink := i_nlink v - 1\<rparr>, 0))"

text \<open>The superblocks of the old and the new directory; the second one is \<open>None\<close> when it is the same.\<close>

definition vfs_rename :: "kernel \<Rightarrow> idkfs_sb_info option \<Rightarrow> idkfs_sb_info option option
    \<Rightarrow> idkfs_sb_info option \<times> idkfs_sb_info option option \<times> int" where
  "vfs_rename k old_sb new_sb =
     (if rename_ret k = 0 then (idkfs_mark_sb_dirty old_sb, map_option idkfs_mark_sb_dirty new_sb, 0)
      else (old_sb, new_sb, rename_ret k))"

definition idkfs_put_super :: "idkfs_sb_info option \<Rightarrow> idkfs_sb_info option \<times> idkfs_super_block option" where
  "idkfs_put_super sbi = (None, map_option isb sbi)"

text \<open>Mounting. \<open>bread\<close> is the first block of the device (\<open>None\<close> when it cannot be read),
  \<open>kzalloc_succeeds\<close> and \<open>root_made\<close> answer the allocations of the state and of the root's entry. The
  code uses the results of \<open>kzalloc\<close> and of \<open>new_inode\<close> without a check: \<open>None\<close> is the \<open>NULL\<close>
  access. The inner results are the state, the root inode, and the error number.\<close>

definition idkfs_fill_super :: "kernel \<Rightarrow> mem option \<Rightarrow> bool \<Rightarrow> bool
    \<Rightarrow> (idkfs_sb_info option \<times> inode option \<times> int) option" where
  "idkfs_fill_super k bread kzalloc_succeeds root_made = (case bread of
     None \<Rightarrow> Some (None, None, - VFS_EINVAL)
   | Some b \<Rightarrow>
       if ks_magic (mem_super_block b 0) \<noteq> KFS_MAGIC then Some (None, None, - VFS_EINVAL)
       else if \<not> kzalloc_succeeds then None
       else let sbi = Some \<lparr>isb = mem_super_block b 0, sbh_dirty = False, sbh_synced = False\<rparr> in
         case new_inode k of
           None \<Rightarrow> None
         | Some ii \<Rightarrow>
             let t = cur_time k;
                 root = (vfs_inode ii)\<lparr>i_number := 1, i_umode := S_IFDIR_bits OR 0x1ED, i_times := (t, t, t),
                          i_nlink := 2, i_ops := DirOps\<rparr>
             in if root_made then Some (sbi, Some root, 0)
                else Some (fst (idkfs_put_super sbi), None, - VFS_ENOMEM))"

text \<open>\<open>mount_bdev\<close> is the kernel's: it opens the device and calls back to fill the superblock.\<close>

definition idkfs_mount :: "((mem option \<Rightarrow> bool \<Rightarrow> bool \<Rightarrow> (idkfs_sb_info option \<times> inode option \<times> int) option) \<Rightarrow> 'r)
    \<Rightarrow> kernel \<Rightarrow> 'r" where
  "idkfs_mount mount_bdev k = mount_bdev (idkfs_fill_super k)"

section \<open>The module\<close>

text \<open>Loading creates the cache of inodes and registers the type; \<open>cache_made\<close> and \<open>register_ret\<close> are the
  kernel's answers. The first one is not checked, and the cache is kept when the second is an error.\<close>

record vfs_module =
  inode_cachep :: bool
  fs_registered :: bool

definition idkfs_vfs_init :: "bool \<Rightarrow> int \<Rightarrow> vfs_module \<times> int" where
  "idkfs_vfs_init cache_made register_ret =
     (\<lparr>inode_cachep = cache_made, fs_registered = (register_ret = 0)\<rparr>, register_ret)"

definition idkfs_vfs_exit :: "vfs_module \<Rightarrow> vfs_module" where
  "idkfs_vfs_exit m = (m\<lparr>fs_registered := False\<rparr>)\<lparr>inode_cachep := False\<rparr>"

end
