(* ===== verification/Vfs_Proofs.thy ===== *)
theory Vfs_Proofs
  imports Vfs Mkfs_Fsck "HOL-Library.Sublist"
begin

text \<open>
  Properties of the file-system module: which names belong to which tier, what the block map of a file
  is after \<open>idkfs_get_block\<close>, and how far the zones of the tiers are kept apart.
\<close>

declare ext_loop.simps(2) [simp del]

section \<open>Tiers\<close>

text \<open>\<open>tok\<close> is an entry of a comma-separated list.\<close>

definition csv_entry :: "cstr \<Rightarrow> cstr \<Rightarrow> bool" where
  "csv_entry tok csv \<longleftrightarrow> comma \<notin> set tok \<and>
     (\<exists>pre post. csv = pre @ tok @ post \<and> (pre = [] \<or> last pre = comma) \<and> (post = [] \<or> hd post = comma))"

text \<open>A name that ends, up to case, with a non-empty entry of the list.\<close>

definition has_ext :: "(u8 \<Rightarrow> u8) \<Rightarrow> cstr \<Rightarrow> cstr \<Rightarrow> bool" where
  "has_ext lower name csv \<longleftrightarrow> (\<exists>tok. tok \<noteq> [] \<and> csv_entry tok csv \<and> suffix (map lower tok) (map lower name))"

lemma strsep_None: "strsep cur = (tok, None) \<Longrightarrow> cur = tok \<and> comma \<notin> set tok"
proof -
  assume "strsep cur = (tok, None)"
  then have "dropWhile (\<lambda>c. c \<noteq> comma) cur = []" and tok: "tok = takeWhile (\<lambda>c. c \<noteq> comma) cur"
    by (auto simp: strsep_def split: list.splits)
  then have *: "\<forall>c \<in> set cur. c \<noteq> comma" by (simp only: dropWhile_eq_Nil_conv)
  then have "tok = cur" unfolding tok by (simp only: takeWhile_eq_all_conv)
  with * show ?thesis by auto
qed

lemma strsep_Some: "strsep cur = (tok, Some rest) \<Longrightarrow> cur = tok @ comma # rest \<and> comma \<notin> set tok"
proof -
  assume *: "strsep cur = (tok, Some rest)"
  then obtain c where c: "dropWhile (\<lambda>c. c \<noteq> comma) cur = c # rest" "tok = takeWhile (\<lambda>c. c \<noteq> comma) cur"
    by (auto simp: strsep_def split: list.splits)
  have "c = comma"
    using hd_dropWhile[of "\<lambda>c. c \<noteq> comma" cur] c(1) by simp
  moreover have "cur = tok @ c # rest"
    using takeWhile_dropWhile_id[of "\<lambda>c. c \<noteq> comma" cur] c by simp
  moreover have "comma \<notin> set tok"
    unfolding c(2) by (auto dest: set_takeWhileD)
  ultimately show ?thesis by simp
qed

lemma csv_entry_single: "comma \<notin> set cur \<Longrightarrow> csv_entry tok cur \<longleftrightarrow> tok = cur"
proof
  assume c: "comma \<notin> set cur" and "csv_entry tok cur"
  then obtain pre post where p: "cur = pre @ tok @ post" "pre = [] \<or> last pre = comma" "post = [] \<or> hd post = comma"
    by (auto simp: csv_entry_def)
  with c have "pre = []" "post = []"
    by (metis Un_iff last_in_set set_append) (metis p c Un_iff hd_in_set set_append)
  with p show "tok = cur" by simp
next
  assume "comma \<notin> set cur" "tok = cur"
  then show "csv_entry tok cur"
    unfolding csv_entry_def by (intro conjI exI[of _ "[]"]) simp_all
qed

lemma csv_entry_Cons:
  assumes "comma \<notin> set t"
  shows "csv_entry tok (t @ comma # rest) \<longleftrightarrow> tok = t \<or> csv_entry tok rest"
proof
  assume "csv_entry tok (t @ comma # rest)"
  then obtain pre post where p: "t @ comma # rest = pre @ tok @ post" "pre = [] \<or> last pre = comma"
    "post = [] \<or> hd post = comma" "comma \<notin> set tok"
    by (auto simp: csv_entry_def)
  show "tok = t \<or> csv_entry tok rest"
  proof (cases "pre = []")
    case True
    then have "t @ comma # rest = tok @ post" using p(1) by simp
    moreover have "takeWhile (\<lambda>c. c \<noteq> comma) (t @ comma # rest) = t"
      using assms by (subst takeWhile_append2) auto
    moreover have "takeWhile (\<lambda>c. c \<noteq> comma) (tok @ post) = tok"
      using p(3,4) by (subst takeWhile_append2) (auto, cases post, auto)
    ultimately show ?thesis by simp
  next
    case False
    then have "comma \<in> set pre" using p(2) by (metis last_in_set)
    then obtain pre' where "pre = t @ comma # pre'" "rest = pre' @ tok @ post"
      using p(1) assms by (auto simp: append_eq_append_conv2 Cons_eq_append_conv)
    moreover have "pre' = [] \<or> last pre' = comma"
      using p(2) False \<open>pre = t @ comma # pre'\<close> by (auto split: if_splits)
    ultimately show ?thesis
      using p(3,4) by (auto simp: csv_entry_def)
  qed
next
  assume "tok = t \<or> csv_entry tok rest"
  then show "csv_entry tok (t @ comma # rest)"
  proof
    assume "tok = t"
    then show ?thesis
      using assms unfolding csv_entry_def
      by (intro conjI exI[of _ "[]"] exI[of _ "comma # rest"]) simp_all
  next
    assume "csv_entry tok rest"
    then obtain pre post where "rest = pre @ tok @ post" "pre = [] \<or> last pre = comma" "post = [] \<or> hd post = comma" "comma \<notin> set tok"
      by (auto simp: csv_entry_def)
    then show ?thesis
      unfolding csv_entry_def by (intro conjI exI[of _ "t @ comma # pre"] exI[of _ post]) auto
  qed
qed

lemma suffix_test:
  "(length name \<ge> length tok \<and> case_equal lower (drop (length name - length tok) name) tok)
     \<longleftrightarrow> suffix (map lower tok) (map lower name)"
proof
  assume "length name \<ge> length tok \<and> case_equal lower (drop (length name - length tok) name) tok"
  then show "suffix (map lower tok) (map lower name)"
    unfolding case_equal_def by (metis drop_map suffix_drop)
next
  assume "suffix (map lower tok) (map lower name)"
  then obtain p where p: "map lower name = p @ map lower tok"
    by (auto simp: suffix_def)
  then have "length name = length p + length tok"
    by (metis length_append length_map)
  moreover have "map lower (drop (length p) name) = map lower tok"
    using p by (simp add: drop_map[symmetric])
  ultimately show "length name \<ge> length tok \<and> case_equal lower (drop (length name - length tok) name) tok"
    by (simp add: case_equal_def)
qed

lemma has_ext_Cons: "comma \<notin> set t \<Longrightarrow> has_ext lower name (t @ comma # rest)
    \<longleftrightarrow> t \<noteq> [] \<and> suffix (map lower t) (map lower name) \<or> has_ext lower name rest"
  by (auto simp: has_ext_def csv_entry_Cons)

lemma has_ext_single: "comma \<notin> set t \<Longrightarrow> has_ext lower name t \<longleftrightarrow> t \<noteq> [] \<and> suffix (map lower t) (map lower name)"
  by (auto simp: has_ext_def csv_entry_single)

lemma ext_loop_has_ext: "ext_loop lower name (Some cur) \<longleftrightarrow> has_ext lower name cur"
proof (induction cur rule: length_induct)
  case (1 cur)
  obtain tok rest where s: "strsep cur = (tok, rest)" by fastforce
  show ?case
  proof (cases rest)
    case None
    then show ?thesis
      using strsep_None[of cur tok] s by (auto simp: ext_loop.simps(2) Let_def has_ext_single suffix_test[symmetric])
  next
    case (Some r)
    then have "ext_loop lower name (Some r) \<longleftrightarrow> has_ext lower name r"
      using 1 strsep_shorter[of cur tok r] s by simp
    then show ?thesis
      using strsep_Some[of cur tok r] s Some by (auto simp: ext_loop.simps(2) Let_def has_ext_Cons suffix_test[symmetric])
  qed
qed

text \<open>C36: A new file gets the fast tier exactly when its name ends, up to case, with one of the fast
  extensions; otherwise the slow tier exactly when it ends with one of the slow ones; otherwise the
  normal tier. Empty entries of a list match nothing.\<close>

theorem get_tier_by_extension:
  "idkfs_get_tier lower True name =
     (if has_ext lower name fast_exts then 0 else if has_ext lower name slow_exts then 2 else 1)"
  by (simp add: idkfs_get_tier_def idkfs_ext_match_def ext_loop_has_ext)

section \<open>Block maps\<close>

lemma extent_covers_one:
  "iblock \<noteq> - 1 \<Longrightarrow> (ib \<ge> iblock \<and> ib < iblock + 1) \<longleftrightarrow> ib = (iblock :: u64)"
proof -
  assume "iblock \<noteq> - 1"
  then have "iblock + 1 \<noteq> 0"
    by (metis add.commute add_eq_0_iff)
  then have "unat (iblock + 1) = unat iblock + 1"
    by (simp add: unatSuc add.commute)
  then show ?thesis
    by (auto simp: word_le_nat_alt word_less_nat_alt word_unat_eq_iff)
qed

lemma extent_find_put:
  assumes "extent_find es iblock = None" "iblock \<noteq> - 1" "\<exists>e \<in> set es. e_len e = 0"
  shows "extent_find (extent_put es iblock phys) = (extent_find es)(iblock \<mapsto> phys)"
  using assms(1,3)
proof (induction es)
  case (Cons e es)
  show ?case
  proof (cases "e_len e = 0")
    case True
    then have "extent_find (e # es) ib = extent_find es ib" for ib
      by (auto dest: leD)
    moreover have "extent_find (extent_put (e # es) iblock phys) ib = (if ib = iblock then Some phys else extent_find es ib)" for ib
      using True extent_covers_one[OF assms(2), of ib] by simp
    ultimately show ?thesis
      by (simp add: fun_eq_iff)
  next
    case False
    with Cons have "extent_find (extent_put es iblock phys) = (extent_find es)(iblock \<mapsto> phys)"
      by (auto split: if_splits)
    moreover have "\<not> (iblock \<ge> e_logical e \<and> iblock < e_logical e + ucast (e_len e))"
      using Cons.prems(1) by (simp split: if_splits)
    ultimately show ?thesis
      using False by (intro ext) (case_tac "x = iblock"; auto)
  qed
qed simp

lemma extent_find_replicate:
  "\<not> (iblock \<ge> e_logical e \<and> iblock < e_logical e + ucast (e_len e)) \<Longrightarrow> extent_find (replicate n e) iblock = None"
  by (induction n) auto

lemma extent_put_full: "\<forall>e \<in> set es. e_len e \<noteq> 0 \<Longrightarrow> extent_put es iblock phys = es"
  by (induction es) auto

lemma alloc_none: "ks_free_blocks (isb sbi) = 0 \<Longrightarrow> idkfs_alloc_tiered sbi tier = (sbi, 0)"
  by (simp add: idkfs_alloc_tiered_def)

lemma alloc_some:
  assumes "ks_free_blocks (isb sbi) \<noteq> 0" "idkfs_alloc_tiered sbi tier = (s, phys)"
  shows "ks_free_blocks (isb s) = ks_free_blocks (isb sbi) - 1"
    "phys = ks_next_fast (isb sbi) \<or> phys = ks_next_normal (isb sbi) \<or> phys = ks_next_slow (isb sbi)"
  using assms by (auto simp: idkfs_alloc_tiered_def Let_def split: if_splits)

lemma get_block_cases:
  "extent_find (ii_extents ii) iblock = Some p \<Longrightarrow> idkfs_get_block sbi ii iblock create = (sbi, ii, MappedBlock p, 0)"
  "extent_find (ii_extents ii) iblock = None \<Longrightarrow> \<not> create \<Longrightarrow> idkfs_get_block sbi ii iblock create = (sbi, ii, Unmapped, 0)"
  "extent_find (ii_extents ii) iblock = None \<Longrightarrow> create \<Longrightarrow> ks_free_blocks (isb sbi) = 0
     \<Longrightarrow> idkfs_get_block sbi ii iblock create = (sbi, ii, Unmapped, - VFS_ENOSPC)"
  "extent_find (ii_extents ii) iblock = None \<Longrightarrow> create \<Longrightarrow> idkfs_alloc_tiered sbi (ii_tier ii) = (s, phys) \<Longrightarrow> phys \<noteq> 0
     \<Longrightarrow> idkfs_get_block sbi ii iblock create =
           (s, ii\<lparr>ii_extents := extent_put (ii_extents ii) iblock phys\<rparr>, MappedNew phys, 0)"
  by (simp_all add: idkfs_get_block_def alloc_none)

text \<open>C20: What \<open>idkfs_get_block\<close> does to the block map of a file. A mapped block is found and nothing
  changes; without \<open>create\<close> an unmapped block stays unmapped. With \<open>create\<close>, when no block can be had the
  result is \<open>-ENOSPC\<close> and the file keeps its map; otherwise the caller gets a new block, one block is
  taken from the free ones, and the map gains exactly this block if an extent is unused. With all extents in
  use the call still succeeds, but the map does not change: the block is lost to the file.\<close>

theorem get_block_updates_map:
  assumes "idkfs_get_block sbi ii iblock create = (sbi', ii', r, err)"
  shows "case extent_find (ii_extents ii) iblock of
      Some p \<Rightarrow> sbi' = sbi \<and> ii' = ii \<and> r = MappedBlock p \<and> err = 0
    | None \<Rightarrow>
        if \<not> create then sbi' = sbi \<and> ii' = ii \<and> r = Unmapped \<and> err = 0
        else if ks_free_blocks (isb sbi) = 0 then sbi' = sbi \<and> ii' = ii \<and> r = Unmapped \<and> err = - VFS_ENOSPC
        else 0 \<notin> {ks_next_fast (isb sbi), ks_next_normal (isb sbi), ks_next_slow (isb sbi)} \<and> iblock \<noteq> - 1
          \<longrightarrow> (\<exists>phys. r = MappedNew phys \<and> err = 0 \<and> ks_free_blocks (isb sbi') = ks_free_blocks (isb sbi) - 1
               \<and> extent_find (ii_extents ii') =
                   (if \<exists>e \<in> set (ii_extents ii). e_len e = 0 then (extent_find (ii_extents ii))(iblock \<mapsto> phys)
                    else extent_find (ii_extents ii)))"
proof -
  have new: "\<exists>phys. r = MappedNew phys \<and> err = 0 \<and> ks_free_blocks (isb sbi') = ks_free_blocks (isb sbi) - 1
      \<and> extent_find (ii_extents ii') =
          (if \<exists>e \<in> set (ii_extents ii). e_len e = 0 then (extent_find (ii_extents ii))(iblock \<mapsto> phys)
           else extent_find (ii_extents ii))"
    if find: "extent_find (ii_extents ii) iblock = None" "create" and free: "ks_free_blocks (isb sbi) \<noteq> 0"
      and nz: "0 \<notin> {ks_next_fast (isb sbi), ks_next_normal (isb sbi), ks_next_slow (isb sbi)}" and ib: "iblock \<noteq> - 1"
  proof -
    obtain s phys where a: "idkfs_alloc_tiered sbi (ii_tier ii) = (s, phys)" by fastforce
    then have s: "phys \<noteq> 0" "ks_free_blocks (isb s) = ks_free_blocks (isb sbi) - 1"
      using alloc_some[OF free a] nz by auto
    from assms get_block_cases(4)[OF find a s(1)] have "sbi' = s" "r = MappedNew phys" "err = 0"
      "ii' = ii\<lparr>ii_extents := extent_put (ii_extents ii) iblock phys\<rparr>"
      by simp_all
    with s(2) extent_find_put[OF find(1) ib] extent_put_full[of "ii_extents ii"] show ?thesis
      by auto
  qed
  show ?thesis
  proof (cases "extent_find (ii_extents ii) iblock")
    case None
    show ?thesis
    proof (cases "create \<and> ks_free_blocks (isb sbi) \<noteq> 0")
      case True
      with None new show ?thesis by simp
    next
      case False
      with assms None get_block_cases(2)[OF None, of create sbi] get_block_cases(3)[OF None, of create sbi]
      show ?thesis by auto
    qed
  next
    case (Some p)
    with assms get_block_cases(1)[OF Some] show ?thesis by simp
  qed
qed

text \<open>A mounted new file system, and a file whose 15 extents are all in use.\<close>

definition demo_sbi :: idkfs_sb_info where
  "demo_sbi = \<lparr>isb = mkfs_super, sbh_dirty = False, sbh_synced = False\<rparr>"

definition full_file :: idkfs_inode_info where
  "full_file = \<lparr>vfs_inode = \<lparr>i_number = 5, i_umode = 0, i_nlink = 1, i_blocks = 0, i_times = (0, 0, 0), i_ops = FileOps,
       i_dirty = False\<rparr>,
     ii_extents = replicate KFS_MAX_EXTENTS \<lparr>e_logical = 0, e_physical = 100, e_len = 1, e_checksum = 0\<rparr>, ii_tier = 0\<rparr>"

theorem get_block_updates_map_witness:
  "\<exists>sbi' ii' phys. idkfs_get_block demo_sbi full_file 3 True = (sbi', ii', MappedNew phys, 0)
     \<and> extent_find (ii_extents ii') = extent_find (ii_extents full_file)"
proof -
  obtain sbi' ii' r err where g: "idkfs_get_block demo_sbi full_file 3 True = (sbi', ii', r, err)"
    by (metis prod_cases4)
  have find: "extent_find (ii_extents full_file) 3 = None" "\<forall>e \<in> set (ii_extents full_file). e_len e \<noteq> 0"
    by (simp_all add: full_file_def extent_find_replicate)
  have "\<exists>phys. r = MappedNew phys \<and> err = 0 \<and> extent_find (ii_extents ii') = extent_find (ii_extents full_file)"
    using get_block_updates_map[OF g] find by (auto simp: demo_sbi_def mkfs_super_def)
  with g show ?thesis by auto
qed

section \<open>Zones\<close>

text \<open>A sequence of allocations, and how many of them are for each zone.\<close>

fun alloc_seq :: "idkfs_sb_info \<Rightarrow> u8 list \<Rightarrow> idkfs_sb_info \<times> u64 list" where
  "alloc_seq sbi [] = (sbi, [])"
| "alloc_seq sbi (t # ts) =
     (let (sbi, phys) = idkfs_alloc_tiered sbi t; (sbi, bs) = alloc_seq sbi ts in (sbi, phys # bs))"

definition zone_of :: "u8 \<Rightarrow> idkfs_tier" where
  "zone_of t = (if t = 0 then KTIER_FAST else if t = 2 then KTIER_SLOW else KTIER_NORMAL)"

definition zone_ptr :: "idkfs_super_block \<Rightarrow> idkfs_tier \<Rightarrow> nat" where
  "zone_ptr b z = unat (case z of KTIER_FAST \<Rightarrow> ks_next_fast b | KTIER_NORMAL \<Rightarrow> ks_next_normal b | KTIER_SLOW \<Rightarrow> ks_next_slow b)"

definition zone_next :: "idkfs_sb_info \<Rightarrow> idkfs_tier \<Rightarrow> nat" where
  "zone_next sbi z = zone_ptr (isb sbi) z"

definition zone_count :: "idkfs_tier \<Rightarrow> u8 list \<Rightarrow> nat" where
  "zone_count z ts = length (filter (\<lambda>t. zone_of t = z) ts)"

lemma zone_count_simps [simp]:
  "zone_count z [] = 0" "zone_count z (t # ts) = (if zone_of t = z then Suc (zone_count z ts) else zone_count z ts)"
  by (simp_all add: zone_count_def)

lemma alloc_step:
  assumes "0 < unat (ks_free_blocks (isb sbi))" "zone_next sbi (zone_of t) < 2 ^ 64 - 1"
  obtains s phys where "idkfs_alloc_tiered sbi t = (s, phys)" "unat phys = zone_next sbi (zone_of t)"
    "\<And>z. zone_next s z = (if z = zone_of t then Suc (zone_next sbi z) else zone_next sbi z)"
    "unat (ks_free_blocks (isb s)) = unat (ks_free_blocks (isb sbi)) - 1"
    "ks_total_blocks (isb s) = ks_total_blocks (isb sbi)"
proof -
  have suc: "unat (w + 1) = Suc (unat w)" if "unat w < 2 ^ 64 - 1" for w :: u64
    using that by (simp add: unat_word_ariths)
  have free: "ks_free_blocks (isb sbi) \<noteq> 0"
    using assms(1) by auto
  then have pred: "unat (ks_free_blocks (isb sbi) - 1) = unat (ks_free_blocks (isb sbi)) - 1"
    by (simp add: unat_minus_one)
  obtain s phys where a: "idkfs_alloc_tiered sbi t = (s, phys)" by fastforce
  have "unat phys = zone_next sbi (zone_of t)"
    using a free by (auto simp: idkfs_alloc_tiered_def Let_def zone_of_def zone_next_def zone_ptr_def split: if_splits)
  moreover have "zone_next s z = (if z = zone_of t then Suc (zone_next sbi z) else zone_next sbi z)" for z
    using a free assms(2) suc
    by (cases z) (auto simp: idkfs_alloc_tiered_def Let_def zone_of_def zone_next_def zone_ptr_def split: if_splits)
  moreover have "unat (ks_free_blocks (isb s)) = unat (ks_free_blocks (isb sbi)) - 1"
    "ks_total_blocks (isb s) = ks_total_blocks (isb sbi)"
    using a free pred by (auto simp: idkfs_alloc_tiered_def Let_def split: if_splits)
  ultimately show ?thesis
    using that a by blast
qed

lemma alloc_seq_Cons:
  "idkfs_alloc_tiered sbi t = (s, phys) \<Longrightarrow> snd (alloc_seq sbi (t # ts)) = phys # snd (alloc_seq s ts)"
  by (simp add: split_beta Let_def)

declare alloc_seq.simps(2) [simp del]

text \<open>With \<open>lim z\<close> the end of zone \<open>z\<close>: as long as no zone is full, every block comes from the rest of
  its zone and no block is handed out twice.\<close>

lemma alloc_seq_in_zones:
  assumes "length ts \<le> unat (ks_free_blocks (isb sbi))"
    and "\<And>z. zone_next sbi z + zone_count z ts \<le> lim z" "\<And>z. lim z < 2 ^ 64"
    and "lim KTIER_FAST \<le> zone_next sbi KTIER_NORMAL" "lim KTIER_NORMAL \<le> zone_next sbi KTIER_SLOW"
  shows "distinct (snd (alloc_seq sbi ts)) \<and> length (snd (alloc_seq sbi ts)) = length ts
     \<and> (\<forall>b \<in> set (snd (alloc_seq sbi ts)). \<exists>z. zone_next sbi z \<le> unat b \<and> unat b < lim z)"
  using assms
proof (induction ts arbitrary: sbi)
  case (Cons t ts)
  have room: "zone_next sbi (zone_of t) < lim (zone_of t)"
    using Cons.prems(2)[of "zone_of t"] by simp
  then have "zone_next sbi (zone_of t) < 2 ^ 64 - 1"
    using Cons.prems(3)[of "zone_of t"] by simp
  moreover have "0 < unat (ks_free_blocks (isb sbi))"
    using Cons.prems(1) by simp
  ultimately obtain s phys where a: "idkfs_alloc_tiered sbi t = (s, phys)" "unat phys = zone_next sbi (zone_of t)"
    "\<And>z. zone_next s z = (if z = zone_of t then Suc (zone_next sbi z) else zone_next sbi z)"
    "unat (ks_free_blocks (isb s)) = unat (ks_free_blocks (isb sbi)) - 1"
    by (elim alloc_step[rotated]) blast
  have lims: "lim KTIER_FAST \<le> zone_next sbi KTIER_NORMAL" "lim KTIER_NORMAL \<le> zone_next sbi KTIER_SLOW"
    using Cons.prems by auto
  have IH: "distinct (snd (alloc_seq s ts)) \<and> length (snd (alloc_seq s ts)) = length ts
     \<and> (\<forall>b \<in> set (snd (alloc_seq s ts)). \<exists>z. zone_next s z \<le> unat b \<and> unat b < lim z)"
  proof (rule Cons.IH)
    show "zone_next s z + zone_count z ts \<le> lim z" for z
      using Cons.prems(2)[of z] a(3)[of z] by (auto split: if_splits)
    show "lim KTIER_FAST \<le> zone_next s KTIER_NORMAL" "lim KTIER_NORMAL \<le> zone_next s KTIER_SLOW"
      using lims a(3) by (auto intro: le_SucI)
  qed (use Cons.prems a(4) in auto)
  have grow: "zone_next sbi z \<le> zone_next s z" for z
    using a(3)[of z] by simp
  have "phys \<notin> set (snd (alloc_seq s ts))"
  proof
    assume "phys \<in> set (snd (alloc_seq s ts))"
    then obtain z where z: "zone_next s z \<le> zone_next sbi (zone_of t)" "zone_next sbi (zone_of t) < lim z"
      using IH a(2) by auto
    then have "z \<noteq> zone_of t"
      using a(3)[of z] by auto
    have f: "lim KTIER_FAST \<le> zone_next sbi KTIER_SLOW"
      using lims Cons.prems(2)[of KTIER_NORMAL] by simp
    with z \<open>z \<noteq> zone_of t\<close> a(3)[of z] lims room show False
      by (cases z; cases "zone_of t") auto
  qed
  moreover have "\<exists>z. zone_next sbi z \<le> unat b \<and> unat b < lim z" if "b \<in> set (snd (alloc_seq s ts))" for b
    using IH that grow by (meson order.trans)
  ultimately show ?case
    using IH room a(2) unfolding alloc_seq_Cons[OF a(1)] by auto
qed simp

lemma alloc_fast_run:
  assumes "Suc n \<le> unat (ks_free_blocks (isb sbi))" "zone_next sbi KTIER_FAST + n < 2 ^ 64 - 1"
  shows "snd (alloc_seq sbi (replicate (Suc n) 0)) \<noteq> []
     \<and> unat (last (snd (alloc_seq sbi (replicate (Suc n) 0)))) = zone_next sbi KTIER_FAST + n"
  using assms
proof (induction n arbitrary: sbi)
  case 0
  then have "0 < unat (ks_free_blocks (isb sbi))" "zone_next sbi (zone_of 0) < 2 ^ 64 - 1"
    by (simp_all add: zone_of_def)
  then obtain s phys where "idkfs_alloc_tiered sbi 0 = (s, phys)" "unat phys = zone_next sbi (zone_of 0)"
    by (elim alloc_step[rotated]) blast
  then show ?case by (simp add: alloc_seq_Cons zone_of_def)
next
  case (Suc n)
  then have "0 < unat (ks_free_blocks (isb sbi))" "zone_next sbi (zone_of 0) < 2 ^ 64 - 1"
    by (simp_all add: zone_of_def)
  then obtain s phys where s: "idkfs_alloc_tiered sbi 0 = (s, phys)"
    "\<And>z. zone_next s z = (if z = zone_of 0 then Suc (zone_next sbi z) else zone_next sbi z)"
    "unat (ks_free_blocks (isb s)) = unat (ks_free_blocks (isb sbi)) - 1"
    by (elim alloc_step[rotated]) blast
  from Suc.IH[of s] Suc.prems s(2)[of KTIER_FAST] s(3)
  have "snd (alloc_seq s (replicate (Suc n) 0)) \<noteq> []
     \<and> unat (last (snd (alloc_seq s (replicate (Suc n) 0)))) = Suc (zone_next sbi KTIER_FAST + n)"
    by (simp add: zone_of_def del: replicate_Suc)
  then show ?case
    unfolding replicate_Suc[of "Suc n"] alloc_seq_Cons[OF s(1)] by simp
qed

lemma zone_overrun:
  assumes k: "zone_next sbi KTIER_FAST + k = zone_next sbi KTIER_NORMAL" "k + 2 \<le> unat (ks_free_blocks (isb sbi))"
    "zone_next sbi KTIER_NORMAL < 2 ^ 64 - 1"
  shows "\<exists>p bs. snd (alloc_seq sbi (1 # replicate (Suc k) 0)) = p # bs \<and> p \<in> set bs"
proof -
  from k have "0 < unat (ks_free_blocks (isb sbi))" "zone_next sbi (zone_of 1) < 2 ^ 64 - 1"
    by (simp_all add: zone_of_def)
  then obtain s p where s: "idkfs_alloc_tiered sbi 1 = (s, p)" "unat p = zone_next sbi (zone_of 1)"
    "\<And>z. zone_next s z = (if z = zone_of 1 then Suc (zone_next sbi z) else zone_next sbi z)"
    "unat (ks_free_blocks (isb s)) = unat (ks_free_blocks (isb sbi)) - 1"
    by (elim alloc_step[rotated]) blast
  have "zone_next s KTIER_FAST = zone_next sbi KTIER_FAST" "unat p = zone_next sbi KTIER_NORMAL"
    using s(2,3) by (simp_all add: zone_of_def)
  with k s(4) alloc_fast_run[of k s]
  have "snd (alloc_seq s (replicate (Suc k) 0)) \<noteq> []" "last (snd (alloc_seq s (replicate (Suc k) 0))) = p"
    by (simp_all add: word_unat_eq_iff del: replicate_Suc)
  then have "p \<in> set (snd (alloc_seq s (replicate (Suc k) 0)))"
    using last_in_set by metis
  with s(1) show "\<exists>p bs. snd (alloc_seq sbi (1 # replicate (Suc k) 0)) = p # bs \<and> p \<in> set bs"
    unfolding alloc_seq_Cons[OF s(1)] by blast
qed

text \<open>C35: From a superblock with ordered zone pointers, a sequence of allocations that fills no zone
  beyond its end hands out pairwise different blocks below the number of blocks. The end of a zone is not
  checked, though: after one allocation from the normal zone, the fast allocations that follow reach
  that same block as soon as the fast zone is used up.\<close>

theorem zones_kept_apart_until_full:
  assumes "sorted [ks_next_fast (isb sbi), ks_next_normal (isb sbi), ks_next_slow (isb sbi), ks_total_blocks (isb sbi)]"
  shows "(length ts \<le> unat (ks_free_blocks (isb sbi))
      \<longrightarrow> zone_next sbi KTIER_FAST + zone_count KTIER_FAST ts \<le> zone_next sbi KTIER_NORMAL
      \<longrightarrow> zone_next sbi KTIER_NORMAL + zone_count KTIER_NORMAL ts \<le> zone_next sbi KTIER_SLOW
      \<longrightarrow> zone_next sbi KTIER_SLOW + zone_count KTIER_SLOW ts \<le> unat (ks_total_blocks (isb sbi))
      \<longrightarrow> distinct (snd (alloc_seq sbi ts)) \<and> length (snd (alloc_seq sbi ts)) = length ts
            \<and> (\<forall>b \<in> set (snd (alloc_seq sbi ts)). b < ks_total_blocks (isb sbi)))
    \<and> (zone_next sbi KTIER_FAST + k = zone_next sbi KTIER_NORMAL \<longrightarrow> k + 2 \<le> unat (ks_free_blocks (isb sbi))
      \<longrightarrow> zone_next sbi KTIER_NORMAL < 2 ^ 64 - 1
      \<longrightarrow> (\<exists>p bs. snd (alloc_seq sbi (1 # replicate (Suc k) 0)) = p # bs \<and> p \<in> set bs))"
proof -
  define lim where "lim z = (case z of KTIER_FAST \<Rightarrow> zone_next sbi KTIER_NORMAL | KTIER_NORMAL \<Rightarrow> zone_next sbi KTIER_SLOW
    | KTIER_SLOW \<Rightarrow> unat (ks_total_blocks (isb sbi)))" for z
  have u: "unat (w :: u64) < 2 ^ 64" for w
    using unsigned_less[of w, where 'a = nat] by simp
  have ord: "zone_next sbi KTIER_NORMAL \<le> zone_next sbi KTIER_SLOW" "zone_next sbi KTIER_SLOW \<le> unat (ks_total_blocks (isb sbi))"
    using assms by (simp_all add: zone_next_def zone_ptr_def word_le_nat_alt)
  have "distinct (snd (alloc_seq sbi ts)) \<and> length (snd (alloc_seq sbi ts)) = length ts
            \<and> (\<forall>b \<in> set (snd (alloc_seq sbi ts)). b < ks_total_blocks (isb sbi))"
    if "length ts \<le> unat (ks_free_blocks (isb sbi))"
      "zone_next sbi KTIER_FAST + zone_count KTIER_FAST ts \<le> zone_next sbi KTIER_NORMAL"
      "zone_next sbi KTIER_NORMAL + zone_count KTIER_NORMAL ts \<le> zone_next sbi KTIER_SLOW"
      "zone_next sbi KTIER_SLOW + zone_count KTIER_SLOW ts \<le> unat (ks_total_blocks (isb sbi))"
  proof -
    have "zone_next sbi z + zone_count z ts \<le> lim z" "lim z < 2 ^ 64" "lim z \<le> unat (ks_total_blocks (isb sbi))" for z
      using that ord u by (cases z; simp add: lim_def zone_next_def zone_ptr_def)+
    moreover from this have "distinct (snd (alloc_seq sbi ts)) \<and> length (snd (alloc_seq sbi ts)) = length ts
       \<and> (\<forall>b \<in> set (snd (alloc_seq sbi ts)). \<exists>z. zone_next sbi z \<le> unat b \<and> unat b < lim z)"
      using that(1) by (intro alloc_seq_in_zones) (simp_all add: lim_def)
    ultimately show ?thesis
      unfolding word_less_nat_alt by (meson order.strict_trans2)
  qed
  moreover have "\<exists>p bs. snd (alloc_seq sbi (1 # replicate (Suc k) 0)) = p # bs \<and> p \<in> set bs"
    if "zone_next sbi KTIER_FAST + k = zone_next sbi KTIER_NORMAL" "k + 2 \<le> unat (ks_free_blocks (isb sbi))"
      "zone_next sbi KTIER_NORMAL < 2 ^ 64 - 1"
    using zone_overrun[OF that] .
  ultimately show ?thesis by blast
qed

theorem zones_kept_apart_until_full_witness:
  "(\<exists>p bs. snd (alloc_seq demo_sbi (1 # replicate 262135 0)) = p # bs \<and> p \<in> set bs)
     \<and> distinct (snd (alloc_seq demo_sbi (replicate 262134 0)))"
proof -
  have z: "zone_next demo_sbi KTIER_FAST = 10" "zone_next demo_sbi KTIER_NORMAL = 262144" "zone_next demo_sbi KTIER_SLOW = 524288"
    "ks_free_blocks (isb demo_sbi) = 1048560" "ks_total_blocks (isb demo_sbi) = 1048576"
    by (simp_all add: zone_next_def zone_ptr_def demo_sbi_def mkfs_super_def)
  have s: "sorted [ks_next_fast (isb demo_sbi), ks_next_normal (isb demo_sbi), ks_next_slow (isb demo_sbi), ks_total_blocks (isb demo_sbi)]"
    by (simp add: demo_sbi_def mkfs_super_def)
  have c: "zone_count KTIER_FAST (replicate n 0) = n" "zone_count KTIER_NORMAL (replicate n 0) = 0" "zone_count KTIER_SLOW (replicate n 0) = 0" for n
    by (simp_all add: zone_count_def zone_of_def)
  have n: "(262135 :: nat) = Suc 262134" by simp
  show ?thesis
    unfolding n using zones_kept_apart_until_full[OF s, of "replicate 262134 0" 262134] by (simp add: z c del: replicate_Suc alloc_seq.simps)
qed

end
