(* ===== verification/Vfs_Session.thy ===== *)
theory Vfs_Session
  imports Vfs_Proofs
begin

text \<open>
  The life of a kernel file system: mounting, the requests that the tables of operations of
  \<^verbatim>\<open>idkfs_vfs.c\<close> send into the module, writing the superblock back, unmounting and crashing, in any order.

  The tables are the datatype of requests and \<open>vfs_exec\<close>. Their other entries (\<open>simple_lookup\<close>,
  \<open>generic_file_read_iter\<close> and so on) are functions of the kernel. The inodes in memory are a map from
  addresses; a request that names an address without an inode, or a new inode at the address of another
  one, is \<open>None\<close>: the kernel makes none.
\<close>

section \<open>Requests\<close>

datatype vfs_request =
    ReqCreate nat nat cstr u16
  | ReqMkdir nat nat u16
  | ReqUnlink nat nat
  | ReqRmdir nat nat
  | ReqRename
  | ReqWriteBegin nat u64 u32
  | ReqWriteInode bool
  | ReqFreeInode nat

record vfs_state =
  vs_sbi :: "idkfs_sb_info option"
  vs_live :: inode_cache

text \<open>The directory's inode after an operation, and the new inode if there is one (\<open>d_instantiate\<close>).\<close>

definition put_new :: "inode_cache \<Rightarrow> nat \<Rightarrow> inode \<Rightarrow> nat \<Rightarrow> idkfs_inode_info option \<Rightarrow> inode_cache" where
  "put_new live d dv a new =
     (let live = live(d := map_option (\<lambda>di. di\<lparr>vfs_inode := dv\<rparr>) (live d))
      in case new of None \<Rightarrow> live | Some ii \<Rightarrow> live(a \<mapsto> ii))"

definition put_both :: "inode_cache \<Rightarrow> nat \<Rightarrow> inode \<Rightarrow> nat \<Rightarrow> inode \<Rightarrow> inode_cache" where
  "put_both live d dv a v =
     live(d := map_option (\<lambda>di. di\<lparr>vfs_inode := dv\<rparr>) (live d), a := map_option (\<lambda>ii. ii\<lparr>vfs_inode := v\<rparr>) (live a))"

fun vfs_exec :: "page_writer \<Rightarrow> kernel \<Rightarrow> vfs_state \<Rightarrow> vfs_request \<Rightarrow> (vfs_state \<times> int) option" where
  "vfs_exec bwb k st (ReqCreate d a name mode) = do {
     di \<leftarrow> vs_live st d;
     if vs_live st a \<noteq> None then None
     else let (sbi, dv, new, err) = vfs_create k (vs_sbi st) (vfs_inode di) name mode
          in Some (\<lparr>vs_sbi = sbi, vs_live = put_new (vs_live st) d dv a new\<rparr>, err) }"
| "vfs_exec bwb k st (ReqMkdir d a mode) = do {
     di \<leftarrow> vs_live st d;
     if vs_live st a \<noteq> None then None
     else let (sbi, dv, new, err) = vfs_mkdir k (vs_sbi st) (vfs_inode di) mode
          in Some (\<lparr>vs_sbi = sbi, vs_live = put_new (vs_live st) d dv a new\<rparr>, err) }"
| "vfs_exec bwb k st (ReqUnlink d a) = do {
     di \<leftarrow> vs_live st d;
     ii \<leftarrow> vs_live st a;
     if d = a then None
     else let (sbi, dv, v, err) = vfs_unlink k (vs_sbi st) (vfs_inode di) (vfs_inode ii)
          in Some (\<lparr>vs_sbi = sbi, vs_live = put_both (vs_live st) d dv a v\<rparr>, err) }"
| "vfs_exec bwb k st (ReqRmdir d a) = do {
     di \<leftarrow> vs_live st d;
     ii \<leftarrow> vs_live st a;
     if d = a then None
     else let (sbi, dv, v, err) = vfs_rmdir k (vs_sbi st) (vfs_inode di) (vfs_inode ii)
          in Some (\<lparr>vs_sbi = sbi, vs_live = put_both (vs_live st) d dv a v\<rparr>, err) }"
| "vfs_exec bwb k st ReqRename =
     (let (sbi, _, ret) = vfs_rename k (vs_sbi st) None in Some (st\<lparr>vs_sbi := sbi\<rparr>, ret))"
| "vfs_exec bwb k st (ReqWriteBegin a pos len) = do {
     ii \<leftarrow> vs_live st a;
     sbi \<leftarrow> vs_sbi st;
     let (sbi, ii, ret) = idkfs_write_begin bwb sbi ii pos len;
     Some (\<lparr>vs_sbi = Some sbi, vs_live = (vs_live st)(a \<mapsto> ii)\<rparr>, ret) }"
| "vfs_exec bwb k st (ReqWriteInode sync_all) =
     (let (sbi, ret) = idkfs_write_inode (vs_sbi st) sync_all in Some (st\<lparr>vs_sbi := sbi\<rparr>, ret))"
| "vfs_exec bwb k st (ReqFreeInode a) = Some (st\<lparr>vs_live := idkfs_free_inode (vs_live st) a\<rparr>, 0)"

section \<open>The life of a file system\<close>

text \<open>Writing the buffer of the superblock to the first block of the device.\<close>

definition store_super :: "mem \<Rightarrow> idkfs_super_block \<Rightarrow> mem" where
  "store_super dev b = memcpy dev 0 (mem_of (super_block_bytes b)) 0 sizeof_super_block"

datatype vfs_phase = Unmounted mem | Mounted mem vfs_state

text \<open>The kernel may write the dirty buffer of the superblock at any time (\<open>vl_writeback\<close>, also what
  \<open>sync_dirty_buffer\<close> does after \<open>idkfs_write_inode\<close>); after a crash the device has what was written last.\<close>

inductive vfs_life :: "page_writer \<Rightarrow> mem \<Rightarrow> vfs_phase \<Rightarrow> bool" for bwb dev0 where
  vl_start: "vfs_life bwb dev0 (Unmounted dev0)"
| vl_mount: "vfs_life bwb dev0 (Unmounted dev) \<Longrightarrow> new_inode k = Some ii
    \<Longrightarrow> idkfs_mount (\<lambda>fill. fill (Some dev) True True) k = Some (sbi, Some root, 0)
    \<Longrightarrow> vfs_life bwb dev0 (Mounted dev \<lparr>vs_sbi = sbi, vs_live = [r \<mapsto> ii\<lparr>vfs_inode := root\<rparr>]\<rparr>)"
| vl_request: "vfs_life bwb dev0 (Mounted dev st) \<Longrightarrow> vfs_exec bwb k st rq = Some (st', err)
    \<Longrightarrow> vfs_life bwb dev0 (Mounted dev st')"
| vl_writeback: "vfs_life bwb dev0 (Mounted dev st) \<Longrightarrow> vs_sbi st = Some sbi
    \<Longrightarrow> vfs_life bwb dev0 (Mounted (store_super dev (isb sbi)) st)"
| vl_unmount: "vfs_life bwb dev0 (Mounted dev st) \<Longrightarrow> idkfs_put_super (vs_sbi st) = (None, Some b)
    \<Longrightarrow> vfs_life bwb dev0 (Unmounted (store_super dev b))"
| vl_crash: "vfs_life bwb dev0 (Mounted dev st) \<Longrightarrow> vfs_life bwb dev0 (Unmounted dev)"

text \<open>What is documented of \<open>block_write_begin\<close>: it changes the file system's state only by calling the
  function it was given.\<close>

fun run_blocks :: "get_block \<Rightarrow> (u64 \<times> bool) list \<Rightarrow> idkfs_sb_info \<Rightarrow> idkfs_inode_info \<Rightarrow> idkfs_sb_info \<times> idkfs_inode_info" where
  "run_blocks gb [] sbi ii = (sbi, ii)"
| "run_blocks gb ((i, c) # cs) sbi ii = (let (sbi, ii, _, _) = gb sbi ii i c in run_blocks gb cs sbi ii)"

definition calls_back :: "page_writer \<Rightarrow> bool" where
  "calls_back bwb \<longleftrightarrow> (\<forall>gb sbi ii pos len sbi' ii' ret. bwb gb sbi ii pos len = (sbi', ii', ret)
     \<longrightarrow> (\<exists>cs. run_blocks gb cs sbi ii = (sbi', ii')))"

section \<open>The zones\<close>

definition block_sum :: "idkfs_super_block \<Rightarrow> nat" where
  "block_sum b = zone_ptr b KTIER_FAST + zone_ptr b KTIER_NORMAL + zone_ptr b KTIER_SLOW + unat (ks_free_blocks b)"

text \<open>From \<open>b0\<close> to \<open>b\<close> blocks were taken from the zones, each of them off the free ones.\<close>

definition grown :: "idkfs_super_block \<Rightarrow> idkfs_super_block \<Rightarrow> bool" where
  "grown b0 b \<longleftrightarrow> (\<forall>z. zone_ptr b0 z \<le> zone_ptr b z) \<and> block_sum b = block_sum b0"

text \<open>No zone pointer of \<open>b0\<close> can wrap around before the free blocks are used up.\<close>

definition roomy :: "idkfs_super_block \<Rightarrow> bool" where
  "roomy b0 \<longleftrightarrow> (\<forall>z. zone_ptr b0 z + unat (ks_free_blocks b0) < 2 ^ 64)"

lemma grown_refl [simp]: "grown b b"
  by (simp add: grown_def)

lemma zone_ptr_norm [simp]: "zone_ptr (norm_super_block b) z = zone_ptr b z"
  by (cases z) (simp_all add: zone_ptr_def norm_super_block_def)

lemma grown_norm [simp]: "grown b0 (norm_super_block b) \<longleftrightarrow> grown b0 b"
  by (simp add: grown_def block_sum_def) (simp add: norm_super_block_def)

lemma grown_no_wrap:
  assumes "grown b0 b" "roomy b0" "0 < unat (ks_free_blocks b)"
  shows "zone_ptr b z < 2 ^ 64 - 1"
proof -
  have le: "zone_ptr b0 z' \<le> zone_ptr b z'" for z'
    using assms(1) by (simp add: grown_def)
  have "block_sum b = block_sum b0"
    using assms(1) by (simp add: grown_def)
  then have "zone_ptr b z + unat (ks_free_blocks b) \<le> zone_ptr b0 z + unat (ks_free_blocks b0)"
    using le[of KTIER_FAST] le[of KTIER_NORMAL] le[of KTIER_SLOW] unfolding block_sum_def by (cases z) simp_all
  moreover have "zone_ptr b0 z + unat (ks_free_blocks b0) < 2 ^ 64"
    using assms(2) by (simp add: roomy_def)
  ultimately show ?thesis
    using assms(3) by linarith
qed

lemma alloc_grown:
  assumes "grown b0 (isb sbi)" "roomy b0" "ks_free_blocks (isb sbi) \<noteq> 0" "idkfs_alloc_tiered sbi t = (s, phys)"
  shows "grown b0 (isb s)" "unat phys = zone_ptr (isb sbi) (zone_of t)"
    "zone_ptr (isb s) z = (if z = zone_of t then Suc (zone_ptr (isb sbi) z) else zone_ptr (isb sbi) z)"
proof -
  have free: "0 < unat (ks_free_blocks (isb sbi))"
    using assms(3) by (simp add: unat_gt_0)
  with assms(1,2) have "zone_next sbi (zone_of t) < 2 ^ 64 - 1"
    using grown_no_wrap by (simp add: zone_next_def)
  with free assms(4) have *: "unat phys = zone_next sbi (zone_of t)"
    "\<And>z. zone_next s z = (if z = zone_of t then Suc (zone_next sbi z) else zone_next sbi z)"
    "unat (ks_free_blocks (isb s)) = unat (ks_free_blocks (isb sbi)) - 1"
    by (auto elim!: alloc_step)
  then show "unat phys = zone_ptr (isb sbi) (zone_of t)"
    and ptr: "zone_ptr (isb s) z = (if z = zone_of t then Suc (zone_ptr (isb sbi) z) else zone_ptr (isb sbi) z)" for z
    by (simp_all add: zone_next_def)
  have "block_sum (isb s) = block_sum (isb sbi)"
    using free *(3) ptr by (cases "zone_of t") (simp_all add: block_sum_def)
  with assms(1) ptr show "grown b0 (isb s)"
    by (auto simp: grown_def intro: le_SucI)
qed

section \<open>The extents of all files\<close>

text \<open>The extent \<open>x\<close> of the inode at \<open>a\<close>, if it is in use: the zone of its file, and its block.\<close>

definition slot :: "inode_cache \<Rightarrow> nat \<Rightarrow> nat \<Rightarrow> (idkfs_tier \<times> u64) option" where
  "slot live a x = (case live a of
     None \<Rightarrow> None
   | Some ii \<Rightarrow> if x < length (ii_extents ii) \<and> e_len (ii_extents ii ! x) \<noteq> 0
       then Some (zone_of (ii_tier ii), e_physical (ii_extents ii ! x)) else None)"

definition one_block_extents :: "inode_cache \<Rightarrow> bool" where
  "one_block_extents live \<longleftrightarrow> (\<forall>a ii e. live a = Some ii \<longrightarrow> e \<in> set (ii_extents ii) \<longrightarrow> e_len e = 0 \<or> e_len e = 1)"

definition slots_ok :: "idkfs_super_block \<Rightarrow> idkfs_super_block \<Rightarrow> inode_cache \<Rightarrow> bool" where
  "slots_ok b0 b live \<longleftrightarrow> grown b0 b \<and> one_block_extents live
     \<and> (\<forall>a x z p. slot live a x = Some (z, p) \<longrightarrow> zone_ptr b0 z \<le> unat p \<and> unat p < zone_ptr b z)
     \<and> (\<forall>a x a' x' s. slot live a x = Some s \<longrightarrow> slot live a' x' = Some s \<longrightarrow> a = a' \<and> x = x')"

lemma slots_okD:
  assumes "slots_ok b0 b live"
  shows "grown b0 b" "one_block_extents live"
    "slot live a x = Some (z, p) \<Longrightarrow> zone_ptr b0 z \<le> unat p \<and> unat p < zone_ptr b z"
    "slot live a x = Some s \<Longrightarrow> slot live a' x' = Some s \<Longrightarrow> a = a' \<and> x = x'"
  using assms unfolding slots_ok_def by blast+

text \<open>An operation on names keeps the extents of every inode or makes one without.\<close>

definition same_extents :: "inode_cache \<Rightarrow> inode_cache \<Rightarrow> bool" where
  "same_extents live live' \<longleftrightarrow> (\<forall>a ii. live' a = Some ii \<longrightarrow> (\<forall>e \<in> set (ii_extents ii). e_len e = 0)
     \<or> (\<exists>ii0. live a = Some ii0 \<and> ii_extents ii = ii_extents ii0 \<and> ii_tier ii = ii_tier ii0))"

lemma same_extents_slot: "same_extents live live' \<Longrightarrow> slot live' a x = Some s \<Longrightarrow> slot live a x = Some s"
  unfolding same_extents_def slot_def by (force split: option.splits if_splits)

lemma slots_ok_same:
  assumes "slots_ok b0 b live" "same_extents live live'"
  shows "slots_ok b0 b live'"
proof -
  have "one_block_extents live'"
    using assms slots_okD(2)[OF assms(1)] unfolding one_block_extents_def same_extents_def by metis
  with slots_okD[OF assms(1)] same_extents_slot[OF assms(2)] show ?thesis
    unfolding slots_ok_def by blast
qed

lemma new_inode_empty: "new_inode k = Some ii \<Longrightarrow> \<forall>e \<in> set (ii_extents ii). e_len e = 0"
  by (auto simp: new_inode_def idkfs_alloc_inode_def zero_extent_def)

lemma same_extents_put_new:
  "(\<And>ii. new = Some ii \<Longrightarrow> \<forall>e \<in> set (ii_extents ii). e_len e = 0) \<Longrightarrow> same_extents live (put_new live d dv a new)"
  by (auto simp: same_extents_def put_new_def Let_def split: option.splits if_splits)

lemma same_extents_put_both: "same_extents live (put_both live d dv a v)"
  by (auto simp: same_extents_def put_both_def split: if_splits)

lemma same_extents_free: "same_extents live (idkfs_free_inode live a)"
  by (auto simp: same_extents_def idkfs_free_inode_def split: if_splits)

lemma mark_sb_dirty_isb [simp]: "map_option isb (idkfs_mark_sb_dirty sbi) = map_option isb sbi"
  by (cases sbi) (simp_all add: idkfs_mark_sb_dirty_def)

lemma create_keeps:
  "vfs_create k sbi d name mode = (sbi', dv, new, err)
     \<Longrightarrow> map_option isb sbi' = map_option isb sbi \<and> (\<forall>ii. new = Some ii \<longrightarrow> (\<forall>e \<in> set (ii_extents ii). e_len e = 0))"
  by (auto simp: vfs_create_def Let_def dest: new_inode_empty split: option.splits)

lemma mkdir_keeps:
  "vfs_mkdir k sbi d mode = (sbi', dv, new, err)
     \<Longrightarrow> map_option isb sbi' = map_option isb sbi \<and> (\<forall>ii. new = Some ii \<longrightarrow> (\<forall>e \<in> set (ii_extents ii). e_len e = 0))"
  by (auto simp: vfs_mkdir_def Let_def dest: new_inode_empty split: option.splits)

lemma name_ops_keep:
  "vfs_unlink k sbi d v = (sbi', dv, v', err) \<Longrightarrow> map_option isb sbi' = map_option isb sbi"
  "vfs_rmdir k sbi d v = (sbi', dv, v', err) \<Longrightarrow> map_option isb sbi' = map_option isb sbi"
  "vfs_rename k sbi other = (sbi', other', ret) \<Longrightarrow> map_option isb sbi' = map_option isb sbi"
  "idkfs_write_inode sbi sync_all = (sbi', ret) \<Longrightarrow> map_option isb sbi' = map_option isb sbi"
  by (auto simp: vfs_unlink_def vfs_rmdir_def vfs_rename_def idkfs_write_inode_def Let_def split: if_splits option.splits)

section \<open>Mapping blocks\<close>

text \<open>The new extent, with an index behind the list when there is no room.\<close>

lemma extent_put_at:
  "\<exists>x. extent_put es i p = es[x := (es ! x)\<lparr>e_logical := i, e_physical := p, e_len := 1\<rparr>]"
proof (induction es)
  case (Cons e es)
  then obtain x where "extent_put es i p = es[x := (es ! x)\<lparr>e_logical := i, e_physical := p, e_len := 1\<rparr>]" ..
  then have "extent_put (e # es) i p
      = (let y = if e_len e = 0 then 0 else Suc x in (e # es)[y := ((e # es) ! y)\<lparr>e_logical := i, e_physical := p, e_len := 1\<rparr>])"
    by simp
  then show ?case unfolding Let_def by blast
qed simp

text \<open>A file that gets the block at the pointer of its zone, which then moves on.\<close>

lemma slots_ok_put:
  assumes ok: "slots_ok b0 b live" "live a = Some ii"
    and p: "unat p = zone_ptr b (zone_of (ii_tier ii))" "unat p < zone_ptr b' (zone_of (ii_tier ii))"
    and b': "grown b0 b'" "\<And>z. zone_ptr b z \<le> zone_ptr b' z"
    and es: "es = (ii_extents ii)[x := (ii_extents ii ! x)\<lparr>e_logical := i, e_physical := p, e_len := 1\<rparr>]"
  shows "slots_ok b0 b' (live(a \<mapsto> ii\<lparr>ii_extents := es\<rparr>))"
proof -
  let ?live = "live(a \<mapsto> ii\<lparr>ii_extents := es\<rparr>)"
  have old_lt: "unat q < zone_ptr b z" if "slot live c y = Some (z, q)" for c y z q
    using slots_okD(3)[OF ok(1) that] by simp
  have new: "slot live c y = Some s \<or> c = a \<and> y = x \<and> s = (zone_of (ii_tier ii), p)" if "slot ?live c y = Some s" for c y s
    using that es ok(2) by (cases "y = x") (auto simp: slot_def split: option.splits if_splits)
  have one: "one_block_extents ?live"
    using es slots_okD(2)[OF ok(1)] ok(2) unfolding one_block_extents_def
    by (auto dest!: subsetD[OF set_update_subset_insert] split: if_splits)
  have range: "zone_ptr b0 z \<le> unat q \<and> unat q < zone_ptr b' z" if "slot ?live c y = Some (z, q)" for c y z q
    using new[OF that] slots_okD(3)[OF ok(1)] p b'(2) slots_okD(1)[OF ok(1)] unfolding grown_def
    by (metis Pair_inject order.strict_trans2)
  have inj: "c = c' \<and> y = y'" if "slot ?live c y = Some s" "slot ?live c' y' = Some s" for c y c' y' s
    using new[OF that(1)] new[OF that(2)] slots_okD(4)[OF ok(1)] old_lt p(1)
    by (metis less_irrefl)
  show ?thesis
    using b'(1) one range inj unfolding slots_ok_def by blast
qed

lemma get_block_slots_ok:
  assumes "slots_ok b0 (isb sbi) live" "roomy b0" "live a = Some ii"
    and g: "idkfs_get_block sbi ii i c = (sbi', ii', r, err)"
  shows "slots_ok b0 (isb sbi') (live(a \<mapsto> ii'))"
proof (cases "extent_find (ii_extents ii) i = None \<and> c \<and> ks_free_blocks (isb sbi) \<noteq> 0")
  case False
  with g have "isb sbi' = isb sbi" "ii' = ii"
    by (auto simp: idkfs_get_block_def alloc_none split: option.splits if_splits)
  with assms(1,3) show ?thesis
    by (simp add: fun_upd_idem)
next
  case True
  obtain s phys where a: "idkfs_alloc_tiered sbi (ii_tier ii) = (s, phys)" by fastforce
  note grow = alloc_grown[OF slots_okD(1)[OF assms(1)] assms(2) _ a]
  from True g a have s: "sbi' = s" "ii' = ii\<lparr>ii_extents := ii_extents ii'\<rparr>"
    "ii_extents ii' = ii_extents ii \<or> ii_extents ii' = extent_put (ii_extents ii) i phys"
    by (auto simp: idkfs_get_block_def split: if_splits)
  then obtain x where "ii_extents ii'
      = (ii_extents ii)[x := (ii_extents ii ! x)\<lparr>e_logical := i, e_physical := phys, e_len := 1\<rparr>]"
    using extent_put_at[of "ii_extents ii" i phys] by (metis list_update_beyond[OF order_refl])
  then have "slots_ok b0 (isb s) (live(a \<mapsto> ii\<lparr>ii_extents := ii_extents ii'\<rparr>))"
    using True grow by (intro slots_ok_put[OF assms(1,3)]) auto
  with s(1,2) show ?thesis by metis
qed

lemma run_blocks_slots_ok:
  "slots_ok b0 (isb sbi) live \<Longrightarrow> roomy b0 \<Longrightarrow> live a = Some ii \<Longrightarrow> run_blocks idkfs_get_block cs sbi ii = (sbi', ii')
     \<Longrightarrow> slots_ok b0 (isb sbi') (live(a \<mapsto> ii'))"
proof (induction cs arbitrary: sbi ii live)
  case Nil
  then show ?case by (auto simp: fun_upd_idem)
next
  case (Cons ic cs)
  obtain i c where ic: "ic = (i, c)" by fastforce
  obtain s ii1 r e where g: "idkfs_get_block sbi ii i c = (s, ii1, r, e)" by (metis prod_cases4)
  have "slots_ok b0 (isb s) (live(a \<mapsto> ii1))"
    using get_block_slots_ok[OF Cons.prems(1-3) g] .
  from Cons.IH[OF this Cons.prems(2) fun_upd_same] Cons.prems(4) g ic show ?case
    by (simp del: fun_upd_apply)
qed

section \<open>Requests and mounts\<close>

lemma vfs_exec_slots_ok:
  assumes "vfs_exec bwb k st rq = Some (st', err)" "calls_back bwb" "roomy b0"
    and "vs_sbi st = Some sbi" "slots_ok b0 (isb sbi) (vs_live st)"
  shows "\<exists>sbi'. vs_sbi st' = Some sbi' \<and> slots_ok b0 (isb sbi') (vs_live st')"
proof -
  have keep: ?thesis if "map_option isb (vs_sbi st') = map_option isb (vs_sbi st)" "same_extents (vs_live st) (vs_live st')"
    using that assms(4) slots_ok_same[OF assms(5)] by auto
  have same: "same_extents (vs_live st) (vs_live st)"
    by (simp add: same_extents_def)
  show ?thesis
  proof (cases rq)
    case (ReqWriteBegin a pos len)
    with assms(1,4) obtain ii where a: "vs_live st a = Some ii"
      by (auto simp: bind_eq_Some_conv)
    obtain sbi' ii' ret where bwb: "bwb idkfs_get_block sbi ii pos len = (sbi', ii', ret)"
      by (rule prod_cases3)
    with a assms(1,4) ReqWriteBegin have w: "vs_live st a = Some ii" "bwb idkfs_get_block sbi ii pos len = (sbi', ii', ret)"
      "st' = \<lparr>vs_sbi = Some sbi', vs_live = (vs_live st)(a \<mapsto> ii')\<rparr>"
      by (simp_all add: idkfs_write_begin_def)
    then obtain cs where "run_blocks idkfs_get_block cs sbi ii = (sbi', ii')"
      using assms(2) unfolding calls_back_def by blast
    from run_blocks_slots_ok[OF assms(5,3) w(1) this] w(3) show ?thesis by simp
  next
    case ReqRename
    obtain s other ret where r: "vfs_rename k (vs_sbi st) None = (s, other, ret)"
      by (rule prod_cases3)
    with ReqRename assms(1) same name_ops_keep(3)[OF r] show ?thesis
      by (intro keep) auto
  next
    case (ReqWriteInode sync_all)
    obtain s ret where r: "idkfs_write_inode (vs_sbi st) sync_all = (s, ret)"
      by (cases "idkfs_write_inode (vs_sbi st) sync_all") auto
    with ReqWriteInode assms(1) same name_ops_keep(4)[OF r] show ?thesis
      by (intro keep) auto
  next
    case (ReqFreeInode a)
    with assms(1) show ?thesis
      by (intro keep) (auto intro: same_extents_free)
  qed (use assms(1) same in \<open>force intro!: keep same_extents_put_new same_extents_put_both same_extents_free
         simp: bind_eq_Some_conv dest: create_keeps mkdir_keeps name_ops_keep split: if_splits prod.splits\<close>)+
qed

lemma mem_store_super: "mem_super_block (store_super dev b) 0 = norm_super_block b"
  unfolding store_super_def by (rule ksuper_codec.dec_memcpy_same)

lemma mount_reads_super:
  assumes "idkfs_mount (\<lambda>fill. fill (Some dev) True True) k = Some (sbi, Some root, 0)"
  shows "map_option isb sbi = Some (mem_super_block dev 0)"
  using assms by (auto simp: idkfs_mount_def idkfs_fill_super_def Let_def split: if_splits option.splits)

fun vfs_inv :: "idkfs_super_block \<Rightarrow> vfs_phase \<Rightarrow> bool" where
  "vfs_inv b0 (Unmounted dev) \<longleftrightarrow> grown b0 (mem_super_block dev 0)"
| "vfs_inv b0 (Mounted dev st) \<longleftrightarrow> grown b0 (mem_super_block dev 0)
     \<and> (\<exists>sbi. vs_sbi st = Some sbi \<and> slots_ok b0 (isb sbi) (vs_live st))"

lemma fresh_mount_ok:
  assumes "grown b0 b" "\<forall>e \<in> set (ii_extents ii). e_len e = 0"
  shows "slots_ok b0 b [r \<mapsto> ii]"
proof -
  have "slots_ok b0 b Map.empty"
    using assms(1) by (simp add: slots_ok_def one_block_extents_def slot_def)
  moreover have "same_extents Map.empty [r \<mapsto> ii]"
    using assms(2) by (simp add: same_extents_def)
  ultimately show ?thesis by (rule slots_ok_same)
qed

lemma vfs_life_inv:
  assumes "vfs_life bwb dev0 ph" "calls_back bwb" "roomy (mem_super_block dev0 0)"
  shows "vfs_inv (mem_super_block dev0 0) ph"
  using assms(1)
proof (induction rule: vfs_life.induct)
  case (vl_mount dev k ii sbi root r)
  with mount_reads_super[OF vl_mount.hyps(3)] new_inode_empty[OF vl_mount.hyps(2)] show ?case
    by (auto intro!: fresh_mount_ok)
next
  case (vl_request dev st k rq st' err)
  with assms(2,3) show ?case by (auto dest: vfs_exec_slots_ok)
next
  case (vl_writeback dev st sbi)
  then show ?case by (auto simp: mem_store_super dest: slots_okD(1))
next
  case (vl_unmount dev st b)
  then show ?case by (auto simp: mem_store_super idkfs_put_super_def dest: slots_okD(1))
qed simp_all

section \<open>Files share no block\<close>

definition file_block :: "vfs_state \<Rightarrow> nat \<Rightarrow> u64 \<Rightarrow> u64 option" where
  "file_block st a i = (case vs_live st a of None \<Rightarrow> None | Some ii \<Rightarrow> extent_find (ii_extents ii) i)"

lemma extent_find_one:
  assumes "extent_find es i = Some p" "\<forall>e \<in> set es. e_len e = 0 \<or> e_len e = 1"
  shows "\<exists>e \<in> set es. e_len e \<noteq> 0 \<and> e_logical e = i \<and> e_physical e = p"
  using assms
proof (induction es)
  case (Cons e es)
  show ?case
  proof (cases "i \<ge> e_logical e \<and> i < e_logical e + ucast (e_len e)")
    case True
    then have len: "e_len e = 1"
      using Cons.prems(2) by auto
    with True have "e_logical e \<noteq> - 1" by auto
    with True len have "i = e_logical e"
      using extent_covers_one by auto
    with True len Cons.prems(1) show ?thesis
      by auto
  next
    case False
    with Cons.prems(1) have "extent_find es i = Some p"
      by (simp only: extent_find.simps if_False)
    with Cons.IH Cons.prems(2) show ?thesis by auto
  qed
qed simp

lemma file_block_slot:
  assumes "one_block_extents (vs_live st)" "file_block st a i = Some p"
  shows "\<exists>ii x. vs_live st a = Some ii \<and> slot (vs_live st) a x = Some (zone_of (ii_tier ii), p) \<and> e_logical (ii_extents ii ! x) = i"
proof -
  from assms(2) obtain ii where ii: "vs_live st a = Some ii" "extent_find (ii_extents ii) i = Some p"
    by (auto simp: file_block_def split: option.splits)
  moreover from this(1) assms(1) have "\<forall>e \<in> set (ii_extents ii). e_len e = 0 \<or> e_len e = 1"
    by (auto simp: one_block_extents_def)
  ultimately obtain e where "e \<in> set (ii_extents ii)" "e_len e \<noteq> 0" "e_logical e = i" "e_physical e = p"
    using extent_find_one by blast
  with ii(1) show ?thesis
    by (auto simp: slot_def in_set_conv_nth)
qed

lemma slots_apart:
  assumes "slots_ok b0 b live"
    and "zone_ptr b KTIER_FAST \<le> zone_ptr b0 KTIER_NORMAL" "zone_ptr b KTIER_NORMAL \<le> zone_ptr b0 KTIER_SLOW"
    and "slot live a x = Some (z, p)" "slot live a' x' = Some (z', p)"
  shows "a = a' \<and> x = x'"
proof -
  note range = slots_okD(3)[OF assms(1,4)] slots_okD(3)[OF assms(1,5)]
  have "zone_ptr b0 z'' \<le> zone_ptr b z''" for z''
    using slots_okD(1)[OF assms(1)] by (simp add: grown_def)
  from this[of KTIER_NORMAL] range assms(2,3) have "z = z'"
    by (cases z; cases z') auto
  with assms(4,5) slots_okD(4)[OF assms(1)] show ?thesis by blast
qed

text \<open>C19: Over any history of mounts, requests, writebacks, unmounts and crashes of a kernel file system, as long as
  the fast and the normal zone have not been filled beyond their ends: no two blocks of files in memory, of
  the same or of different files, are the same block of the device, and the blocks handed out and the
  free blocks add up to what the formatted superblock had. In particular removing files gives no block back.
  The hypothesis on \<open>block_write_begin\<close> is that it changes the state only through the callback.\<close>

theorem vfs_files_share_no_block:
  assumes "vfs_life bwb dev0 (Mounted dev st)" "calls_back bwb" "roomy (mem_super_block dev0 0)" "vs_sbi st = Some sbi"
    and "zone_ptr (isb sbi) KTIER_FAST \<le> zone_ptr (mem_super_block dev0 0) KTIER_NORMAL"
    and "zone_ptr (isb sbi) KTIER_NORMAL \<le> zone_ptr (mem_super_block dev0 0) KTIER_SLOW"
  shows "(\<forall>a i b j p. file_block st a i = Some p \<longrightarrow> file_block st b j = Some p \<longrightarrow> a = b \<and> i = j)
     \<and> block_sum (isb sbi) = block_sum (mem_super_block dev0 0)"
proof -
  have ok: "slots_ok (mem_super_block dev0 0) (isb sbi) (vs_live st)"
    using vfs_life_inv[OF assms(1-3)] assms(4) by simp
  have "a = b \<and> i = j" if "file_block st a i = Some p" "file_block st b j = Some p" for a i b j p
    using file_block_slot[OF slots_okD(2)[OF ok] that(1)] file_block_slot[OF slots_okD(2)[OF ok] that(2)]
      slots_apart[OF ok assms(5,6)] by (metis option.inject)
  with slots_okD(1)[OF ok] show ?thesis
    by (simp add: grown_def)
qed

text \<open>A kernel that prepares one page at a time, with pages of the size of a block, and gets the copy of the list of
  extensions refused; a new file system with a file of two blocks on it.\<close>

definition one_page :: page_writer where
  "one_page gb sbi ii pos len = (case gb sbi ii (drop_bit 12 pos) True of (sbi, ii, _, ret) \<Rightarrow> (sbi, ii, ret))"

definition demo_kernel :: kernel where
  "demo_kernel = \<lparr>k_tolower = (\<lambda>c. c), kstrdup_succeeds = False, slab = Some full_file, inode_init = (\<lambda>v. v),
     init_owner = (\<lambda>v d m. v\<lparr>i_umode := m\<rparr>), next_ino = 2, cur_time = 0, dir_empty = True, rename_ret = 0\<rparr>"

definition demo_device :: mem where
  "demo_device = mem_of (super_block_bytes mkfs_super)"

lemma demo_super [simp]: "mem_super_block demo_device 0 = mkfs_super"
  by (simp add: demo_device_def mem_super_block_bytes norm_super_block_def mkfs_super_def trim_def zeros_def fun_eq_iff)

lemma one_page_calls_back: "calls_back one_page"
  unfolding calls_back_def
proof (intro allI impI)
  fix gb sbi ii pos len sbi' ii' ret
  assume "one_page gb sbi ii pos len = (sbi', ii', ret)"
  then have "run_blocks gb [(drop_bit 12 pos, True)] sbi ii = (sbi', ii')"
    by (auto simp: one_page_def split: prod.splits)
  then show "\<exists>cs. run_blocks gb cs sbi ii = (sbi', ii')" ..
qed

definition demo_root :: vfs_state where
  "demo_root = \<lparr>vs_sbi = Some demo_sbi, vs_live = [0 \<mapsto> full_file\<lparr>ii_extents := replicate KFS_MAX_EXTENTS zero_extent,
     vfs_inode := (vfs_inode full_file)\<lparr>i_number := 1, i_umode := S_IFDIR_bits OR 0x1ED, i_times := (0, 0, 0), i_nlink := 2,
       i_ops := DirOps\<rparr>\<rparr>]\<rparr>"

lemma demo_mounted: "vfs_life one_page demo_device (Mounted demo_device demo_root)"
proof -
  let ?ii = "full_file\<lparr>ii_extents := replicate KFS_MAX_EXTENTS zero_extent\<rparr>"
  have n: "new_inode demo_kernel = Some ?ii"
    by (simp add: new_inode_def idkfs_alloc_inode_def demo_kernel_def)
  moreover have "idkfs_mount (\<lambda>fill. fill (Some demo_device) True True) demo_kernel
      = Some (Some demo_sbi, Some ((vfs_inode full_file)\<lparr>i_number := 1,
     i_umode := S_IFDIR_bits OR 0x1ED, i_times := (0, 0, 0), i_nlink := 2, i_ops := DirOps\<rparr>), 0)"
    by (simp add: idkfs_mount_def idkfs_fill_super_def n) (simp add: demo_sbi_def mkfs_super_def demo_kernel_def)
  ultimately have "vfs_life one_page demo_device (Mounted demo_device \<lparr>vs_sbi = Some demo_sbi, vs_live = [0 \<mapsto> ?ii\<lparr>vfs_inode :=
      (vfs_inode full_file)\<lparr>i_number := 1, i_umode := S_IFDIR_bits OR 0x1ED, i_times := (0, 0, 0), i_nlink := 2, i_ops := DirOps\<rparr>\<rparr>]\<rparr>)"
    using vl_mount[OF vl_start] by blast
  then show ?thesis
    by (simp add: demo_root_def)
qed

lemma demo_write:
  assumes "vs_live st a = Some ii" "vs_sbi st = Some sbi" "extent_find (ii_extents ii) (drop_bit 12 pos) = None" "ii_tier ii = 1"
    and "ks_free_blocks (isb sbi) \<noteq> 0" "ks_next_normal (isb sbi) \<noteq> 0"
  shows "\<exists>st' sbi'. vfs_exec one_page demo_kernel st (ReqWriteBegin a pos len) = Some (st', 0) \<and> vs_sbi st' = Some sbi'
     \<and> isb sbi' = (isb sbi)\<lparr>ks_next_normal := ks_next_normal (isb sbi) + 1, ks_free_blocks := ks_free_blocks (isb sbi) - 1\<rparr>
     \<and> vs_live st' a = Some (ii\<lparr>ii_extents := extent_put (ii_extents ii) (drop_bit 12 pos) (ks_next_normal (isb sbi))\<rparr>)"
  using assms by (simp add: idkfs_write_begin_def one_page_def idkfs_get_block_def idkfs_alloc_tiered_def Let_def)

lemma demo_life:
  "\<exists>st sbi. vfs_life one_page demo_device (Mounted demo_device st) \<and> vs_sbi st = Some sbi
     \<and> zone_ptr (isb sbi) KTIER_FAST = 10 \<and> zone_ptr (isb sbi) KTIER_NORMAL = 262146
     \<and> file_block st 1 0 = Some 262144 \<and> file_block st 1 1 = Some 262145"
proof -
  obtain st1 ii where st1: "vfs_exec one_page demo_kernel demo_root (ReqCreate 0 1 (bytes_of_string ''a.so'') 420) = Some (st1, 0)"
    "vs_sbi st1 = Some (demo_sbi\<lparr>sbh_dirty := True\<rparr>)" "vs_live st1 1 = Some ii"
    "ii_tier ii = 1" "ii_extents ii = replicate KFS_MAX_EXTENTS zero_extent"
    by (simp add: demo_root_def vfs_create_def new_inode_def idkfs_alloc_inode_def demo_kernel_def
        idkfs_get_tier_def idkfs_ext_match_def put_new_def idkfs_mark_sb_dirty_def Let_def)
  have none: "extent_find (replicate n zero_extent) i = None" for n i
    by (rule extent_find_replicate) (simp add: zero_extent_def)
  have put: "extent_put (replicate KFS_MAX_EXTENTS zero_extent) i p
      = zero_extent\<lparr>e_logical := i, e_physical := p, e_len := 1\<rparr> # replicate 14 zero_extent"
    "extent_put (replicate 14 zero_extent) i p
      = zero_extent\<lparr>e_logical := i, e_physical := p, e_len := 1\<rparr> # replicate 13 zero_extent" for i p
    by (simp_all add: numeral_eq_Suc zero_extent_def)
  obtain st2 sbi2 where st2: "vfs_exec one_page demo_kernel st1 (ReqWriteBegin 1 0 100) = Some (st2, 0)" "vs_sbi st2 = Some sbi2"
    "isb sbi2 = mkfs_super\<lparr>ks_next_normal := 262145, ks_free_blocks := 1048559\<rparr>"
    "vs_live st2 1 = Some (ii\<lparr>ii_extents := zero_extent\<lparr>e_logical := 0, e_physical := 262144, e_len := 1\<rparr> # replicate 14 zero_extent\<rparr>)"
    using demo_write[of st1 1 ii _ 0 100] st1(2-) by (auto simp: none put demo_sbi_def mkfs_super_def)
  obtain st3 sbi3 where st3: "vfs_exec one_page demo_kernel st2 (ReqWriteBegin 1 4096 100) = Some (st3, 0)" "vs_sbi st3 = Some sbi3"
    "isb sbi3 = mkfs_super\<lparr>ks_next_normal := 262146, ks_free_blocks := 1048558\<rparr>"
    "vs_live st3 1 = Some (ii\<lparr>ii_extents := zero_extent\<lparr>e_logical := 0, e_physical := 262144, e_len := 1\<rparr>
       # zero_extent\<lparr>e_logical := 1, e_physical := 262145, e_len := 1\<rparr> # replicate 13 zero_extent\<rparr>)"
    using demo_write[OF st2(4,2), of 4096 100] st1(4) st2(3) by (auto simp: none put mkfs_super_def)
  have "vfs_life one_page demo_device (Mounted demo_device st3)"
    by (rule vl_request[OF vl_request[OF vl_request[OF demo_mounted st1(1)] st2(1)] st3(1)])
  with st3(2-4) show ?thesis
    by (intro exI[of _ st3] exI[of _ sbi3]) (simp add: file_block_def zone_ptr_def mkfs_super_def)
qed

theorem vfs_files_share_no_block_witness:
  "\<exists>st p q. vfs_life one_page demo_device (Mounted demo_device st)
     \<and> file_block st 1 0 = Some p \<and> file_block st 1 1 = Some q \<and> p \<noteq> q"
proof -
  obtain st sbi where st: "vfs_life one_page demo_device (Mounted demo_device st)" "vs_sbi st = Some sbi"
    "zone_ptr (isb sbi) KTIER_FAST = 10" "zone_ptr (isb sbi) KTIER_NORMAL = 262146"
    "file_block st 1 0 = Some 262144" "file_block st 1 1 = Some 262145"
    using demo_life by blast
  have "zone_ptr mkfs_super z + unat (ks_free_blocks mkfs_super) < 2 ^ 64" for z
    by (cases z) (simp_all add: zone_ptr_def mkfs_super_def)
  then have "roomy (mem_super_block demo_device 0)"
    by (simp add: roomy_def)
  moreover have "zone_ptr (isb sbi) KTIER_FAST \<le> zone_ptr (mem_super_block demo_device 0) KTIER_NORMAL"
    "zone_ptr (isb sbi) KTIER_NORMAL \<le> zone_ptr (mem_super_block demo_device 0) KTIER_SLOW"
    using st(3,4) by (simp_all add: zone_ptr_def mkfs_super_def)
  ultimately have "\<forall>a i b j p. file_block st a i = Some p \<longrightarrow> file_block st b j = Some p \<longrightarrow> a = b \<and> i = j"
    using vfs_files_share_no_block[OF st(1) one_page_calls_back _ st(2)] by blast
  with st(1,5,6) show ?thesis
    by (metis zero_neq_one)
qed

end
