(* ===== verification/Snapper.thy ===== *)
theory Snapper
  imports Prelude
begin

text \<open>
  The snapshot program \<^verbatim>\<open>idkfs_snapper.c\<close>: numbered copies of an image file in a store directory, with
  a list of their descriptions and the next number in text files.

  The state is the file system as far as the program touches it: the contents of files by path, and
  which paths are directories. The answers of the operating system are arguments, among them the
  results of the \<open>read\<close> and \<open>write\<close> calls of a copy, one after the other, and the local time. A result
  \<open>None\<close> is undefined behaviour (a number that does not fit an \<open>int\<close>) or a copy for which there are not
  enough answers to finish. Messages to the standard error output are left out.
\<close>

abbreviation (input) MAX_ITEMS :: nat where "MAX_ITEMS \<equiv> 4096"
abbreviation (input) LINE_BUFSIZE :: nat where "LINE_BUFSIZE \<equiv> 512"
abbreviation (input) PATH_BUFSIZE :: nat where "PATH_BUFSIZE \<equiv> 4096"
abbreviation (input) TIMESTAMP_BUFSIZE :: nat where "TIMESTAMP_BUFSIZE \<equiv> 32"
abbreviation (input) newline :: u8 where "newline \<equiv> 10"
abbreviation (input) bar :: u8 where "bar \<equiv> 124"

section \<open>Numbers as text\<close>

text \<open>The conversion \<open>%04d\<close>.\<close>

definition fmt_04d :: "int \<Rightarrow> cstr" where
  "fmt_04d i = (let ds = dec_digits (nat \<bar>i\<bar>) in
     if i < 0 then [45] @ replicate (3 - length ds) 48 @ ds else replicate (4 - length ds) 48 @ ds)"

definition is_space :: "u8 \<Rightarrow> bool" where
  "is_space c \<longleftrightarrow> c = 32 \<or> 9 \<le> c \<and> c \<le> 13"

definition is_digit :: "u8 \<Rightarrow> bool" where
  "is_digit c \<longleftrightarrow> 48 \<le> c \<and> c \<le> 57"

definition digits_int :: "cstr \<Rightarrow> int" where
  "digits_int ds = foldl (\<lambda>v c. 10 * v + int (unat (c - 48))) 0 ds"

text \<open>The number at the start of a text, after white space; \<open>None\<close> when there is none.\<close>

definition scan_int :: "cstr \<Rightarrow> int option" where
  "scan_int s =
     (let s = dropWhile is_space s;
          neg = (s \<noteq> [] \<and> hd s = 45);
          s = (if s \<noteq> [] \<and> (hd s = 45 \<or> hd s = 43) then tl s else s);
          ds = takeWhile is_digit s
      in if ds = [] then None else Some (if neg then - digits_int ds else digits_int ds))"

definition int_fits :: "int \<Rightarrow> bool" where
  "int_fits i \<longleftrightarrow> - (2 ^ 31) \<le> i \<and> i < 2 ^ 31"

definition atoi :: "cstr \<Rightarrow> int option" where
  "atoi s = (case scan_int s of None \<Rightarrow> Some 0 | Some i \<Rightarrow> if int_fits i then Some i else None)"

section \<open>The file system\<close>

record snap_fs =
  sf_files :: "cstr \<Rightarrow> u8 list option"
  sf_dirs :: "cstr \<Rightarrow> bool"

text \<open>The broken-down time that \<open>localtime_r\<close> gives.\<close>

record tm =
  tm_year :: int
  tm_mon :: nat
  tm_mday :: nat
  tm_hour :: nat
  tm_min :: nat
  tm_sec :: nat

record snap_os =
  can_read :: "cstr \<Rightarrow> bool"
  can_write :: "cstr \<Rightarrow> bool"
  mkdir_ok :: bool
  mkdir_eexist :: bool
  unlink_ok :: bool
  calloc_ok :: bool
  realloc_ok :: bool
  clock :: tm
  copy_io :: "int list"

definition fopen_r :: "snap_os \<Rightarrow> snap_fs \<Rightarrow> cstr \<Rightarrow> u8 list option" where
  "fopen_r os fs path = (if can_read os path then sf_files fs path else None)"

text \<open>\<open>fopen(path, "w")\<close>, writing \<open>bytes\<close> and closing; nothing happens when it cannot be opened.\<close>

definition fwrite_all :: "snap_os \<Rightarrow> snap_fs \<Rightarrow> cstr \<Rightarrow> u8 list \<Rightarrow> snap_fs" where
  "fwrite_all os fs path bytes = (if can_write os path then fs\<lparr>sf_files := (sf_files fs)(path \<mapsto> bytes)\<rparr> else fs)"

text \<open>\<open>snprintf\<close> into a path buffer cuts the text.\<close>

definition path_buf :: "cstr \<Rightarrow> cstr" where
  "path_buf s = take (PATH_BUFSIZE - 1) s"

definition default_store :: "cstr \<Rightarrow> cstr option" where
  "default_store img = (let s = img @ bytes_of_string ''.snapshots'' in if length s \<ge> PATH_BUFSIZE then None else Some s)"

definition ensure_dir :: "snap_os \<Rightarrow> snap_fs \<Rightarrow> cstr \<Rightarrow> snap_fs \<times> bool" where
  "ensure_dir os fs path =
     (if sf_dirs fs path then (fs, True)
      else if sf_files fs path \<noteq> None then (fs, False)
      else if mkdir_ok os then (fs\<lparr>sf_dirs := (sf_dirs fs)(path := True)\<rparr>, True)
      else (fs, mkdir_eexist os))"

definition next_id_path :: "cstr \<Rightarrow> cstr" where
  "next_id_path store = path_buf (store @ bytes_of_string ''/next_id'')"

definition list_path :: "cstr \<Rightarrow> cstr" where
  "list_path store = path_buf (store @ bytes_of_string ''/list.txt'')"

definition snap_path :: "cstr \<Rightarrow> int \<Rightarrow> cstr" where
  "snap_path store i = path_buf (store @ bytes_of_string ''/'' @ fmt_04d i @ bytes_of_string ''.img'')"

definition read_next_id :: "snap_os \<Rightarrow> snap_fs \<Rightarrow> cstr \<Rightarrow> int option" where
  "read_next_id os fs store = (case fopen_r os fs (next_id_path store) of
     None \<Rightarrow> Some 1
   | Some f \<Rightarrow> (case scan_int f of None \<Rightarrow> Some 1 | Some i \<Rightarrow> if int_fits i then Some i else None))"

definition write_next_id :: "snap_os \<Rightarrow> snap_fs \<Rightarrow> cstr \<Rightarrow> int \<Rightarrow> snap_fs" where
  "write_next_id os fs store i = fwrite_all os fs (next_id_path store) (fmt_d i @ [newline])"

section \<open>The list of snapshots\<close>

text \<open>The two \<open>char\<close> arrays start zeroed and \<open>strncpy\<close> leaves their last byte, so that they hold strings of at
  most 31 and 255 bytes.\<close>

record SnapshotMeta =
  m_id :: int
  m_timestamp :: cstr
  m_desc :: cstr

definition fgets :: "u8 list \<Rightarrow> u8 list \<times> u8 list" where
  "fgets f = (let n = min (LINE_BUFSIZE - 1) (length (takeWhile (\<lambda>c. c \<noteq> newline) f) + 1) in (take n f, drop n f))"

text \<open>\<open>strchr\<close>: the string before and after the first \<open>c\<close>.\<close>

definition split_at :: "u8 \<Rightarrow> cstr \<Rightarrow> (cstr \<times> cstr) option" where
  "split_at c s = (if c \<in> set s then Some (takeWhile (\<lambda>x. x \<noteq> c) s, tl (dropWhile (\<lambda>x. x \<noteq> c) s)) else None)"

text \<open>The body of the loop of \<open>load_metadata\<close>; the inner \<open>None\<close> is \<open>continue\<close>.\<close>

definition parse_line :: "u8 list \<Rightarrow> SnapshotMeta option option" where
  "parse_line line =
     (let s = takeWhile (\<lambda>c. c \<noteq> newline) (takeWhile (\<lambda>c. c \<noteq> 0) line) in
      case split_at bar s of
        None \<Rightarrow> Some None
      | Some (a, r) \<Rightarrow> (case split_at bar r of
          None \<Rightarrow> Some None
        | Some (b, c) \<Rightarrow> do {
            i \<leftarrow> atoi a;
            Some (Some \<lparr>m_id = i, m_timestamp = take 31 b, m_desc = take 255 c\<rparr>) }))"

lemma fgets_shorter: "f \<noteq> [] \<Longrightarrow> length (snd (fgets f)) < length f"
  by (cases f) (auto simp: fgets_def Let_def)

function load_loop :: "u8 list \<Rightarrow> nat \<Rightarrow> SnapshotMeta list option" where
  "load_loop f cnt =
     (if f = [] \<or> cnt \<ge> MAX_ITEMS then Some []
      else do {
        m \<leftarrow> parse_line (fst (fgets f));
        case m of
          None \<Rightarrow> load_loop (snd (fgets f)) cnt
        | Some it \<Rightarrow> do { items \<leftarrow> load_loop (snd (fgets f)) (cnt + 1); Some (it # items) } })"
  by auto
termination by (relation "measure (\<lambda>(f, _). length f)") (auto simp: fgets_shorter)

text \<open>When \<open>calloc\<close> fails the list counts as empty, as when it cannot be opened.\<close>

definition load_metadata :: "snap_os \<Rightarrow> snap_fs \<Rightarrow> cstr \<Rightarrow> SnapshotMeta list option" where
  "load_metadata os fs store = (case fopen_r os fs (list_path store) of
     None \<Rightarrow> Some []
   | Some f \<Rightarrow> if calloc_ok os then load_loop f 0 else Some [])"

definition meta_line :: "SnapshotMeta \<Rightarrow> cstr" where
  "meta_line m = fmt_d (m_id m) @ [bar] @ m_timestamp m @ [bar] @ m_desc m @ [newline]"

definition save_metadata :: "snap_os \<Rightarrow> snap_fs \<Rightarrow> cstr \<Rightarrow> SnapshotMeta list \<Rightarrow> snap_fs" where
  "save_metadata os fs store items = fwrite_all os fs (list_path store) (concat (map meta_line items))"

section \<open>Copies\<close>

text \<open>The loops of \<open>copy_file\<close>: \<open>src\<close> is what is left to read, \<open>buf\<close> what is left of the buffer and \<open>dst\<close> the
  copy so far. Each system call takes the next answer; a negative one is an error, another one the number
  of bytes, as far as there are that many (\<open>read\<close> gives no byte only at the end of the file).\<close>

fun copy_loop :: "int list \<Rightarrow> u8 list \<Rightarrow> u8 list \<Rightarrow> u8 list \<Rightarrow> (bool \<times> u8 list) option" where
  "copy_loop [] src buf dst = None"
| "copy_loop (w # io) src buf dst =
     (if buf \<noteq> [] then
        (if w < 0 then Some (False, dst)
         else copy_loop io src (drop (nat w) buf) (dst @ take (nat w) buf))
      else if w < 0 then Some (False, dst)
      else if src = [] then Some (True, dst)
      else let n = max 1 (min (nat w) 65536) in copy_loop io (drop n src) (take n src) dst)"

definition copy_file :: "snap_os \<Rightarrow> snap_fs \<Rightarrow> cstr \<Rightarrow> cstr \<Rightarrow> (snap_fs \<times> bool) option" where
  "copy_file os fs src dst =
     (if fopen_r os fs src = None then Some (fs, False)
      else if \<not> can_write os dst then Some (fs, False)
      else let fs = fs\<lparr>sf_files := (sf_files fs)(dst \<mapsto> [])\<rparr> in do {
        (ok, bytes) \<leftarrow> copy_loop (copy_io os) (the (sf_files fs src)) [] [];
        Some (fs\<lparr>sf_files := (sf_files fs)(dst \<mapsto> bytes)\<rparr>, ok) })"

section \<open>Commands\<close>

text \<open>The variables that the loop over the arguments sets; an \<open>atoi\<close> that overflows is undefined.\<close>

record snap_args =
  a_image :: "cstr option"
  a_store :: "cstr option"
  a_cmd :: "cstr option"
  a_desc :: "cstr option"
  a_id :: int

definition no_args :: snap_args where
  "no_args = \<lparr>a_image = None, a_store = None, a_cmd = None, a_desc = None, a_id = - 1\<rparr>"

fun parse_args :: "cstr list \<Rightarrow> snap_args \<Rightarrow> snap_args option" where
  "parse_args [] st = Some st"
| "parse_args [x] st = Some (if a_cmd st = None then st\<lparr>a_cmd := Some x\<rparr> else st)"
| "parse_args (x # y # rest) st =
     (if x = bytes_of_string ''--image'' then parse_args rest (st\<lparr>a_image := Some y\<rparr>)
      else if x = bytes_of_string ''--store'' then parse_args rest (st\<lparr>a_store := Some y\<rparr>)
      else if a_cmd st = None then
        (let st = st\<lparr>a_cmd := Some x\<rparr> in
         if x = bytes_of_string ''create'' then parse_args rest (st\<lparr>a_desc := Some y\<rparr>)
         else if x = bytes_of_string ''delete'' \<or> x = bytes_of_string ''rollback''
           then do { i \<leftarrow> atoi y; parse_args rest (st\<lparr>a_id := i\<rparr>) }
         else parse_args (y # rest) st)
      else parse_args (y # rest) st)"

text \<open>\<open>strftime\<close> with \<open>%Y-%m-%d %H:%M:%S\<close>; a text that does not fit leaves the buffer undefined.\<close>

definition fmt_02 :: "nat \<Rightarrow> cstr" where
  "fmt_02 n = [48 + of_nat (n div 10), 48 + of_nat (n mod 10)]"

definition current_timestamp :: "tm \<Rightarrow> nat \<Rightarrow> cstr option" where
  "current_timestamp t len =
     (let s = fmt_d (tm_year t + 1900) @ [45] @ fmt_02 (tm_mon t + 1) @ [45] @ fmt_02 (tm_mday t) @ [32] @
              fmt_02 (tm_hour t) @ [58] @ fmt_02 (tm_min t) @ [58] @ fmt_02 (tm_sec t)
      in if length s < len then Some s else None)"

text \<open>Each command gives the file system, the standard output and the exit status.\<close>

definition cmd_create :: "snap_os \<Rightarrow> snap_fs \<Rightarrow> cstr \<Rightarrow> cstr \<Rightarrow> cstr option \<Rightarrow> (snap_fs \<times> cstr \<times> int) option" where
  "cmd_create os fs img store desc = do {
     next_id \<leftarrow> read_next_id os fs store;
     (fs, ok) \<leftarrow> copy_file os fs img (snap_path store next_id);
     if \<not> ok then Some (fs, [], 1)
     else do {
       items \<leftarrow> load_metadata os fs store;
       ts \<leftarrow> current_timestamp (clock os) TIMESTAMP_BUFSIZE;
       let meta = \<lparr>m_id = next_id, m_timestamp = ts, m_desc = take 255 (case desc of None \<Rightarrow> [] | Some d \<Rightarrow> d)\<rparr>;
       if \<not> realloc_ok os then Some (fs, [], 1)
       else if \<not> int_fits (next_id + 1) then None
       else let fs = save_metadata os fs store (items @ [meta]);
                fs = write_next_id os fs store (next_id + 1)
            in Some (fs, bytes_of_string ''created snapshot '' @ fmt_04d next_id @ bytes_of_string '' ('' @ m_desc meta @ bytes_of_string '')'' @ [newline], 0) } }"

definition list_output :: "SnapshotMeta list \<Rightarrow> cstr" where
  "list_output items = (if items = [] then bytes_of_string ''no snapshots'' @ [newline]
     else concat (map (\<lambda>m. fmt_04d (m_id m) @ [32, 32] @ m_timestamp m @ [32, 32] @ m_desc m @ [newline]) items))"

text \<open>The first snapshot with the number.\<close>

fun find_id :: "SnapshotMeta list \<Rightarrow> int \<Rightarrow> nat option" where
  "find_id [] i = None"
| "find_id (m # ms) i = (if m_id m = i then Some 0 else map_option Suc (find_id ms i))"

definition cmd_delete :: "snap_os \<Rightarrow> snap_fs \<Rightarrow> cstr \<Rightarrow> int \<Rightarrow> SnapshotMeta list \<Rightarrow> nat \<Rightarrow> snap_fs \<times> cstr \<times> int" where
  "cmd_delete os fs store i items idx =
     (if sf_files fs (snap_path store i) \<noteq> None \<and> \<not> unlink_ok os then (fs, [], 1)
      else let fs = fs\<lparr>sf_files := (sf_files fs)(snap_path store i := None)\<rparr>;
               fs = save_metadata os fs store (take idx items @ drop (Suc idx) items)
           in (fs, bytes_of_string ''deleted snapshot '' @ fmt_04d i @ [newline], 0))"

definition cmd_rollback :: "snap_os \<Rightarrow> snap_fs \<Rightarrow> cstr \<Rightarrow> cstr \<Rightarrow> int \<Rightarrow> (snap_fs \<times> cstr \<times> int) option" where
  "cmd_rollback os fs img store i = do {
     (fs, ok) \<leftarrow> copy_file os fs (snap_path store i) img;
     Some (if ok then (fs, bytes_of_string ''rolled back image to snapshot '' @ fmt_04d i @ [newline], 0) else (fs, [], 1)) }"

text \<open>\<open>argv\<close> without the name of the program.\<close>

definition snapper_main :: "snap_os \<Rightarrow> snap_fs \<Rightarrow> cstr list \<Rightarrow> (snap_fs \<times> cstr \<times> int) option" where
  "snapper_main os fs argv =
     (if length argv < 2 then Some (fs, [], 1)
      else do {
        st \<leftarrow> parse_args argv no_args;
        case (a_image st, a_cmd st) of
          (Some img, Some cmd) \<Rightarrow>
            (case (case a_store st of Some s \<Rightarrow> Some s | None \<Rightarrow> default_store img) of
               None \<Rightarrow> Some (fs, [], 1)
             | Some s \<Rightarrow>
                 let store = path_buf s; (fs, ok) = ensure_dir os fs store in
                 if \<not> ok then Some (fs, [], 1)
                 else if cmd = bytes_of_string ''create'' then cmd_create os fs img store (a_desc st)
                 else do {
                   items \<leftarrow> load_metadata os fs store;
                   if cmd = bytes_of_string ''list'' then Some (fs, list_output items, 0)
                   else if a_id st < 0 then Some (fs, [], 1)
                   else case find_id items (a_id st) of
                     None \<Rightarrow> Some (fs, [], 1)
                   | Some idx \<Rightarrow>
                       if cmd = bytes_of_string ''delete'' then Some (cmd_delete os fs store (a_id st) items idx)
                       else if cmd = bytes_of_string ''rollback'' then cmd_rollback os fs img store (a_id st)
                       else Some (fs, [], 1) })
        | _ \<Rightarrow> Some (fs, [], 1) })"

end
