(* ===== verification/Snapper_Proofs.thy ===== *)
theory Snapper_Proofs
  imports Snapper
begin

text \<open>
  Properties of the snapshot program: numbers and the list of snapshots are read back as they were
  written, a copy has the bytes of its source, and a rollback restores the image of its snapshot.
\<close>

declare dec_digits.simps [simp del] load_loop.simps [simp del]

section \<open>Numbers\<close>

lemma digit_char:
  assumes "d < 10"
  shows "is_digit (48 + of_nat d)" "unat ((48 + of_nat d :: u8) - 48) = d"
proof -
  have "unat (of_nat d :: u8) = d"
    using assms by (simp add: unat_of_nat)
  moreover from this assms have "unat (48 + of_nat d :: u8) = 48 + d"
    by (simp add: unat_word_ariths)
  ultimately show "is_digit (48 + of_nat d)" "unat ((48 + of_nat d :: u8) - 48) = d"
    using assms by (simp_all add: is_digit_def word_le_nat_alt)
qed

lemma dec_digits_are_digits: "c \<in> set (dec_digits n) \<Longrightarrow> is_digit c"
proof (induction n rule: dec_digits.induct)
  case (1 n)
  then show ?case
    by (subst (asm) dec_digits.simps) (auto split: if_splits simp: digit_char)
qed

lemma dec_digits_nonempty [simp]: "dec_digits n \<noteq> []"
  by (subst dec_digits.simps) simp

lemma digits_int_snoc: "digits_int (ds @ [c]) = 10 * digits_int ds + int (unat (c - 48))"
  by (simp add: digits_int_def)

lemma digits_int_dec_digits: "digits_int (dec_digits n) = int n"
proof (induction n rule: dec_digits.induct)
  case (1 n)
  show ?case
  proof (cases "n < 10")
    case True
    then have "dec_digits n = [48 + of_nat n]"
      by (subst dec_digits.simps) simp
    with digit_char(2)[OF True] show ?thesis
      by (simp only: digits_int_def foldl.simps mult_zero_right add_0)
  next
    case False
    then have "dec_digits n = dec_digits (n div 10) @ [48 + of_nat (n mod 10)]"
      by (subst dec_digits.simps) simp
    with 1 False digit_char(2)[of "n mod 10"] show ?thesis
      by (simp add: digits_int_snoc) (metis div_mult_mod_eq mult.commute of_nat_add of_nat_mult of_nat_numeral)
  qed
qed

lemma length_dec_digits: "0 < k \<Longrightarrow> n < 10 ^ k \<Longrightarrow> length (dec_digits n) \<le> k"
proof (induction n arbitrary: k rule: dec_digits.induct)
  case (1 n)
  show ?case
  proof (cases "n < 10")
    case True
    with 1(2) show ?thesis by (subst dec_digits.simps) simp
  next
    case False
    then have "k \<noteq> 1" using 1(3) by auto
    then obtain j where j: "k = Suc j" "0 < j"
      using 1(2) by (cases k) auto
    then have "n div 10 < 10 ^ j"
      using 1(3) by (simp add: less_mult_imp_div_less)
    with 1(1)[OF False j(2)] j False show ?thesis
      by (subst dec_digits.simps) simp
  qed
qed

lemma takeWhile_digits:
  assumes "rest = [] \<or> \<not> is_digit (hd rest)"
  shows "takeWhile is_digit (dec_digits n @ rest) = dec_digits n"
proof -
  have "takeWhile is_digit (dec_digits n @ rest) = dec_digits n @ takeWhile is_digit rest"
    by (rule takeWhile_append2) (rule dec_digits_are_digits)
  moreover have "takeWhile is_digit rest = []"
    using assms by (cases rest) auto
  ultimately show ?thesis by simp
qed

lemma first_digit:
  obtains c ds where "dec_digits n = c # ds" "is_digit c" "\<not> is_space c" "c \<noteq> 45" "c \<noteq> 43"
proof -
  obtain c ds where c: "dec_digits n = c # ds"
    using dec_digits_nonempty[of n] by (cases "dec_digits n") auto
  then have d: "is_digit c"
    using dec_digits_are_digits[of c n] by simp
  then have "48 \<le> unat c"
    by (simp add: is_digit_def word_le_nat_alt)
  then have "\<not> is_space c" "c \<noteq> 45" "c \<noteq> 43"
    by (auto simp: is_space_def word_le_nat_alt)
  with c d show ?thesis by (rule that)
qed

text \<open>A printed number followed by something that is not a digit is read back.\<close>

lemma scan_int_fmt_d:
  assumes "rest = [] \<or> \<not> is_digit (hd rest)"
  shows "scan_int (fmt_d i @ rest) = Some i"
proof -
  obtain c ds where c: "dec_digits (nat \<bar>i\<bar>) = c # ds" "\<not> is_space c" "c \<noteq> 45" "c \<noteq> 43"
    by (rule first_digit) blast
  have tw: "takeWhile is_digit (c # ds @ rest) = c # ds"
    using takeWhile_digits[OF assms, of "nat \<bar>i\<bar>"] c(1) by simp
  have val: "digits_int (c # ds) = \<bar>i\<bar>"
    using digits_int_dec_digits[of "nat \<bar>i\<bar>"] c(1) by simp
  have "\<not> is_space 45" by (simp add: is_space_def)
  then show ?thesis
    using c tw val by (cases "i < 0") (simp_all add: scan_int_def fmt_d_def Let_def)
qed

lemma atoi_fmt_d: "int_fits i \<Longrightarrow> atoi (fmt_d i) = Some i"
  using scan_int_fmt_d[of "[]" i] by (simp add: atoi_def)

lemma fmt_d_chars: "c \<in> set (fmt_d i) \<Longrightarrow> c = 45 \<or> is_digit c"
  using dec_digits_are_digits by (auto simp: fmt_d_def split: if_splits)

lemma length_fmt_d: "int_fits i \<Longrightarrow> length (fmt_d i) \<le> 11"
proof -
  assume "int_fits i"
  then have "\<bar>i\<bar> < 10 ^ 10" by (auto simp: int_fits_def abs_less_iff)
  then have "nat \<bar>i\<bar> < 10 ^ 10" by (simp add: nat_less_iff)
  then have "length (dec_digits (nat \<bar>i\<bar>)) \<le> 10" by (intro length_dec_digits) simp_all
  then show ?thesis by (cases "i < 0") (simp_all add: fmt_d_def)
qed

section \<open>The list of snapshots\<close>

definition meta_ok :: "SnapshotMeta \<Rightarrow> bool" where
  "meta_ok m \<longleftrightarrow> int_fits (m_id m) \<and> length (m_timestamp m) \<le> 31 \<and> length (m_desc m) \<le> 255
     \<and> set (m_timestamp m) \<inter> {0, newline, bar} = {} \<and> set (m_desc m) \<inter> {0, newline} = {}"

lemma takeWhile_all: "c \<notin> set a \<Longrightarrow> takeWhile (\<lambda>x. x \<noteq> c) a = a"
  by (simp add: takeWhile_eq_all_conv) blast

lemma takeWhile_upto: "c \<notin> set a \<Longrightarrow> takeWhile (\<lambda>x. x \<noteq> c) (a @ c # r) = a"
  by (subst takeWhile_append2) auto

lemma split_at_append: "c \<notin> set a \<Longrightarrow> split_at c (a @ c # r) = Some (a, r)"
proof -
  assume "c \<notin> set a"
  then have "dropWhile (\<lambda>x. x \<noteq> c) (a @ c # r) = c # r"
    by (subst dropWhile_append2) auto
  with takeWhile_upto[OF \<open>c \<notin> set a\<close>, of r] show ?thesis by (simp add: split_at_def)
qed

lemma fmt_d_plain: "c \<in> {0, newline, bar} \<Longrightarrow> c \<notin> set (fmt_d i)"
  using fmt_d_chars[of c i] by (auto simp: is_digit_def)

definition meta_body :: "SnapshotMeta \<Rightarrow> cstr" where
  "meta_body m = fmt_d (m_id m) @ bar # m_timestamp m @ bar # m_desc m"

lemma meta_line_body: "meta_line m = meta_body m @ [newline]"
  by (simp add: meta_line_def meta_body_def)

lemma meta_body_plain: "meta_ok m \<Longrightarrow> set (meta_body m) \<inter> {0, newline} = {} \<and> length (meta_body m) \<le> 299"
  using fmt_d_plain[of 0 "m_id m"] fmt_d_plain[of newline "m_id m"] length_fmt_d[of "m_id m"]
  by (auto simp: meta_ok_def meta_body_def)

lemma parse_line_meta: "meta_ok m \<Longrightarrow> parse_line (meta_line m) = Some (Some m)"
proof -
  assume m: "meta_ok m"
  have "0 \<notin> set (meta_body m @ [newline])" "newline \<notin> set (meta_body m)"
    using meta_body_plain[OF m] by auto
  then have s: "takeWhile (\<lambda>c. c \<noteq> newline) (takeWhile (\<lambda>c. c \<noteq> 0) (meta_line m)) = meta_body m"
    unfolding meta_line_body by (simp only: takeWhile_all takeWhile_upto not_False_eq_True)
  have "split_at bar (meta_body m) = Some (fmt_d (m_id m), m_timestamp m @ bar # m_desc m)"
    unfolding meta_body_def by (intro split_at_append fmt_d_plain) simp
  moreover have "split_at bar (m_timestamp m @ bar # m_desc m) = Some (m_timestamp m, m_desc m)"
    using m by (intro split_at_append) (auto simp: meta_ok_def)
  ultimately show ?thesis
    using m by (simp add: parse_line_def s atoi_fmt_d meta_ok_def)
qed

lemma fgets_meta: "meta_ok m \<Longrightarrow> fgets (meta_line m @ rest) = (meta_line m, rest)"
proof -
  assume "meta_ok m"
  then have "newline \<notin> set (meta_body m)" "length (meta_body m) \<le> 299"
    using meta_body_plain by auto
  then show ?thesis
    by (simp add: fgets_def meta_line_body takeWhile_upto)
qed

lemma load_loop_saved:
  "list_all meta_ok items \<Longrightarrow> cnt + length items \<le> MAX_ITEMS \<Longrightarrow> load_loop (concat (map meta_line items)) cnt = Some items"
proof (induction items arbitrary: cnt)
  case (Cons m items)
  then show ?case
    by (subst load_loop.simps) (simp add: fgets_meta parse_line_meta, simp add: meta_line_body)
qed (simp add: load_loop.simps)

text \<open>C40: A list of at most 4096 snapshots whose time stamps and descriptions fit their arrays and have no
  newline, no NUL and (the time stamp) no bar is read back by \<open>load_metadata\<close> exactly as
  \<open>save_metadata\<close> wrote it, descriptions with bars included.\<close>

theorem metadata_roundtrip:
  assumes "list_all meta_ok items" "length items \<le> MAX_ITEMS" "calloc_ok os"
    and "can_write os (list_path store)" "can_read os (list_path store)"
  shows "load_metadata os (save_metadata os fs store items) store = Some items"
  using assms load_loop_saved[of items 0]
  by (simp add: load_metadata_def save_metadata_def fwrite_all_def fopen_r_def)

definition demo_os :: snap_os where
  "demo_os = \<lparr>can_read = (\<lambda>_. True), can_write = (\<lambda>_. True), mkdir_ok = True, mkdir_eexist = False, unlink_ok = True,
     calloc_ok = True, realloc_ok = True, 
     clock = \<lparr>tm_year = 126, tm_mon = 0, tm_mday = 2, tm_hour = 3, tm_min = 4, tm_sec = 5\<rparr>, copy_io = [2, 1, 1, 7, 1]\<rparr>"

definition demo_meta :: SnapshotMeta where
  "demo_meta = \<lparr>m_id = 1, m_timestamp = bytes_of_string ''2026-01-02 03:04:05'', m_desc = bytes_of_string ''a|b''\<rparr>"

lemma demo_meta_ok: "meta_ok demo_meta"
  by (simp add: meta_ok_def demo_meta_def bytes_of_string_def int_fits_def)

theorem metadata_roundtrip_witness:
  "load_metadata demo_os (save_metadata demo_os \<lparr>sf_files = \<lambda>_. None, sf_dirs = \<lambda>_. False\<rparr> [115] [demo_meta, demo_meta]) [115]
     = Some [demo_meta, demo_meta]"
  by (rule metadata_roundtrip) (simp_all add: demo_meta_ok demo_os_def)

section \<open>Copies\<close>

lemma copy_loop_exact: "copy_loop io src buf dst = Some (True, d) \<Longrightarrow> d = dst @ buf @ src"
proof (induction io src buf dst rule: copy_loop.induct)
  case (2 w io src buf dst)
  then show ?case by (auto simp: Let_def split: if_splits)
qed simp

lemma copy_loop_ends:
  "list_all (\<lambda>w. 1 \<le> w) io \<Longrightarrow> 2 * length src + length buf < length io
     \<Longrightarrow> copy_loop io src buf dst = Some (True, dst @ buf @ src)"
proof (induction io src buf dst rule: copy_loop.induct)
  case (2 w io src buf dst)
  consider "buf \<noteq> []" | "buf = []" "src = []" | "buf = []" "src \<noteq> []" by blast
  then show ?case
  proof cases
    case 1
    have "length (drop (nat w) buf) < length buf"
      using 1 2(3) by (cases buf) auto
    with 1 2 show ?thesis by (simp del: length_drop)
  next
    case 2
    then show ?thesis using \<open>list_all _ (w # io)\<close> by simp
  next
    case 3
    define n where "n = max 1 (min (nat w) 65536)"
    have "1 \<le> n" "0 < length src" "2 * length src \<le> length io" using 3 2(4) by (simp_all add: n_def)
    moreover have "length (drop n src) + length (take n src) = length src"
      by simp
    moreover have "length (drop n src) < length src"
      using \<open>1 \<le> n\<close> \<open>0 < length src\<close> by simp
    ultimately have "2 * length (drop n src) + length (take n src) < length io"
      by linarith
    moreover have w: "\<not> w < 0" "list_all (\<lambda>w. 1 \<le> w) io"
      using 2(3) by simp_all
    ultimately have "copy_loop io (drop n src) (take n src) dst = Some (True, dst @ take n src @ drop n src)"
      using 3 by (intro 2(2)[OF _ _ _ n_def]) simp_all
    moreover have "copy_loop (w # io) src buf dst = copy_loop io (drop n src) (take n src) dst"
      unfolding copy_loop.simps n_def Let_def using 3 w(1) by simp
    ultimately show ?thesis
      using 3(1) by simp
  qed
qed simp

section \<open>Creating and rolling back\<close>

text \<open>The ranges that are documented of \<open>localtime_r\<close>, with the year an \<open>int\<close>.\<close>

definition tm_ok :: "tm \<Rightarrow> bool" where
  "tm_ok t \<longleftrightarrow> int_fits (tm_year t) \<and> tm_mon t < 12 \<and> tm_mday t \<le> 31 \<and> tm_hour t < 24 \<and> tm_min t < 60 \<and> tm_sec t \<le> 60"

text \<open>A time stamp fits its buffer and has no character that is special in the list of snapshots.\<close>

lemma fmt_02_digits: "n < 100 \<Longrightarrow> c \<in> set (fmt_02 n) \<Longrightarrow> is_digit c"
  using digit_char(1)[of "n div 10"] digit_char(1)[of "n mod 10"] by (auto simp: fmt_02_def)

lemma length_fmt_02 [simp]: "length (fmt_02 n) = 2"
  by (simp add: fmt_02_def)

lemma timestamp_ok:
  assumes "tm_ok t"
  shows "\<exists>ts. current_timestamp t TIMESTAMP_BUFSIZE = Some ts \<and> length ts \<le> 31 \<and> set ts \<inter> {0, newline, bar} = {}"
proof -
  have year: "nat \<bar>tm_year t + 1900\<bar> < 10 ^ 10"
    using assms by (auto simp: tm_ok_def int_fits_def)
  let ?s = "fmt_d (tm_year t + 1900) @ [45] @ fmt_02 (tm_mon t + 1) @ [45] @ fmt_02 (tm_mday t) @ [32] @
              fmt_02 (tm_hour t) @ [58] @ fmt_02 (tm_min t) @ [58] @ fmt_02 (tm_sec t)"
  have len: "length ?s \<le> 26"
    using length_dec_digits[OF _ year] by (cases "tm_year t + 1900 < 0") (simp_all add: fmt_d_def)
  have "is_digit c \<or> c \<in> {45, 32, 58}" if "c \<in> set ?s" for c
    using that assms by (auto simp: fmt_d_def tm_ok_def dest: dec_digits_are_digits fmt_02_digits[rotated] split: if_splits)
  moreover have "c \<notin> {0, newline, bar}" if "is_digit c \<or> c \<in> {45, 32, 58}" for c
    using that by (auto simp: is_digit_def)
  ultimately have "set ?s \<inter> {0, newline, bar} = {}" by blast
  with len show ?thesis
    unfolding current_timestamp_def Let_def by auto
qed

text \<open>Everything can be opened and allocated, the clock gives a time, and the answers of a copy make
  progress and suffice for a file of \<open>n\<close> bytes.\<close>

definition os_good :: "snap_os \<Rightarrow> nat \<Rightarrow> bool" where
  "os_good os n \<longleftrightarrow> (\<forall>p. can_read os p \<and> can_write os p) \<and> mkdir_ok os \<and> calloc_ok os \<and> realloc_ok os
     \<and> tm_ok (clock os)
     \<and> list_all (\<lambda>w. 1 \<le> w) (copy_io os) \<and> 2 * n < length (copy_io os)"

lemma fmt_04d_digits: "0 \<le> i \<Longrightarrow> fmt_04d i \<noteq> [] \<and> is_digit (hd (fmt_04d i))"
proof -
  assume i: "0 \<le> i"
  obtain c ds where c: "dec_digits (nat \<bar>i\<bar>) = c # ds" "is_digit c"
    by (rule first_digit) blast
  then show ?thesis
    using i by (cases "4 - length (dec_digits (nat \<bar>i\<bar>))") (auto simp: fmt_04d_def Let_def is_digit_def)
qed

text \<open>The files of a store have different paths.\<close>

lemma store_paths:
  assumes "length store < 4000" "0 \<le> i" "i < 2 ^ 31"
  shows "snap_path store i \<noteq> list_path store" "snap_path store i \<noteq> next_id_path store" "list_path store \<noteq> next_id_path store"
proof -
  have len: "length (dec_digits (nat \<bar>i\<bar>)) \<le> 10"
    using assms(2,3) by (intro length_dec_digits) (simp_all add: nat_less_iff)
  have p: "snap_path store i = store @ bytes_of_string ''/'' @ fmt_04d i @ bytes_of_string ''.img''"
    "list_path store = store @ bytes_of_string ''/list.txt''" "next_id_path store = store @ bytes_of_string ''/next_id''"
    using assms len by (simp_all add: snap_path_def list_path_def next_id_path_def path_buf_def bytes_of_string_def fmt_04d_def Let_def)
  obtain c ds where c: "fmt_04d i = c # ds" "is_digit c"
    using fmt_04d_digits[OF assms(2)] by (cases "fmt_04d i") auto
  show "snap_path store i \<noteq> list_path store" "snap_path store i \<noteq> next_id_path store" "list_path store \<noteq> next_id_path store"
    using c by (auto simp: p bytes_of_string_def is_digit_def)
qed

lemma copy_file_good:
  assumes "os_good os n" "sf_files fs src = Some bytes" "length bytes \<le> n" "src \<noteq> dst"
  shows "copy_file os fs src dst = Some (fs\<lparr>sf_files := (sf_files fs)(dst \<mapsto> bytes)\<rparr>, True)"
  using assms copy_loop_ends[of "copy_io os" bytes "[]" "[]"]
  by (simp add: copy_file_def os_good_def fopen_r_def Let_def)

lemma find_id_some: "m \<in> set items \<Longrightarrow> \<exists>idx. find_id items (m_id m) = Some idx"
  by (induction items) auto

definition create_args :: "cstr \<Rightarrow> cstr \<Rightarrow> cstr \<Rightarrow> cstr list" where
  "create_args img store desc = [bytes_of_string ''--image'', img, bytes_of_string ''--store'', store, bytes_of_string ''create'', desc]"

definition rollback_args :: "cstr \<Rightarrow> cstr \<Rightarrow> int \<Rightarrow> cstr list" where
  "rollback_args img store i = [bytes_of_string ''--image'', img, bytes_of_string ''--store'', store, bytes_of_string ''rollback'', fmt_d i]"

lemma parse_create_args:
  "parse_args (create_args img store desc) no_args =
     Some \<lparr>a_image = Some img, a_store = Some store, a_cmd = Some (bytes_of_string ''create''), a_desc = Some desc, a_id = - 1\<rparr>"
  by (simp add: create_args_def no_args_def bytes_of_string_def)

lemma parse_rollback_args:
  "int_fits i \<Longrightarrow> parse_args (rollback_args img store i) no_args =
     Some \<lparr>a_image = Some img, a_store = Some store, a_cmd = Some (bytes_of_string ''rollback''), a_desc = None, a_id = i\<rparr>"
  by (simp add: rollback_args_def no_args_def bytes_of_string_def atoi_fmt_d)

text \<open>The file system after a snapshot was made.\<close>

definition snapshot_taken :: "snap_os \<Rightarrow> snap_fs \<Rightarrow> cstr \<Rightarrow> int \<Rightarrow> u8 list \<Rightarrow> SnapshotMeta list \<Rightarrow> snap_fs" where
  "snapshot_taken os fs store i bytes items =
     fs\<lparr>sf_files := (sf_files fs)(snap_path store i \<mapsto> bytes, list_path store \<mapsto> concat (map meta_line items),
          next_id_path store \<mapsto> fmt_d (i + 1) @ [newline])\<rparr>"

lemma cmd_create_good:
  assumes os: "os_good os n" and img: "sf_files fs img = Some bytes" "length bytes \<le> n" "img \<noteq> snap_path store i"
    and i: "read_next_id os fs store = Some i" "0 \<le> i" "i + 1 < 2 ^ 31" and store: "length store < 4000"
    and items: "load_metadata os fs store = Some items" and ts: "current_timestamp (clock os) TIMESTAMP_BUFSIZE = Some ts"
  shows "\<exists>out. cmd_create os fs img store (Some desc) =
     Some (snapshot_taken os fs store i bytes (items @ [\<lparr>m_id = i, m_timestamp = ts, m_desc = take 255 desc\<rparr>]), out, 0)"
proof -
  note paths = store_paths[OF store i(2)]
  let ?fs = "fs\<lparr>sf_files := (sf_files fs)(snap_path store i \<mapsto> bytes)\<rparr>"
  have "load_metadata os ?fs store = Some items"
    using items paths(1) i(3) by (cases "can_read os (list_path store)") (simp_all add: load_metadata_def fopen_r_def)
  moreover have "int_fits (i + 1)"
    using i(2,3) by (simp add: int_fits_def)
  ultimately show ?thesis
    using os i(1) ts copy_file_good[OF os img]
    by (simp add: cmd_create_def snapshot_taken_def save_metadata_def write_next_id_def fwrite_all_def os_good_def Let_def)
qed

text \<open>C17: After \<open>create\<close> has made a snapshot of an image, whatever is then written to the image,
  \<open>rollback\<close> with the number of that snapshot succeeds and gives the image the bytes it had when the
  snapshot was made. Both commands run through the whole program, from the command line on, in a store that
  holds fewer than 4096 snapshots.\<close>

theorem rollback_restores_image:
  assumes "os_good os (length bytes)" "sf_files fs img = Some bytes"
    and "img \<notin> {snap_path store i, list_path store, next_id_path store}"
    and "length store < 4000" "sf_dirs fs store"
    and "read_next_id os fs store = Some i" "0 \<le> i" "i + 1 < 2 ^ 31"
    and "load_metadata os fs store = Some items" "list_all meta_ok items" "length items < MAX_ITEMS"
    and "set desc \<inter> {0, newline} = {}"
  shows "\<exists>fs1 out1. snapper_main os fs (create_args img store desc) = Some (fs1, out1, 0)
     \<and> (\<forall>changed. \<exists>fs2 out2.
          snapper_main os (fs1\<lparr>sf_files := (sf_files fs1)(img \<mapsto> changed)\<rparr>) (rollback_args img store i) = Some (fs2, out2, 0)
          \<and> sf_files fs2 img = Some bytes)"
proof -
  have buf: "path_buf store = store"
    using assms(4) by (simp add: path_buf_def)
  obtain ts where ts: "current_timestamp (clock os) TIMESTAMP_BUFSIZE = Some ts" "length ts \<le> 31" "set ts \<inter> {0, newline, bar} = {}"
    using timestamp_ok[of "clock os"] assms(1) by (auto simp: os_good_def)
  let ?m = "\<lparr>m_id = i, m_timestamp = ts, m_desc = take 255 desc\<rparr>"
  let ?fs1 = "snapshot_taken os fs store i bytes (items @ [?m])"
  obtain out1 where "cmd_create os fs img store (Some desc) = Some (?fs1, out1, 0)"
    using cmd_create_good[OF assms(1,2) order_refl _ assms(6-8,4,9) ts(1), of desc] assms(3) by auto
  then have create: "snapper_main os fs (create_args img store desc) = Some (?fs1, out1, 0)"
    using assms(5) by (simp add: snapper_main_def parse_create_args buf ensure_dir_def) (simp add: create_args_def)
  have "\<exists>fs2 out2. snapper_main os (?fs1\<lparr>sf_files := (sf_files ?fs1)(img \<mapsto> changed)\<rparr>) (rollback_args img store i) = Some (fs2, out2, 0)
          \<and> sf_files fs2 img = Some bytes" for changed
  proof -
    let ?fs = "?fs1\<lparr>sf_files := (sf_files ?fs1)(img \<mapsto> changed)\<rparr>"
    note paths = store_paths[OF assms(4,7)]
    have neq: "list_path store \<noteq> img" "snap_path store i \<noteq> img"
      using assms(3) by auto
    have fits: "int_fits i"
      using assms(7,8) by (simp add: int_fits_def)
    have "meta_ok ?m"
      using assms(12) fits ts(2,3) by (auto simp: meta_ok_def dest: in_set_takeD)
    then have "load_loop (concat (map meta_line (items @ [?m]))) 0 = Some (items @ [?m])"
      using assms(10,11) by (intro load_loop_saved) simp_all
    then have load: "load_metadata os ?fs store = Some (items @ [?m])"
      using assms(1,8) neq paths by (simp add: load_metadata_def fopen_r_def os_good_def snapshot_taken_def)
    obtain idx where idx: "find_id (items @ [?m]) i = Some idx"
      using find_id_some[of ?m "items @ [?m]"] by auto
    have "sf_files ?fs (snap_path store i) = Some bytes"
      using assms(8) neq paths by (simp add: snapshot_taken_def)
    from copy_file_good[OF assms(1) this order_refl neq(2)]
    have "copy_file os ?fs (snap_path store i) img = Some (?fs\<lparr>sf_files := (sf_files ?fs)(img \<mapsto> bytes)\<rparr>, True)"
      by simp
    then have "\<exists>fs2 out2. cmd_rollback os ?fs img store i = Some (fs2, out2, 0) \<and> sf_files fs2 img = Some bytes"
      by (simp add: cmd_rollback_def)
    moreover have "sf_dirs ?fs store"
      using assms(5) by (simp add: snapshot_taken_def)
    ultimately show ?thesis
      using load idx assms(7)
      by (simp add: snapper_main_def parse_rollback_args[OF fits] buf ensure_dir_def)
        (simp add: rollback_args_def bytes_of_string_def)
  qed
  with create show ?thesis by blast
qed

definition demo_fs :: snap_fs where
  "demo_fs = \<lparr>sf_files = (\<lambda>p. if p = [105] then Some [7, 8] else None), sf_dirs = (\<lambda>p. p = [115])\<rparr>"

theorem rollback_restores_image_witness:
  "\<exists>fs1 out1. snapper_main demo_os demo_fs (create_args [105] [115] (bytes_of_string ''before'')) = Some (fs1, out1, 0)
     \<and> (\<exists>fs2 out2. snapper_main demo_os (fs1\<lparr>sf_files := (sf_files fs1)([105] \<mapsto> [])\<rparr>) (rollback_args [105] [115] 1) = Some (fs2, out2, 0)
          \<and> sf_files fs2 [105] = Some [7, 8])"
proof -
  have paths: "length (snap_path [115] 1) = 10" "length (list_path [115]) = 10" "length (next_id_path [115]) = 9"
    by (simp_all add: snap_path_def list_path_def next_id_path_def path_buf_def bytes_of_string_def fmt_04d_def Let_def
        dec_digits.simps[of "Suc 0"])
  then have neq: "[105] \<notin> {snap_path [115] 1, list_path [115], next_id_path [115]}"
    by (auto dest!: arg_cong[where f = length])
  then have files: "sf_files demo_fs (list_path [115]) = None" "sf_files demo_fs (next_id_path [115]) = None"
    by (auto simp: demo_fs_def)
  have good: "os_good demo_os (length [7, 8 :: u8])"
    by (simp add: os_good_def demo_os_def tm_ok_def int_fits_def)
  have load: "load_metadata demo_os demo_fs [115] = Some []" "read_next_id demo_os demo_fs [115] = Some 1"
    using files by (simp_all add: load_metadata_def read_next_id_def fopen_r_def)
  have start: "sf_files demo_fs [105] = Some [7, 8]" "sf_dirs demo_fs [115]"
    by (simp_all add: demo_fs_def)
  have desc: "set (bytes_of_string ''before'') \<inter> {0, newline} = {}"
    by (simp add: bytes_of_string_def)
  obtain fs1 out1 where "snapper_main demo_os demo_fs (create_args [105] [115] (bytes_of_string ''before'')) = Some (fs1, out1, 0)"
    "\<forall>changed. \<exists>fs2 out2. snapper_main demo_os (fs1\<lparr>sf_files := (sf_files fs1)([105] \<mapsto> changed)\<rparr>) (rollback_args [105] [115] 1) = Some (fs2, out2, 0)
          \<and> sf_files fs2 [105] = Some [7, 8]"
    using rollback_restores_image[OF good start(1) neq _ start(2) load(2) _ _ load(1) _ _ desc] by auto
  then show ?thesis by blast
qed

end
