(* ===== verification/Config.thy ===== *)
theory Config
  imports Core_Types
begin

text \<open>
  The configuration reader \<^verbatim>\<open>idkfs_config.c\<close>: feature flags, the rules that assign a tier to file names
  by pattern, and the name of the sorting algorithm, taken from a JavaScript object.

  The JavaScript engine (QuickJS) and \<open>fnmatch\<close> are not part of the sources. The engine is an argument, a
  record of the functions that the code calls, over a type of values; so is the matcher. Freeing of
  values and the messages are left out. \<open>None\<close> is an access outside of the array of rules.
\<close>

abbreviation (input) IDKFS_MAX_TIER_RULES :: nat where "IDKFS_MAX_TIER_RULES \<equiv> 64"

record TierRule =
  pattern :: mem
  tier :: SpeedTier

record IDKFSConfig =
  cfg_features :: FeatureFlags
  tier_rules :: "TierRule list"
  tier_rule_count :: nat
  default_tier :: SpeedTier
  cfg_sorting :: mem
  loaded :: bool

text \<open>\<open>ADD_RULE\<close>: the rules are put one after the other from the start of the array.\<close>

definition add_rule :: "IDKFSConfig \<Rightarrow> cstr \<Rightarrow> SpeedTier \<Rightarrow> IDKFSConfig option" where
  "add_rule cfg pat t =
     (let n = tier_rule_count cfg in
      if n < length (tier_rules cfg)
      then Some (cfg\<lparr>tier_rules := (tier_rules cfg)[n := \<lparr>pattern = strncpy (pattern (tier_rules cfg ! n)) pat 127, tier = t\<rparr>],
                     tier_rule_count := n + 1\<rparr>)
      else None)"

fun add_rules :: "IDKFSConfig \<Rightarrow> (cstr \<times> SpeedTier) list \<Rightarrow> IDKFSConfig option" where
  "add_rules cfg [] = Some cfg"
| "add_rules cfg ((p, t) # rs) = do { cfg \<leftarrow> add_rule cfg p t; add_rules cfg rs }"

definition default_rules :: "(cstr \<times> SpeedTier) list" where
  "default_rules =
     map (\<lambda>p. (bytes_of_string p, TIER_FAST)) [''*.so'', ''*.so.*'', ''*.bin'', ''*.o'', ''*.exe''] @
     map (\<lambda>p. (bytes_of_string p, TIER_SLOW)) [''*.iso'', ''*.tar'', ''*.tar.*'', ''*.zip'', ''*.zst'', ''*.gz'', ''*.bz2'']"

definition config_defaults :: "IDKFSConfig \<Rightarrow> IDKFSConfig option" where
  "config_defaults cfg =
     add_rules (cfg\<lparr>cfg_features := features_default, default_tier := TIER_NORMAL, loaded := False,
                    cfg_sorting := strncpy (cfg_sorting cfg) (bytes_of_string ''btree'') 31, tier_rule_count := 0\<rparr>)
       default_rules"

text \<open>The static \<open>g_config\<close>, all zero.\<close>

definition g_config :: IDKFSConfig where
  "g_config = \<lparr>cfg_features = features_ludicrous_speed,
     tier_rules = replicate IDKFS_MAX_TIER_RULES \<lparr>pattern = zeros, tier = TIER_FAST\<rparr>, tier_rule_count = 0,
     default_tier = TIER_FAST, cfg_sorting = zeros, loaded = False\<rparr>"

text \<open>The loop of \<open>config_get_tier\<close>, over the rules in use.\<close>

fun tier_loop :: "(cstr \<Rightarrow> cstr \<Rightarrow> bool) \<Rightarrow> TierRule list \<Rightarrow> cstr \<Rightarrow> SpeedTier \<Rightarrow> SpeedTier" where
  "tier_loop fnm [] filename d = d"
| "tier_loop fnm (r # rs) filename d =
     (if fnm (cstring (pattern r) 128) filename then tier r else tier_loop fnm rs filename d)"

definition config_get_tier :: "(cstr \<Rightarrow> cstr \<Rightarrow> bool) \<Rightarrow> IDKFSConfig \<Rightarrow> cstr \<Rightarrow> SpeedTier option" where
  "config_get_tier fnm cfg filename =
     (if tier_rule_count cfg \<le> length (tier_rules cfg)
      then Some (tier_loop fnm (take (tier_rule_count cfg) (tier_rules cfg)) filename (default_tier cfg))
      else None)"

section \<open>Reading the object\<close>

record 'v js_engine =
  get_prop :: "'v \<Rightarrow> cstr \<Rightarrow> 'v"
  get_item :: "'v \<Rightarrow> nat \<Rightarrow> 'v"
  is_undefined :: "'v \<Rightarrow> bool"
  is_exception :: "'v \<Rightarrow> bool"
  is_object :: "'v \<Rightarrow> bool"
  is_array :: "'v \<Rightarrow> bool"
  to_bool :: "'v \<Rightarrow> bool"
  to_int32 :: "'v \<Rightarrow> int"
  to_cstring :: "'v \<Rightarrow> cstr option"
  undef :: 'v

definition absent :: "'v js_engine \<Rightarrow> 'v \<Rightarrow> bool" where
  "absent js v \<longleftrightarrow> is_undefined js v \<or> is_exception js v"

definition js_get_bool :: "'v js_engine \<Rightarrow> 'v \<Rightarrow> string \<Rightarrow> bool \<Rightarrow> bool" where
  "js_get_bool js obj key fallback =
     (let v = get_prop js obj (bytes_of_string key) in if absent js v then fallback else to_bool js v)"

definition js_get_str :: "'v js_engine \<Rightarrow> 'v \<Rightarrow> string \<Rightarrow> mem \<Rightarrow> nat \<Rightarrow> mem" where
  "js_get_str js obj key buf maxlen =
     (let v = get_prop js obj (bytes_of_string key) in
      if absent js v then buf
      else case to_cstring js v of None \<Rightarrow> buf | Some s \<Rightarrow> strncpy buf s (maxlen - 1))"

definition parse_disable :: "'v js_engine \<Rightarrow> 'v \<Rightarrow> FeatureFlags \<Rightarrow> FeatureFlags" where
  "parse_disable js root f =
     (let dis = get_prop js root (bytes_of_string ''disable'') in
      if absent js dis then f
      else \<lparr>journaling = \<not> js_get_bool js dis ''journaling'' (\<not> journaling f),
            checksums = \<not> js_get_bool js dis ''checksums'' (\<not> checksums f),
            timestamps = \<not> js_get_bool js dis ''timestamps'' (\<not> timestamps f),
            compression = \<not> js_get_bool js dis ''compression'' (\<not> compression f),
            encryption = \<not> js_get_bool js dis ''encryption'' (\<not> encryption f),
            dedup = \<not> js_get_bool js dis ''dedup'' (\<not> dedup f),
            prefetch = \<not> js_get_bool js dis ''prefetch'' (\<not> prefetch f),
            lua_hooks = \<not> js_get_bool js dis ''lua_hooks'' (\<not> lua_hooks f),
            sorting = \<not> js_get_bool js dis ''sorting'' (\<not> sorting f)\<rparr>)"

text \<open>The inner loop of \<open>parse_speed_tiers\<close>: the items from \<open>i\<close> on, of which there are \<open>len\<close>.\<close>

function item_loop :: "'v js_engine \<Rightarrow> 'v \<Rightarrow> SpeedTier \<Rightarrow> int \<Rightarrow> int \<Rightarrow> IDKFSConfig \<Rightarrow> IDKFSConfig option" where
  "item_loop js arr t len i cfg =
     (if i < len \<and> tier_rule_count cfg < IDKFS_MAX_TIER_RULES
      then do {
        cfg \<leftarrow> (case to_cstring js (get_item js arr (nat i)) of
                  Some s \<Rightarrow> add_rule cfg s t
                | None \<Rightarrow> Some cfg);
        item_loop js arr t len (i + 1) cfg }
      else Some cfg)"
  by auto
termination by (relation "measure (\<lambda>(_, _, _, len, i, _). nat (len - i))") auto

definition parse_tier :: "'v js_engine \<Rightarrow> 'v \<Rightarrow> string \<Rightarrow> SpeedTier \<Rightarrow> IDKFSConfig \<Rightarrow> IDKFSConfig option" where
  "parse_tier js st key t cfg =
     (let arr = get_prop js st (bytes_of_string key) in
      if is_undefined js arr \<or> \<not> is_array js arr then Some cfg
      else item_loop js arr t (to_int32 js (get_prop js arr (bytes_of_string ''length''))) 0 cfg)"

definition parse_speed_tiers :: "'v js_engine \<Rightarrow> 'v \<Rightarrow> IDKFSConfig \<Rightarrow> IDKFSConfig option" where
  "parse_speed_tiers js root cfg =
     (let st = get_prop js root (bytes_of_string ''speed_tier'') in
      if absent js st then Some cfg
      else do {
        cfg \<leftarrow> parse_tier js st ''fast'' TIER_FAST (cfg\<lparr>tier_rule_count := 0\<rparr>);
        cfg \<leftarrow> parse_tier js st ''normal'' TIER_NORMAL cfg;
        parse_tier js st ''slow'' TIER_SLOW cfg })"

definition parse_sorting :: "'v js_engine \<Rightarrow> 'v \<Rightarrow> IDKFSConfig \<Rightarrow> IDKFSConfig" where
  "parse_sorting js root cfg =
     (let s = get_prop js root (bytes_of_string ''sorting'') in
      if absent js s then cfg
      else if is_object js s then cfg\<lparr>cfg_sorting := js_get_str js s ''algorithm'' (cfg_sorting cfg) 32\<rparr>
      else cfg)"

text \<open>What the engine and the file system answer: whether the file can be opened and read, whether the
  script runs without an exception, and its global object.\<close>

record 'v config_source =
  cfg_exists :: bool
  cfg_read_ok :: bool
  cfg_eval_ok :: bool
  cfg_global :: 'v

definition config_object :: "'v js_engine \<Rightarrow> 'v \<Rightarrow> 'v" where
  "config_object js global =
     (let c = get_prop js global (bytes_of_string ''config'');
          c = (if is_exception js c then undef js else c)
      in if is_undefined js c
         then (let d = get_prop js global (bytes_of_string ''default'') in if is_exception js d then undef js else d)
         else c)"

definition idkfs_config_load :: "'v js_engine \<Rightarrow> 'v config_source \<Rightarrow> IDKFSConfig \<Rightarrow> (IDKFSConfig \<times> int) option" where
  "idkfs_config_load js src cfg = do {
     cfg \<leftarrow> config_defaults cfg;
     if \<not> cfg_exists src then Some (cfg, 0)
     else if \<not> cfg_read_ok src then Some (cfg, - 1)
     else if \<not> cfg_eval_ok src then Some (cfg, - 1)
     else let obj = config_object js (cfg_global src) in
       if \<not> is_object js obj then Some (cfg, - 1)
       else do {
         cfg \<leftarrow> parse_speed_tiers js obj (cfg\<lparr>cfg_features := parse_disable js obj (cfg_features cfg)\<rparr>);
         Some ((parse_sorting js obj cfg)\<lparr>loaded := True\<rparr>, 0) } }"

section \<open>Printing\<close>

text \<open>The text that \<open>idkfs_config_print\<close> prints. A \<open>%s\<close> on a \<open>char\<close> array without a terminating NUL would read
  on behind the array.\<close>

definition char_array :: "mem \<Rightarrow> nat \<Rightarrow> cstr option" where
  "char_array m n = (if 0 \<in> set (bytes_of m 0 n) then Some (cstring m n) else None)"

fun tier_name :: "SpeedTier \<Rightarrow> cstr" where
  "tier_name TIER_FAST = bytes_of_string ''FAST''"
| "tier_name TIER_NORMAL = bytes_of_string ''NORMAL''"
| "tier_name TIER_SLOW = bytes_of_string ''SLOW''"

definition fmt_flag :: "string \<Rightarrow> bool \<Rightarrow> cstr" where
  "fmt_flag name b = bytes_of_string name @ bytes_of_string ''='' @ fmt_d (of_bool b)"

text \<open>\<open>%-20s\<close>, and the arrow between a pattern and its tier in UTF-8.\<close>

definition pad_20 :: "cstr \<Rightarrow> cstr" where
  "pad_20 s = s @ replicate (20 - length s) 32"

definition rule_line :: "cstr \<Rightarrow> SpeedTier \<Rightarrow> cstr" where
  "rule_line p t = bytes_of_string ''    '' @ pad_20 p @ [32, 0xE2, 0x86, 0x92, 32] @ tier_name t @ [10]"

fun rules_text :: "TierRule list \<Rightarrow> cstr option" where
  "rules_text [] = Some []"
| "rules_text (r # rs) = do {
     p \<leftarrow> char_array (pattern r) 128;
     rest \<leftarrow> rules_text rs;
     Some (rule_line p (tier r) @ rest) }"

definition options_text :: "cstr \<Rightarrow> IDKFSConfig \<Rightarrow> cstr" where
  "options_text srt cfg =
     (let f = cfg_features cfg; sep = bytes_of_string ''  ''; ind = bytes_of_string ''    ''; nl = [10] in
      bytes_of_string ''=== idkfs config ==='' @ nl @
      bytes_of_string ''  loaded:      '' @ bytes_of_string (if loaded cfg then ''yes'' else ''no (defaults)'') @ nl @
      bytes_of_string ''  sorting:     '' @ srt @ nl @
      bytes_of_string ''  default_tier: '' @ tier_name (default_tier cfg) @ nl @
      bytes_of_string ''  features:'' @ nl @
      ind @ fmt_flag ''journaling'' (journaling f) @ sep @ fmt_flag ''checksums'' (checksums f) @ sep @
        fmt_flag ''timestamps'' (timestamps f) @ nl @
      ind @ fmt_flag ''compression'' (compression f) @ sep @ fmt_flag ''encryption'' (encryption f) @ sep @
        fmt_flag ''dedup'' (dedup f) @ nl @
      ind @ fmt_flag ''prefetch'' (prefetch f) @ sep @ fmt_flag ''lua_hooks'' (lua_hooks f) @ sep @
        fmt_flag ''sorting'' (sorting f) @ nl @
      bytes_of_string ''  tier rules ('' @ fmt_d (int (tier_rule_count cfg)) @ bytes_of_string ''):'' @ nl)"

definition idkfs_config_print :: "IDKFSConfig \<Rightarrow> cstr option" where
  "idkfs_config_print cfg = do {
     srt \<leftarrow> char_array (cfg_sorting cfg) 32;
     rules \<leftarrow> (if tier_rule_count cfg \<le> length (tier_rules cfg)
               then rules_text (take (tier_rule_count cfg) (tier_rules cfg)) else None);
     Some (options_text srt cfg @ rules) }"

end
