(* ===== verification/Config_Proofs.thy ===== *)
theory Config_Proofs
  imports Config
begin

text \<open>
  Properties of the configuration reader: it never leaves the array of 64 rules, and the tier of a file
  name is the one of the first pattern of the configuration that matches.
\<close>

declare item_loop.simps [simp del]

section \<open>Rules\<close>

definition cfg_ok :: "IDKFSConfig \<Rightarrow> bool" where
  "cfg_ok cfg \<longleftrightarrow> length (tier_rules cfg) = IDKFS_MAX_TIER_RULES \<and> tier_rule_count cfg \<le> IDKFS_MAX_TIER_RULES
     \<and> (\<forall>r \<in> set (tier_rules cfg). pattern r 127 = 0) \<and> cfg_sorting cfg 31 = 0"

definition rules_of :: "IDKFSConfig \<Rightarrow> (cstr \<times> SpeedTier) list" where
  "rules_of cfg = map (\<lambda>r. (cstring (pattern r) 128, tier r)) (take (tier_rule_count cfg) (tier_rules cfg))"

text \<open>Everything but the rules.\<close>

definition same_options :: "IDKFSConfig \<Rightarrow> IDKFSConfig \<Rightarrow> bool" where
  "same_options cfg cfg' \<longleftrightarrow> cfg_features cfg' = cfg_features cfg \<and> default_tier cfg' = default_tier cfg
     \<and> cfg_sorting cfg' = cfg_sorting cfg \<and> loaded cfg' = loaded cfg"

lemma cstring_pattern: "d 127 = 0 \<Longrightarrow> nul_free s \<Longrightarrow> cstring (strncpy d s 127) 128 = take 127 s"
proof -
  assume d: "d 127 = 0" and s: "nul_free s"
  have b: "bytes_of (strncpy d s 127) 0 128 = bytes_of (strncpy d s 127) 0 127 @ [0]"
  proof (rule nth_equalityI)
    fix i assume i: "i < length (bytes_of (strncpy d s 127) 0 128)"
    show "bytes_of (strncpy d s 127) 0 128 ! i = (bytes_of (strncpy d s 127) 0 127 @ [0]) ! i"
    proof (cases "i < 127")
      case False
      with i have "i = 127" by simp
      then show ?thesis using d by (simp add: nth_append strncpy_def)
    qed (simp add: nth_append)
  qed simp
  have "cstring (strncpy d s 127) 128 = cstring (strncpy d s 127) 127"
    unfolding cstring_def b by (simp add: takeWhile_tail)
  then show ?thesis
    by (simp add: cstring_strncpy s)
qed

lemma add_rule_ok:
  assumes "cfg_ok cfg" "tier_rule_count cfg < IDKFS_MAX_TIER_RULES"
  shows "\<exists>cfg'. add_rule cfg p t = Some cfg' \<and> cfg_ok cfg' \<and> same_options cfg cfg'
     \<and> tier_rule_count cfg' = Suc (tier_rule_count cfg) \<and> (nul_free p \<longrightarrow> rules_of cfg' = rules_of cfg @ [(take 127 p, t)])"
proof -
  let ?n = "tier_rule_count cfg"
  let ?r = "\<lparr>pattern = strncpy (pattern (tier_rules cfg ! ?n)) p 127, tier = t\<rparr>"
  let ?cfg = "cfg\<lparr>tier_rules := (tier_rules cfg)[?n := ?r], tier_rule_count := ?n + 1\<rparr>"
  have n: "?n < length (tier_rules cfg)" and d: "pattern (tier_rules cfg ! ?n) 127 = 0"
    using assms by (simp_all add: cfg_ok_def)
  have "add_rule cfg p t = Some ?cfg"
    using n by (simp add: add_rule_def Let_def)
  moreover have "cfg_ok ?cfg"
  proof -
    have "set ((tier_rules cfg)[?n := ?r]) \<subseteq> insert ?r (set (tier_rules cfg))"
      by (rule set_update_subset_insert)
    moreover have "pattern ?r 127 = 0"
      using d by (simp add: strncpy_def)
    ultimately show ?thesis
      using assms by (auto simp: cfg_ok_def)
  qed
  moreover have "rules_of ?cfg = rules_of cfg @ [(take 127 p, t)]" if "nul_free p"
    using n that d by (simp add: rules_of_def take_Suc_conv_app_nth cstring_pattern)
  ultimately show ?thesis
    by (simp add: same_options_def)
qed

lemma add_rules_ok:
  assumes "cfg_ok cfg" "tier_rule_count cfg + length rs \<le> IDKFS_MAX_TIER_RULES"
  shows "\<exists>cfg'. add_rules cfg rs = Some cfg' \<and> cfg_ok cfg' \<and> same_options cfg cfg'
     \<and> tier_rule_count cfg' = tier_rule_count cfg + length rs"
  using assms
proof (induction rs arbitrary: cfg)
  case Nil
  then show ?case by (simp add: same_options_def)
next
  case (Cons r rs)
  obtain p t where r: "r = (p, t)" by fastforce
  obtain c where "add_rule cfg p t = Some c" "cfg_ok c" "same_options cfg c" "tier_rule_count c = Suc (tier_rule_count cfg)"
    using add_rule_ok[OF Cons.prems(1), of p t] Cons.prems(2) by auto
  with Cons.IH[of c] Cons.prems(2) r show ?case
    by (auto simp: same_options_def)
qed

lemma config_defaults_ok:
  assumes "cfg_ok cfg"
  shows "\<exists>cfg'. config_defaults cfg = Some cfg' \<and> cfg_ok cfg' \<and> default_tier cfg' = TIER_NORMAL
     \<and> cfg_features cfg' = features_default"
proof -
  let ?c = "cfg\<lparr>cfg_features := features_default, default_tier := TIER_NORMAL, loaded := False,
                 cfg_sorting := strncpy (cfg_sorting cfg) (bytes_of_string ''btree'') 31, tier_rule_count := 0\<rparr>"
  have "cfg_ok ?c"
    using assms by (simp add: cfg_ok_def strncpy_def)
  from add_rules_ok[OF this, of default_rules] show ?thesis
    by (auto simp: config_defaults_def same_options_def default_rules_def)
qed

lemma tier_loop_map:
  "tier_loop fnm rs name d = (case find (\<lambda>(p, t). fnm p name) (map (\<lambda>r. (cstring (pattern r) 128, tier r)) rs) of
     None \<Rightarrow> d | Some (p, t) \<Rightarrow> t)"
  by (induction rs) auto

lemma get_tier_find:
  "cfg_ok cfg \<Longrightarrow> config_get_tier fnm cfg name =
     Some (case find (\<lambda>(p, t). fnm p name) (rules_of cfg) of None \<Rightarrow> default_tier cfg | Some (p, t) \<Rightarrow> t)"
  by (simp add: config_get_tier_def cfg_ok_def tier_loop_map rules_of_def)

section \<open>Reading the tiers\<close>

lemma item_loop_ok:
  assumes "cfg_ok cfg"
  shows "\<exists>cfg'. item_loop js arr t len i cfg = Some cfg' \<and> cfg_ok cfg' \<and> same_options cfg cfg'"
  using assms
proof (induction js arr t len i cfg rule: item_loop.induct)
  case (1 js arr t len i cfg)
  show ?case
  proof (cases "i < len \<and> tier_rule_count cfg < IDKFS_MAX_TIER_RULES")
    case True
    obtain c where c: "(case to_cstring js (get_item js arr (nat i)) of Some s \<Rightarrow> add_rule cfg s t | None \<Rightarrow> Some cfg) = Some c"
      "cfg_ok c" "same_options cfg c"
      using add_rule_ok[OF 1(2), of _ t] True 1(2) by (cases "to_cstring js (get_item js arr (nat i))") (auto simp: same_options_def)
    then have "item_loop js arr t len i cfg = item_loop js arr t len (i + 1) c"
      using True by (subst item_loop.simps) simp
    with 1(1)[OF True c(1,2)] c(3) show ?thesis
      by (auto simp: same_options_def)
  next
    case False
    then have "item_loop js arr t len i cfg = Some cfg"
      by (subst item_loop.simps) (rule if_not_P)
    with 1(2) show ?thesis
      by (simp add: same_options_def)
  qed
qed

text \<open>The property \<open>key\<close> of the object \<open>st\<close> is an array of the strings \<open>ps\<close>.\<close>

definition lists_strings :: "'v js_engine \<Rightarrow> 'v \<Rightarrow> string \<Rightarrow> cstr list \<Rightarrow> bool" where
  "lists_strings js st key ps \<longleftrightarrow>
     (let arr = get_prop js st (bytes_of_string key) in
      \<not> is_undefined js arr \<and> is_array js arr \<and> to_int32 js (get_prop js arr (bytes_of_string ''length'')) = int (length ps)
      \<and> (\<forall>i < length ps. to_cstring js (get_item js arr i) = Some (ps ! i) \<and> nul_free (ps ! i)))"

text \<open>The rules that a list of patterns gives: a pattern is cut to the 127 bytes that fit its array.\<close>

definition rules_for :: "SpeedTier \<Rightarrow> cstr list \<Rightarrow> (cstr \<times> SpeedTier) list" where
  "rules_for t ps = map (\<lambda>p. (take 127 p, t)) ps"

lemma rules_for_simps [simp]:
  "length (rules_for t ps) = length ps" "rules_for t [] = []" "rules_for t (p # ps) = (take 127 p, t) # rules_for t ps"
  by (simp_all add: rules_for_def)

text \<open>The loop takes the patterns from \<open>k\<close> on until the array of rules is full.\<close>

lemma item_loop_rules:
  assumes "\<forall>i < length ps. to_cstring js (get_item js arr i) = Some (ps ! i) \<and> nul_free (ps ! i)"
    and "cfg_ok cfg" "k \<le> length ps"
  shows "\<exists>cfg'. item_loop js arr t (int (length ps)) (int k) cfg = Some cfg' \<and> cfg_ok cfg' \<and> same_options cfg cfg'
     \<and> tier_rule_count cfg' = min IDKFS_MAX_TIER_RULES (tier_rule_count cfg + (length ps - k))
     \<and> rules_of cfg' = rules_of cfg @ take (IDKFS_MAX_TIER_RULES - tier_rule_count cfg) (rules_for t (drop k ps))"
  using assms(2,3)
proof (induction "length ps - k" arbitrary: k cfg)
  case 0
  then show ?case by (subst item_loop.simps) (simp add: same_options_def cfg_ok_def)
next
  case (Suc d)
  then have k: "k < length ps" by simp
  show ?case
  proof (cases "tier_rule_count cfg < IDKFS_MAX_TIER_RULES")
    case True
    have p: "to_cstring js (get_item js arr k) = Some (ps ! k)" "nul_free (ps ! k)"
      using assms(1) k by auto
    obtain c where c: "add_rule cfg (ps ! k) t = Some c" "cfg_ok c" "same_options cfg c"
      "tier_rule_count c = Suc (tier_rule_count cfg)" "rules_of c = rules_of cfg @ [(take 127 (ps ! k), t)]"
      using add_rule_ok[OF Suc.prems(1) True, of "ps ! k" t] p by auto
    have "item_loop js arr t (int (length ps)) (int k) cfg = item_loop js arr t (int (length ps)) (int (Suc k)) c"
      using k True p(1) c(1) by (subst item_loop.simps) (simp add: add.commute)
    moreover have "d = length ps - Suc k" "Suc k \<le> length ps"
      using Suc.hyps(2) k by simp_all
    moreover from Suc.hyps(1)[OF this(1) c(2) this(2)]
    obtain c' where "item_loop js arr t (int (length ps)) (int (Suc k)) c = Some c'" "cfg_ok c'" "same_options c c'"
      "tier_rule_count c' = min IDKFS_MAX_TIER_RULES (tier_rule_count c + (length ps - Suc k))"
      "rules_of c' = rules_of c @ take (IDKFS_MAX_TIER_RULES - tier_rule_count c) (rules_for t (drop (Suc k) ps))" by blast
    moreover obtain m where "IDKFS_MAX_TIER_RULES - tier_rule_count cfg = Suc m" "IDKFS_MAX_TIER_RULES - tier_rule_count c = m"
      using True c(4) by (metis Suc_diff_Suc)
    ultimately show ?thesis
      using c k by (simp add: same_options_def Cons_nth_drop_Suc[symmetric])
  next
    case False
    then have "item_loop js arr t (int (length ps)) (int k) cfg = Some cfg"
      by (subst item_loop.simps) simp
    with False Suc.prems(1) show ?thesis
      by (simp add: same_options_def cfg_ok_def)
  qed
qed

lemma parse_tier_ok: "cfg_ok cfg \<Longrightarrow> \<exists>cfg'. parse_tier js st key t cfg = Some cfg' \<and> cfg_ok cfg' \<and> same_options cfg cfg'"
  using item_loop_ok by (auto simp: parse_tier_def Let_def same_options_def)

lemma parse_tier_rules:
  assumes "lists_strings js st key ps" "cfg_ok cfg"
  shows "\<exists>cfg'. parse_tier js st key t cfg = Some cfg' \<and> cfg_ok cfg' \<and> same_options cfg cfg'
     \<and> tier_rule_count cfg' = min IDKFS_MAX_TIER_RULES (tier_rule_count cfg + length ps)
     \<and> rules_of cfg' = rules_of cfg @ take (IDKFS_MAX_TIER_RULES - tier_rule_count cfg) (rules_for t ps)"
  using assms item_loop_rules[of ps js "get_prop js st (bytes_of_string key)" cfg 0 t]
  by (simp add: parse_tier_def lists_strings_def Let_def)

lemma parse_speed_tiers_ok:
  assumes "cfg_ok cfg"
  shows "\<exists>cfg'. parse_speed_tiers js root cfg = Some cfg' \<and> cfg_ok cfg' \<and> same_options cfg cfg'"
proof (cases "absent js (get_prop js root (bytes_of_string ''speed_tier''))")
  case False
  let ?st = "get_prop js root (bytes_of_string ''speed_tier'')"
  have "cfg_ok (cfg\<lparr>tier_rule_count := 0\<rparr>)"
    using assms by (simp add: cfg_ok_def)
  from parse_tier_ok[OF this, of js ?st "''fast''" TIER_FAST]
  obtain c1 where c1: "parse_tier js ?st ''fast'' TIER_FAST (cfg\<lparr>tier_rule_count := 0\<rparr>) = Some c1" "cfg_ok c1"
    "same_options cfg c1" by (auto simp: same_options_def)
  from parse_tier_ok[OF c1(2), of js ?st "''normal''" TIER_NORMAL]
  obtain c2 where c2: "parse_tier js ?st ''normal'' TIER_NORMAL c1 = Some c2" "cfg_ok c2" "same_options c1 c2" by auto
  from parse_tier_ok[OF c2(2), of js ?st "''slow''" TIER_SLOW] c1 c2 False show ?thesis
    by (auto simp: parse_speed_tiers_def Let_def same_options_def)
qed (use assms in \<open>simp add: parse_speed_tiers_def same_options_def\<close>)

text \<open>The rules of the three lists, as far as the array goes.\<close>

definition loaded_rules :: "cstr list \<Rightarrow> cstr list \<Rightarrow> cstr list \<Rightarrow> (cstr \<times> SpeedTier) list" where
  "loaded_rules fs ns ss =
     take IDKFS_MAX_TIER_RULES (rules_for TIER_FAST fs @ rules_for TIER_NORMAL ns @ rules_for TIER_SLOW ss)"

lemma parse_speed_tiers_rules:
  assumes "cfg_ok cfg" and st: "st = get_prop js root (bytes_of_string ''speed_tier'')" "\<not> absent js st"
    and "lists_strings js st ''fast'' fs" "lists_strings js st ''normal'' ns" "lists_strings js st ''slow'' ss"
  shows "\<exists>cfg'. parse_speed_tiers js root cfg = Some cfg' \<and> cfg_ok cfg' \<and> same_options cfg cfg'
     \<and> rules_of cfg' = loaded_rules fs ns ss"
proof -
  let ?c = "cfg\<lparr>tier_rule_count := 0\<rparr>"
  have full: "min 64 (min 64 a + b) = min 64 (a + b)" "64 - min 64 a = 64 - a" for a b :: nat
    by (simp_all add: min_def)
  have c: "cfg_ok ?c" "rules_of ?c = []" "tier_rule_count ?c = 0"
    using assms(1) by (simp_all add: cfg_ok_def rules_of_def)
  obtain c1 where c1: "parse_tier js st ''fast'' TIER_FAST ?c = Some c1" "cfg_ok c1" "same_options ?c c1"
    "tier_rule_count c1 = min 64 (length fs)" "rules_of c1 = take 64 (rules_for TIER_FAST fs)"
    using parse_tier_rules[OF assms(4) c(1), of TIER_FAST] c(2,3) by auto
  obtain c2 where c2: "parse_tier js st ''normal'' TIER_NORMAL c1 = Some c2" "cfg_ok c2" "same_options c1 c2"
    "tier_rule_count c2 = min 64 (length fs + length ns)"
    "rules_of c2 = rules_of c1 @ take (64 - length fs) (rules_for TIER_NORMAL ns)"
    using parse_tier_rules[OF assms(5) c1(2), of TIER_NORMAL] c1(4) by (auto simp: full)
  obtain c3 where "parse_tier js st ''slow'' TIER_SLOW c2 = Some c3" "cfg_ok c3" "same_options c2 c3"
    "rules_of c3 = rules_of c2 @ take (64 - (length fs + length ns)) (rules_for TIER_SLOW ss)"
    using parse_tier_rules[OF assms(6) c2(2), of TIER_SLOW] c2(4) by (auto simp: full)
  with c1 c2 st show ?thesis
    by (auto simp: parse_speed_tiers_def Let_def same_options_def loaded_rules_def)
qed

lemma cfg_ok_g_config: "cfg_ok g_config"
  by (simp add: cfg_ok_def g_config_def zeros_def)

lemma parse_sorting_keeps:
  "cfg_ok (parse_sorting js root cfg) = cfg_ok cfg" "rules_of (parse_sorting js root cfg) = rules_of cfg"
  "default_tier (parse_sorting js root cfg) = default_tier cfg" "tier_rule_count (parse_sorting js root cfg) = tier_rule_count cfg"
  by (auto simp: parse_sorting_def js_get_str_def Let_def cfg_ok_def rules_of_def strncpy_def split: option.splits)

lemma load_total:
  assumes "cfg_ok cfg"
  shows "\<exists>cfg' r. idkfs_config_load js src cfg = Some (cfg', r) \<and> cfg_ok cfg'"
proof -
  obtain c where c: "config_defaults cfg = Some c" "cfg_ok c"
    using config_defaults_ok[OF assms] by blast
  let ?obj = "config_object js (cfg_global src)"
  have "cfg_ok (c\<lparr>cfg_features := parse_disable js ?obj (cfg_features c)\<rparr>)"
    using c(2) by (simp add: cfg_ok_def)
  from parse_speed_tiers_ok[OF this, of js ?obj]
  obtain c' where c': "parse_speed_tiers js ?obj (c\<lparr>cfg_features := parse_disable js ?obj (cfg_features c)\<rparr>) = Some c'"
    "cfg_ok c'" by blast
  from c'(2) have "cfg_ok ((parse_sorting js ?obj c')\<lparr>loaded := True\<rparr>)"
    using parse_sorting_keeps(1)[of js ?obj c'] by (simp add: cfg_ok_def)
  with c c'(1) show ?thesis
    by (simp add: idkfs_config_load_def Let_def)
qed

text \<open>The script ran and its object has the three lists of patterns.\<close>

definition good_source :: "'v js_engine \<Rightarrow> 'v config_source \<Rightarrow> cstr list \<Rightarrow> cstr list \<Rightarrow> cstr list \<Rightarrow> bool" where
  "good_source js src fs ns ss \<longleftrightarrow>
     (let obj = config_object js (cfg_global src); st = get_prop js obj (bytes_of_string ''speed_tier'') in
      cfg_exists src \<and> cfg_read_ok src \<and> cfg_eval_ok src \<and> is_object js obj \<and> \<not> absent js st
      \<and> lists_strings js st ''fast'' fs \<and> lists_strings js st ''normal'' ns \<and> lists_strings js st ''slow'' ss)"

lemma load_rules:
  assumes "cfg_ok cfg" "good_source js src fs ns ss"
  shows "\<exists>cfg'. idkfs_config_load js src cfg = Some (cfg', 0) \<and> cfg_ok cfg' \<and> default_tier cfg' = TIER_NORMAL
     \<and> rules_of cfg' = loaded_rules fs ns ss"
proof -
  obtain c where c: "config_defaults cfg = Some c" "cfg_ok c" "default_tier c = TIER_NORMAL"
    using config_defaults_ok[OF assms(1)] by blast
  let ?obj = "config_object js (cfg_global src)"
  have "cfg_ok (c\<lparr>cfg_features := parse_disable js ?obj (cfg_features c)\<rparr>)"
    using c(2) by (simp add: cfg_ok_def)
  from parse_speed_tiers_rules[OF this refl, of js ?obj fs ns ss] assms(2)
  obtain c' where c': "parse_speed_tiers js ?obj (c\<lparr>cfg_features := parse_disable js ?obj (cfg_features c)\<rparr>) = Some c'"
    "cfg_ok c'" "default_tier c' = TIER_NORMAL"
    "rules_of c' = loaded_rules fs ns ss"
    using c(3) by (auto simp: good_source_def Let_def same_options_def)
  let ?r = "(parse_sorting js ?obj c')\<lparr>loaded := True\<rparr>"
  have "cfg_ok ?r" "rules_of ?r = rules_of c'" "default_tier ?r = TIER_NORMAL"
    using c'(2,3) parse_sorting_keeps[of js ?obj c'] by (simp_all add: cfg_ok_def rules_of_def)
  with c(1) c'(1,4) assms(2) show ?thesis
    by (simp add: idkfs_config_load_def good_source_def Let_def)
qed

section \<open>Loading the configuration\<close>

text \<open>C21: Loading a configuration never leaves the array of 64 rules, whatever the engine answers. When the script
  defines the three lists of patterns (of any length, as strings without NUL), the rules are the first 64 patterns of
  the lists fast, normal, slow in this order, each cut to its first 127 bytes; the tier of a file name is the
  one of the first of these rules that matches, and normal when none does.\<close>

theorem config_tier_rules:
  "\<exists>cfg r. idkfs_config_load js src g_config = Some (cfg, r) \<and> tier_rule_count cfg \<le> 64
     \<and> (\<exists>t. config_get_tier fnm cfg name = Some t
       \<and> (good_source js src fs ns ss \<longrightarrow> r = 0 \<and>
            t = (case find (\<lambda>(p, t). fnm p name)
                   (take 64 (map (\<lambda>p. (take 127 p, TIER_FAST)) fs @ map (\<lambda>p. (take 127 p, TIER_NORMAL)) ns
                             @ map (\<lambda>p. (take 127 p, TIER_SLOW)) ss)) of
                   None \<Rightarrow> TIER_NORMAL | Some (p, t) \<Rightarrow> t)))"
proof (cases "good_source js src fs ns ss")
  case True
  obtain cfg where cfg: "idkfs_config_load js src g_config = Some (cfg, 0)" "cfg_ok cfg" "default_tier cfg = TIER_NORMAL"
    "rules_of cfg = loaded_rules fs ns ss"
    using load_rules[OF cfg_ok_g_config True] by blast
  moreover have "tier_rule_count cfg \<le> 64"
    using cfg(2) by (simp add: cfg_ok_def)
  ultimately show ?thesis
    using get_tier_find[OF cfg(2), of fnm name, unfolded cfg(3,4)] by (simp add: loaded_rules_def rules_for_def)
next
  case False
  obtain cfg r where cfg: "idkfs_config_load js src g_config = Some (cfg, r)" "cfg_ok cfg"
    using load_total[OF cfg_ok_g_config] by blast
  moreover have "tier_rule_count cfg \<le> 64"
    using cfg(2) by (simp add: cfg_ok_def)
  ultimately show ?thesis
    using False get_tier_find[OF cfg(2), of fnm name] by simp
qed

section \<open>Printing the configuration\<close>

lemma char_array_ok: "j < n \<Longrightarrow> m j = 0 \<Longrightarrow> char_array m n = Some (cstring m n)"
  by (force simp: char_array_def bytes_of_def)

lemma rules_text_ok:
  "\<forall>r \<in> set rs. pattern r 127 = 0
     \<Longrightarrow> rules_text rs = Some (concat (map (\<lambda>(p, t). rule_line p t) (map (\<lambda>r. (cstring (pattern r) 128, tier r)) rs)))"
  by (induction rs) (simp_all add: char_array_ok[of 127])

text \<open>Whatever was loaded, printing it stays inside of the arrays, and the text ends with one line for each rule, in their
  order.\<close>

theorem config_print_lists_rules:
  "\<exists>cfg r. idkfs_config_load js src g_config = Some (cfg, r) \<and>
     idkfs_config_print cfg = Some (options_text (cstring (cfg_sorting cfg) 32) cfg
       @ concat (map (\<lambda>(p, t). rule_line p t) (rules_of cfg)))"
proof -
  obtain cfg r where cfg: "idkfs_config_load js src g_config = Some (cfg, r)" "cfg_ok cfg"
    using load_total[OF cfg_ok_g_config] by blast
  then have "char_array (cfg_sorting cfg) 32 = Some (cstring (cfg_sorting cfg) 32)"
    by (intro char_array_ok[of 31]) (simp_all add: cfg_ok_def)
  moreover have "\<forall>r \<in> set (take (tier_rule_count cfg) (tier_rules cfg)). pattern r 127 = 0"
    using cfg(2) in_set_takeD by (fastforce simp: cfg_ok_def)
  ultimately show ?thesis
    using cfg rules_text_ok by (auto simp: idkfs_config_print_def rules_of_def cfg_ok_def)
qed

text \<open>A line tells its rule, as the pattern does not end with a space.\<close>

lemma pad_20_inj:
  assumes "pad_20 p = pad_20 q" "p = [] \<or> last p \<noteq> 32" "q = [] \<or> last q \<noteq> 32"
  shows "p = q"
proof -
  have strip: "rev (dropWhile (\<lambda>c. c = 32) (rev (pad_20 s))) = s" if "s = [] \<or> last s \<noteq> 32" for s
  proof -
    have "dropWhile (\<lambda>c. c = 32) (replicate k 32 @ rev s) = rev s" for k
      using that by (induction k) (cases s rule: rev_cases; auto)+
    then show ?thesis by (simp add: pad_20_def)
  qed
  show ?thesis
    using strip[OF assms(2)] strip[OF assms(3)] unfolding assms(1) by (rule trans[OF sym])
qed

lemma rule_line_inj:
  assumes "rule_line p t = rule_line q u" "p = [] \<or> last p \<noteq> 32" "q = [] \<or> last q \<noteq> 32"
  shows "p = q \<and> t = u"
proof -
  have "last (butlast (rule_line p t)) = last (tier_name t)" for p t
    by (cases t) (simp_all add: rule_line_def butlast_append bytes_of_string_def)
  with assms(1) have "last (tier_name t) = last (tier_name u)" by metis
  then have "t = u"
    by (cases t; cases u) (simp_all add: bytes_of_string_def)
  moreover from this assms(1) have "pad_20 p = pad_20 q"
    by (simp add: rule_line_def)
  ultimately show ?thesis
    using pad_20_inj[OF _ assms(2,3)] by blast
qed

text \<open>A small engine: strings, arrays and objects. The script sets \<open>config\<close> to an object with the lists
  \<open>*.db\<close>, \<open>*.txt\<close> and \<open>*\<close>; the matcher knows a leading star only.\<close>

datatype jsval = JUndef | JNum int | JStr cstr | JArr "jsval list" | JObj "(cstr \<times> jsval) list"

fun jsval_prop :: "jsval \<Rightarrow> cstr \<Rightarrow> jsval" where
  "jsval_prop (JObj ps) k = (case map_of ps k of Some v \<Rightarrow> v | None \<Rightarrow> JUndef)"
| "jsval_prop (JArr vs) k = (if k = bytes_of_string ''length'' then JNum (int (length vs)) else JUndef)"
| "jsval_prop v k = JUndef"

fun jsval_item :: "jsval \<Rightarrow> nat \<Rightarrow> jsval" where
  "jsval_item (JArr vs) i = (if i < length vs then vs ! i else JUndef)"
| "jsval_item v i = JUndef"

definition jsval_engine :: "jsval js_engine" where
  "jsval_engine = \<lparr>get_prop = jsval_prop, get_item = jsval_item, is_undefined = (\<lambda>v. v = JUndef),
     is_exception = (\<lambda>v. False), is_object = (\<lambda>v. case v of JObj ps \<Rightarrow> True | JArr vs \<Rightarrow> True | _ \<Rightarrow> False),
     is_array = (\<lambda>v. case v of JArr vs \<Rightarrow> True | _ \<Rightarrow> False), to_bool = (\<lambda>v. v \<noteq> JUndef),
     to_int32 = (\<lambda>v. case v of JNum n \<Rightarrow> n | _ \<Rightarrow> 0), to_cstring = (\<lambda>v. case v of JStr s \<Rightarrow> Some s | _ \<Rightarrow> None),
     undef = JUndef\<rparr>"

definition star_match :: "cstr \<Rightarrow> cstr \<Rightarrow> bool" where
  "star_match p s = (case p of [] \<Rightarrow> s = [] | c # q \<Rightarrow> if c = 42 then q = drop (length s - length q) s else p = s)"

definition sample_source :: "jsval config_source" where
  "sample_source = \<lparr>cfg_exists = True, cfg_read_ok = True, cfg_eval_ok = True,
     cfg_global = JObj [(bytes_of_string ''config'', JObj [(bytes_of_string ''speed_tier'', JObj [
       (bytes_of_string ''fast'', JArr [JStr (bytes_of_string ''*.db'')]), (bytes_of_string ''normal'', JArr [JStr (bytes_of_string ''*.txt'')]),
       (bytes_of_string ''slow'', JArr [JStr (bytes_of_string ''*'')])])])]\<rparr>"

lemma good_sample: "good_source jsval_engine sample_source [bytes_of_string ''*.db''] [bytes_of_string ''*.txt''] [bytes_of_string ''*'']"
  by code_simp

theorem config_tier_rules_witness:
  "good_source jsval_engine sample_source [bytes_of_string ''*.db''] [bytes_of_string ''*.txt''] [bytes_of_string ''*'']
   \<and> (\<exists>cfg. idkfs_config_load jsval_engine sample_source g_config = Some (cfg, 0)
        \<and> config_get_tier star_match cfg (bytes_of_string ''a.db'') = Some TIER_FAST)"
proof -
  have "star_match (bytes_of_string ''*.db'') (bytes_of_string ''a.db'')"
    by code_simp
  moreover have "take 127 (bytes_of_string ''*.db'') = bytes_of_string ''*.db''"
    by (simp add: bytes_of_string_def)
  ultimately show ?thesis
    using config_tier_rules[of jsval_engine sample_source star_match "bytes_of_string ''a.db''" "[bytes_of_string ''*.db'']"
      "[bytes_of_string ''*.txt'']" "[bytes_of_string ''*'']"] good_sample by auto
qed

end
