(* ===== verification/Spec2Isabelle.thy ===== *)
theory Spec2Isabelle
  imports Persist_Life Fuse_Main Fuse_Indirect Sort_Script Blk_Journal Vfs_Session Snapper_Proofs Config_Proofs
begin

text \<open>
  Verification of idkfs, a file system that exists twice: as a userspace program over FUSE, with its own
  on-disk format, and as a pair of kernel modules with another one. Beside them stand the programs that
  format, check and snapshot images, and a configuration reader. The definitions follow the C sources
  function by function; names are kept, with a prefix where two files define the same name.

  \<^bold>\<open>The parts of the program and their theories.\<close>

  \<^item> \<^verbatim>\<open>idkfs_core.c\<close>, the file system itself on a memory buffer as disk. \<^verbatim>\<open>Core_Types\<close> has its constants,
    structs and their byte layout, \<^verbatim>\<open>Crc32\<close> the checksum, \<^verbatim>\<open>Bitmap\<close> the block bitmap, \<^verbatim>\<open>Core_Io\<close> inodes,
    blocks, \<open>idkfs_read\<close> and \<open>idkfs_write\<close>, \<^verbatim>\<open>Dir_Table\<close> the \<open>Directory\<close> struct, and \<^verbatim>\<open>Core_Ops\<close> directories,
    creation, flushing and formatting. The state is the record \<open>IDKFS\<close>: the superblock, the bitmap, the inode
    table, the bytes of the disk, the feature flags.
  \<^item> \<^verbatim>\<open>idkfs_fuse.c\<close>, the FUSE operations on one such state (the global \<open>gfs\<close>): \<^verbatim>\<open>Fuse\<close> has path resolution,
    the operations, the listing of directories and the life cycle of the Lua sorter; \<open>fuse_exec\<close> of
    \<^verbatim>\<open>Fuse_Session\<close> is the table of operations and \<open>fuse_program\<close> of \<^verbatim>\<open>Fuse_Main\<close> the main program
    around it. \<^verbatim>\<open>Sort_Script\<close> has the comparison script \<^verbatim>\<open>sorting.lua\<close>.
  \<^item> \<^verbatim>\<open>idkfs_persist.c\<close>, a second copy of these operations over an image file that is mapped into memory, which
    writes the metadata back after each change: \<^verbatim>\<open>Persist\<close>, from the image to the main program, with the
    table of operations in \<^verbatim>\<open>Persist_Session\<close>.
  \<^item> \<^verbatim>\<open>idkfs_kfs.h\<close>, the format of the kernel side: \<^verbatim>\<open>Kfs_Types\<close> and \<^verbatim>\<open>Kfs_Inode\<close>. \<^verbatim>\<open>mkfs_idkfs.c\<close> writes such an image and
    \<^verbatim>\<open>tools/idkfs_fsck.c\<close> checks one: \<^verbatim>\<open>Mkfs_Fsck\<close>.
  \<^item> \<^verbatim>\<open>idkfs_blk.c\<close>, the block device over an image file, with addressing through six levels of indirect blocks
    and a transaction record: \<^verbatim>\<open>Blk\<close>. The state is the record \<open>blk_state\<close> of the file's static variables
    together with the bytes of the image file.
  \<^item> \<^verbatim>\<open>idkfs_vfs.c\<close>, the kernel's file system with tiers and extents: \<^verbatim>\<open>Vfs\<close>, with the requests that its tables
    of operations take in \<^verbatim>\<open>Vfs_Session\<close>.
  \<^item> \<^verbatim>\<open>idkfs_snapper.c\<close>, numbered copies of an image: \<^verbatim>\<open>Snapper\<close>.
  \<^item> \<^verbatim>\<open>idkfs_config.c\<close>, tier rules and feature flags from a JavaScript object, and their printing: \<^verbatim>\<open>Config\<close>.

  \<^bold>\<open>How the code is modelled.\<close> \<^verbatim>\<open>Prelude\<close> holds the shared vocabulary. Integers are words of their width,
  so that arithmetic wraps as in C; an object that is used bytewise is a function from offsets to bytes. A
  function that can touch memory outside of its objects, or whose behaviour C leaves undefined, returns an
  option, and \<open>None\<close> stands for that; error codes are the negative numbers of the source, and \<open>Inl\<close> where the
  source also returns a value through a pointer. What the operating system, the kernel, the Lua interpreter,
  QuickJS and \<open>fnmatch\<close> answer is an argument: a record of answers, a list of them, or a function. Loops are recursive
  functions with a termination proof; no fuel is used. A copy loop takes the answers of its system calls as a
  list, and the theorem on rollbacks says for which answers it finishes.

  \<^bold>\<open>What is proved.\<close>

  \<^item> \<^verbatim>\<open>Core_Inv\<close>, \<^verbatim>\<open>Core_Write\<close>, \<^verbatim>\<open>Core_File\<close>, \<^verbatim>\<open>Core_Dir\<close>, \<^verbatim>\<open>Core_Create\<close>, \<^verbatim>\<open>Core_Format\<close> and
    \<^verbatim>\<open>Core_Theorems\<close>: the invariant \<open>fs_inv\<close>, which is \<open>block_inv\<close> (every block has at most one owner, is marked
    used and lies in the data area) and \<open>counted\<close> (the free count is right), holds after formatting and is kept by writes at any offset and of any
    length, by creating files and directories and by changing directories; none of these touches another
    file; and reading, writing and the directory operations refine operations on byte functions and lists of
    entries. These refinements are about the twelve direct blocks, 49152 bytes of a
    file: beyond them the code writes to block 0, which is one of the theorems.
  \<^item> \<^verbatim>\<open>Fuse_Path\<close>, \<^verbatim>\<open>Fuse_Ops\<close>, \<^verbatim>\<open>Fuse_Unlink\<close>, \<^verbatim>\<open>Fuse_List\<close>: resolving a path is a walk through the listings;
    creating, removing and listing do what their names say. Paths have up to 4095 bytes, the size of the
    buffers in the code. \<^verbatim>\<open>Fuse_Indirect\<close>: removing a file with an indirect block marks block 0 free.
  \<^item> \<^verbatim>\<open>Fuse_Tree\<close> is a specification of the directory tree without blocks and bytes. \<^verbatim>\<open>Fuse_Session\<close> shows that
    every state that a session reaches from a formatted file system by supported requests has a well-formed tree and
    answers the next supported request as the specification does. Supported (\<open>request_ok\<close>) is what the kernel sends, with
    proper paths and handles, except three kinds of requests that the code does not handle without damage: removing a
    file with an indirect block, making a directory with fewer than 9 free blocks, and making one where the parent's
    link count would wrap. The contract is the locale \<open>tree_service\<close>, and
    \<^verbatim>\<open>Persist_Session\<close> shows that the front end on an image fulfils it too and has saved its
    metadata when it reports success.
  \<^item> \<^verbatim>\<open>Fuse_Main\<close>: the FUSE program, from formatting to its exit, answers every sequence of supported requests as the
    specification does. \<^verbatim>\<open>Sort_Script\<close>: listings sorted by the script are in its order, with nothing lost.
  \<^item> \<^verbatim>\<open>Persist_Proofs\<close>: files, directories and inodes survive unmounting and mounting, the upper half of the
    block bitmap does not. \<^verbatim>\<open>Persist_Life\<close> goes on from there: of the invariant, \<open>block_inv\<close> survives as long as the
    blocks in use lie below block 32768, and so an image that is formatted, mounted, changed by supported requests and
    unmounted any number of times keeps its tree. The main program ends for all arguments.
  \<^item> \<^verbatim>\<open>Mkfs_Fsck\<close>: the checker accepts exactly the consistent images, and rejects those that the formatter makes.
  \<^item> \<^verbatim>\<open>Blk_Chain\<close>, \<^verbatim>\<open>Blk_Resolve\<close>, \<^verbatim>\<open>Blk_Io\<close>, \<^verbatim>\<open>Blk_Journal\<close>: the addressing computes digits to base 512 and follows
    them; requests stay inside of the map and read what was written; over all sequences of loading,
    writing, committing and crashing of an image that has a transaction record where its superblock says, by
    requests that do not overwrite the record and the fields of the superblock that locate it, recovery ends with a closed
    record and a generation that agrees with it. Images of \<^verbatim>\<open>mkfs_idkfs\<close> have no such record.
  \<^item> \<^verbatim>\<open>Vfs_Proofs\<close>: tiers by extension, the block map of a file, and the zones of the tiers. \<^verbatim>\<open>Vfs_Session\<close>: over
    all mounts, requests, unmounts and crashes files share no block until a zone runs over.
  \<^item> \<^verbatim>\<open>Snapper_Proofs\<close>, \<^verbatim>\<open>Config_Proofs\<close>: the list of snapshots is read as it was written, a rollback brings
    the image back; the configuration never leaves its array of 64 rules, the first matching one of the first 64 patterns,
    cut to 127 bytes, decides, and printing lists all rules.

  The interfaces are locales: \<open>struct_codec\<close> (packed structs), \<open>checksum_register\<close>, \<open>block_allocator\<close>,
  \<open>directory_table\<close> and \<open>tree_service\<close>, each interpreted on the definitions of the code.

  \<^bold>\<open>What is not modelled, and why.\<close> Concurrency: an operation is one step. The file-system module takes a
  lock around an allocation. The block driver never takes the lock it has, and the FUSE programs, which libfuse
  runs with several threads, have one for the sorter only, so that the theorems on sequences of requests hold
  for requests that are served one at a time (\<open>-s\<close>). The entries of the kernel's tables
  that name kernel functions, which are not in the sources. The Rust daemon and its client and the shell
  scripts: other languages. Usage texts and log lines, which have no effect on the state. Host variants of
  the tools for Windows.

  \<^bold>\<open>What is left.\<close> The theorems on the userspace file system are about the twelve direct blocks; files beyond
  them could be treated for images in which the indirect block has no zero entries, which the code does not
  make. A mounted image from which blocks above 32768 are in use is covered only by the theorem on what is lost.
\<close>

end
